(* ===== verification/Prelude.thy ===== *)
theory Prelude
  imports Main
begin

text \<open>
  The vocabulary shared by all components: the ways a C++ operation of the repository can fail
  to return (a failed \<open>assert\<close>, a thrown \<open>roq::RuntimeError\<close>, undefined behaviour), the result
  type built on it, sequencing of such operations, and the loop \<open>for(auto& x : xs) body\<close> as a
  fold that stops at the first failure.  The lemmas are the loop rules every later theory uses.
\<close>

section \<open>Results\<close>

datatype abort = Assert_Failed | Runtime_Error string | Undefined_Behaviour

type_synonym 'a res = "abort + 'a"

definition rbind :: "'a res \<Rightarrow> ('a \<Rightarrow> 'b res) \<Rightarrow> 'b res" where
  "rbind m f = (case m of Inl e \<Rightarrow> Inl e | Inr x \<Rightarrow> f x)"

definition ensure :: "bool \<Rightarrow> 'a res \<Rightarrow> 'a res" where
  "ensure b k = (if b then k else Inl Assert_Failed)"

named_theorems res_simps \<open>unfolding of results of known shape\<close>

lemma rbind_Inl [simp]: "rbind (Inl e) f = Inl e"
  by (simp add: rbind_def)

lemma rbind_Inr [simp]: "rbind (Inr x) f = f x"
  by (simp add: rbind_def)

lemma ensure_True [simp]: "ensure True k = k"
  by (simp add: ensure_def)

lemma ensure_False [simp]: "ensure False k = Inl Assert_Failed"
  by (simp add: ensure_def)

lemma rbind_eq_Inr [res_simps]: "rbind m f = Inr y \<longleftrightarrow> (\<exists>x. m = Inr x \<and> f x = Inr y)"
  by (cases m) auto

lemma ensure_eq_Inr [res_simps]: "ensure b k = Inr y \<longleftrightarrow> b \<and> k = Inr y"
  by (cases b) auto

lemma rbind_cong [fundef_cong]:
  "m = m' \<Longrightarrow> (\<And>x. m' = Inr x \<Longrightarrow> f x = g x) \<Longrightarrow> rbind m f = rbind m' g"
  by (cases m') (auto simp: rbind_def)

lemma ensure_cong [fundef_cong]: "b = b' \<Longrightarrow> (b' \<Longrightarrow> k = k') \<Longrightarrow> ensure b k = ensure b' k'"
  by (auto simp: ensure_def)

text \<open>Evaluation goes from the left: the continuation waits until its argument is known.\<close>

lemma rbind_weak_cong: "m = m' \<Longrightarrow> rbind m f = rbind m' f"
  by simp

lemma ensure_weak_cong: "b = b' \<Longrightarrow> ensure b k = ensure b' k"
  by simp

lemmas eval_congs = rbind_weak_cong ensure_weak_cong

lemma rbind_split_Inr:
  "m = Inr x \<Longrightarrow> rbind m f = f x"
  by simp


lemma case_option_ex: "(case x of None \<Rightarrow> False | Some m \<Rightarrow> Q m) \<longleftrightarrow> (\<exists>m. x = Some m \<and> Q m)"
  by (cases x) auto


section \<open>Loops\<close>

fun rfold :: "('x \<Rightarrow> 's \<Rightarrow> 's res) \<Rightarrow> 'x list \<Rightarrow> 's \<Rightarrow> 's res" where
  "rfold f [] s = Inr s"
| "rfold f (x # xs) s = rbind (f x s) (rfold f xs)"

lemma rfold_append: "rfold f (xs @ ys) s = rbind (rfold f xs s) (rfold f ys)"
  by (induction xs arbitrary: s) (auto simp: rbind_def split: sum.splits)

lemma rfold_invariant:
  assumes "rfold f xs s = Inr s'"
    and "I s"
    and "\<And>x s s'. x \<in> set xs \<Longrightarrow> I s \<Longrightarrow> f x s = Inr s' \<Longrightarrow> I s'"
  shows "I s'"
  using assms
proof (induction xs arbitrary: s)
  case Nil
  then show ?case by simp
next
  case (Cons x xs)
  from Cons.prems(1) obtain s1 where s1: "f x s = Inr s1" and r: "rfold f xs s1 = Inr s'"
    by (auto simp: res_simps)
  have "I s1" using Cons.prems(3)[of x s s1] Cons.prems(2) s1 by simp
  from Cons.IH[OF r this] Cons.prems(3) show ?case by auto
qed

lemma rfold_total:
  assumes "I s"
    and "\<And>x s. x \<in> set xs \<Longrightarrow> I s \<Longrightarrow> \<exists>s'. f x s = Inr s' \<and> I s'"
  shows "\<exists>s'. rfold f xs s = Inr s' \<and> I s'"
  using assms
proof (induction xs arbitrary: s)
  case Nil
  then show ?case by simp
next
  case (Cons x xs)
  from Cons.prems(2)[of x s] Cons.prems(1) obtain s1 where "f x s = Inr s1" and "I s1"
    by auto
  moreover from Cons.IH[OF \<open>I s1\<close>] Cons.prems(2) obtain s' where "rfold f xs s1 = Inr s'" "I s'"
    by auto
  ultimately show ?case by auto
qed

text \<open>A relation between the start and the end of a loop that each step extends.\<close>

lemma rfold_relates:
  assumes "rfold f xs s = Inr s'"
    and "\<And>s. R s s"
    and "\<And>s t u. R s t \<Longrightarrow> R t u \<Longrightarrow> R s u"
    and "\<And>x s s'. x \<in> set xs \<Longrightarrow> f x s = Inr s' \<Longrightarrow> R s s'"
  shows "R s s'"
proof (rule rfold_invariant[where I = "R s", OF assms(1)])
  show "R s s" by (rule assms(2))
next
  fix x t u
  assume "x \<in> set xs" "R s t" "f x t = Inr u"
  then show "R s u" using assms(3,4) by blast
qed


section \<open>Lists\<close>

lemma length_filter_less_when:
  assumes "\<And>x. x \<in> set xs \<Longrightarrow> Q (g x) \<Longrightarrow> Q x"
    and "y \<in> set xs" and "Q y" and "\<not> Q (g y)"
  shows "length (filter Q (map g xs)) < length (filter Q xs)"
  using assms
proof (induction xs)
  case Nil
  then show ?case by simp
next
  case (Cons x xs)
  have le: "length (filter Q (map g zs)) \<le> length (filter Q zs)" if "set zs \<subseteq> set (x # xs)" for zs
    using that Cons.prems(1) by (induction zs) auto
  show ?case
  proof (cases "y = x")
    case True
    with Cons.prems le[of xs] show ?thesis by (auto simp: subset_iff)
  next
    case False
    with Cons.prems Cons.IH show ?thesis by auto
  qed
qed

end
