(* ===== verification/Doubles.thy ===== *)
theory Doubles
  imports Prelude Complex_Main
begin

text \<open>
  IEEE 754 binary64 (\<open>double\<close>) with round-to-nearest-even, and on top of it \<open>core::Double\<close> of
  \<open>core/double.hpp\<close>: a double whose comparisons are blurred by \<open>epsilon = 1e-6\<close> and where NaN
  means "no value".  Finite values are rationals; \<open>rnd\<close> rounds an exact result to 53 significant
  bits (with gradual underflow), \<open>fl\<close> adds the signed zeros and the overflow to infinity.  The
  lemmas give what the components need of this arithmetic: rounding is odd and keeps signs,
  small integers are exact, and the blurred comparison is antisymmetric.
\<close>

section \<open>Rounding\<close>

definition round_half_even :: "rat \<Rightarrow> int" where
  "round_half_even q =
     (let n = \<lfloor>q\<rfloor>; f = q - of_int n in
      if f < 1 / 2 then n else if 1 / 2 < f then n + 1 else if even n then n else n + 1)"

text \<open>Number of bits of a positive integer.\<close>

function nbits :: "int \<Rightarrow> int" where
  "nbits n = (if n \<le> 0 then 0 else 1 + nbits (n div 2))"
  by pat_completeness auto
termination
  by (relation "measure nat") auto

declare nbits.simps [simp del]

text \<open>\<open>ilog2 x\<close> is the exponent of the leading bit of \<open>x > 0\<close>.\<close>

definition ilog2 :: "rat \<Rightarrow> int" where
  "ilog2 x =
     (let (a, b) = quotient_of x; e = nbits a - nbits b in
      if power_int 2 e \<le> x then e else e - 1)"

text \<open>The weight of the last bit kept: 53 significant bits, never below \<open>2 ^ -1074\<close>.\<close>

definition ulp :: "rat \<Rightarrow> rat" where
  "ulp x = power_int 2 (max (ilog2 x - 52) (- 1074))"

definition rnd :: "rat \<Rightarrow> rat" where
  "rnd x =
     (if x = 0 then 0
      else sgn x * (of_int (round_half_even (\<bar>x\<bar> / ulp \<bar>x\<bar>)) * ulp \<bar>x\<bar>))"


section \<open>Values and operations of type double\<close>

text \<open>\<open>Infty True\<close> is minus infinity, \<open>NZero\<close> the negative zero, \<open>Fin 0\<close> the positive one.\<close>

datatype double = NaN | Infty bool | NZero | Fin rat

fun isnan :: "double \<Rightarrow> bool" where
  "isnan NaN = True"
| "isnan _ = False"

text \<open>The sign bit and the value of a finite double.\<close>

fun signbit :: "double \<Rightarrow> bool" where
  "signbit NaN = False"
| "signbit (Infty s) = s"
| "signbit NZero = True"
| "signbit (Fin r) = (r < 0)"

fun rval :: "double \<Rightarrow> rat" where
  "rval (Fin r) = r"
| "rval _ = 0"

fun isfin :: "double \<Rightarrow> bool" where
  "isfin NaN = False"
| "isfin (Infty _) = False"
| "isfin _ = True"

text \<open>\<open>fl s x\<close>: the double nearest to \<open>x\<close>; \<open>s\<close> is the sign of an exact zero.\<close>

definition fl :: "bool \<Rightarrow> rat \<Rightarrow> double" where
  "fl s x =
     (let r = rnd x in
      if 2 ^ 1024 \<le> \<bar>r\<bar> then Infty (r < 0)
      else if r = 0 then (if x < 0 \<or> (x = 0 \<and> s) then NZero else Fin 0)
      else Fin r)"

instantiation double :: "{plus, minus, uminus, times, inverse, zero, one, ord}"
begin

definition "0 = Fin 0"

definition "1 = Fin 1"

fun uminus_double :: "double \<Rightarrow> double" where
  "- NaN = NaN"
| "- Infty s = Infty (\<not> s)"
| "- NZero = Fin 0"
| "- Fin r = (if r = 0 then NZero else Fin (- r))"

fun plus_double :: "double \<Rightarrow> double \<Rightarrow> double" where
  "NaN + y = NaN"
| "x + NaN = NaN"
| "Infty s + Infty t = (if s = t then Infty s else NaN)"
| "Infty s + y = Infty s"
| "x + Infty t = Infty t"
| "x + y = fl (signbit x \<and> signbit y) (rval x + rval y)"

definition "x - y = x + (- y)" for x y :: double

fun times_double :: "double \<Rightarrow> double \<Rightarrow> double" where
  "NaN * y = NaN"
| "x * NaN = NaN"
| "Infty s * y = (if y = NZero \<or> y = Fin 0 then NaN else Infty (s \<noteq> signbit y))"
| "x * Infty t = (if x = NZero \<or> x = Fin 0 then NaN else Infty (signbit x \<noteq> t))"
| "x * y = fl (signbit x \<noteq> signbit y) (rval x * rval y)"

fun divide_double :: "double \<Rightarrow> double \<Rightarrow> double" where
  "divide_double NaN y = NaN"
| "divide_double x NaN = NaN"
| "divide_double (Infty s) y = (case y of Infty _ \<Rightarrow> NaN | _ \<Rightarrow> Infty (s \<noteq> signbit y))"
| "divide_double x (Infty t) = (if signbit x \<noteq> t then NZero else Fin 0)"
| "divide_double x y =
     (if rval y = 0 then (if rval x = 0 then NaN else Infty (signbit x \<noteq> signbit y))
      else fl (signbit x \<noteq> signbit y) (rval x / rval y))"

fun inverse_double :: "double \<Rightarrow> double" where
  "inverse NaN = NaN"
| "inverse (Infty s) = (if s then NZero else Fin 0)"
| "inverse NZero = Infty True"
| "inverse (Fin r) = (if r = 0 then Infty False else fl (r < 0) (1 / r))"

fun less_double :: "double \<Rightarrow> double \<Rightarrow> bool" where
  "NaN < y \<longleftrightarrow> False"
| "x < NaN \<longleftrightarrow> False"
| "Infty s < y \<longleftrightarrow> s \<and> y \<noteq> Infty True"
| "x < Infty t \<longleftrightarrow> \<not> t"
| "x < y \<longleftrightarrow> rval x < rval y"

fun less_eq_double :: "double \<Rightarrow> double \<Rightarrow> bool" where
  "NaN \<le> y \<longleftrightarrow> False"
| "x \<le> NaN \<longleftrightarrow> False"
| "Infty s \<le> y \<longleftrightarrow> s \<or> y = Infty False"
| "x \<le> Infty t \<longleftrightarrow> \<not> t"
| "x \<le> y \<longleftrightarrow> rval x \<le> rval y"

instance ..

end


section \<open>core::Double\<close>

text \<open>\<open>Double::epsilon\<close>, the double nearest to 1e-6.\<close>

definition epsilon :: double where
  "epsilon = fl False (1 / 1000000)"

definition double_empty :: "double \<Rightarrow> bool" where
  "double_empty x = isnan x"

definition double_compare :: "double \<Rightarrow> double \<Rightarrow> int" where
  "double_compare x y =
     (if \<not> double_empty x \<and> \<not> double_empty y then
        let diff = x - y in
        if epsilon < diff then 1 else if diff < - epsilon then - 1 else 0
      else if double_empty x \<and> double_empty y then 0
      else if double_empty x then - 1
      else 1)"

definition dlt :: "double \<Rightarrow> double \<Rightarrow> bool" where
  "dlt x y \<longleftrightarrow> double_compare x y < 0"

definition dgt :: "double \<Rightarrow> double \<Rightarrow> bool" where
  "dgt x y \<longleftrightarrow> 0 < double_compare x y"

definition deq :: "double \<Rightarrow> double \<Rightarrow> bool" where
  "deq x y \<longleftrightarrow> double_compare x y = 0"

text \<open>\<open>std::max\<close> and \<open>std::min\<close> over \<open>operator<\<close> of \<open>core::Double\<close>.\<close>

definition double_max :: "double \<Rightarrow> double \<Rightarrow> double" where
  "double_max x y = (if dlt x y then y else x)"

definition double_min :: "double \<Rightarrow> double \<Rightarrow> double" where
  "double_min x y = (if dlt y x then y else x)"

text \<open>\<open>std::roundl\<close>: to the nearest integer, halves away from zero.\<close>

definition roundl :: "rat \<Rightarrow> int" where
  "roundl x = (if 0 \<le> x then \<lfloor>x + 1 / 2\<rfloor> else - \<lfloor>1 / 2 - x\<rfloor>)"

text \<open>The rational value of \<open>epsilon\<close>.\<close>

definition epsr :: rat where
  "epsr = 4722366482869645 / 4722366482869645213696"


section \<open>Rounding is monotone, odd and exact on small integers\<close>


lemma nbits_nonpos [simp]: "n \<le> 0 \<Longrightarrow> nbits n = 0"
  by (simp add: nbits.simps)

lemma nbits_pos: "0 < n \<Longrightarrow> nbits n = 1 + nbits (n div 2)"
  by (simp add: nbits.simps [of n])

lemma nbits_nonneg: "0 \<le> nbits n"
proof (induction n rule: nbits.induct)
  case (1 n)
  then show ?case by (cases "n \<le> 0") (simp_all add: nbits_pos)
qed

lemma int_half_bounds: "p \<le> n div 2 \<and> n div 2 < q \<Longrightarrow> 2 * p \<le> n \<and> n < 2 * (q :: int)"
  by arith

lemma nbits_bounds: "0 < n \<Longrightarrow> 2 ^ nat (nbits n - 1) \<le> n \<and> n < 2 ^ nat (nbits n)"
proof (induction n rule: nbits.induct)
  case (1 n)
  show ?case
  proof (cases "n = 1")
    case True
    then show ?thesis by (simp add: nbits_pos)
  next
    case False
    with "1.prems" have h: "0 < n div 2" by auto
    then have pos: "0 < nbits (n div 2)"
      using nbits_nonneg [of "n div 2 div 2"] by (simp add: nbits_pos)
    have ih: "2 ^ nat (nbits (n div 2) - 1) \<le> n div 2 \<and> n div 2 < 2 ^ nat (nbits (n div 2))"
      using "1.IH" "1.prems" h by simp
    have "nat (nbits n - 1) = Suc (nat (nbits (n div 2) - 1))"
      and "nat (nbits n) = Suc (nat (nbits (n div 2)))"
      using "1.prems" pos by (simp_all add: nbits_pos nat_add_distrib nat_diff_distrib)
    with int_half_bounds ih show ?thesis by simp
  qed
qed

lemma nbits_power_int:
  assumes "0 < n"
  shows "power_int 2 (nbits n - 1) \<le> (of_int n :: rat)" "(of_int n :: rat) < power_int 2 (nbits n)"
proof -
  have pos: "0 < nbits n"
    using assms nbits_nonneg [of "n div 2"] by (simp add: nbits_pos)
  have b: "2 ^ nat (nbits n - 1) \<le> n" "n < 2 ^ nat (nbits n)"
    using nbits_bounds [OF assms] by auto
  have "(of_int (2 ^ nat (nbits n - 1)) :: rat) \<le> of_int n"
    by (rule of_int_le_iff [THEN iffD2]) (rule b)
  moreover have "(of_int n :: rat) < of_int (2 ^ nat (nbits n))"
    by (rule of_int_less_iff [THEN iffD2]) (rule b)
  ultimately show "power_int 2 (nbits n - 1) \<le> (of_int n :: rat)"
      "(of_int n :: rat) < power_int 2 (nbits n)"
    using pos by (simp_all add: power_int_def)
qed

lemma power_int_2_less: "power_int (2 :: rat) a < power_int 2 b \<Longrightarrow> a < b"
  using power_int_increasing [of b a "2 :: rat"] by (cases "a < b") auto

lemma ilog2_bounds:
  assumes "0 < x"
  shows "power_int 2 (ilog2 x) \<le> x" "x < power_int 2 (ilog2 x + 1)"
proof -
  obtain a b where q: "quotient_of x = (a, b)" by (cases "quotient_of x")
  have b: "0 < b" using quotient_of_denom_pos [OF q] .
  have x: "x = of_int a / of_int b" using quotient_of_div [OF q] .
  have a: "0 < a" using assms b x by (simp add: zero_less_divide_iff)
  let ?e = "nbits a - nbits b"
  have "x < power_int 2 (nbits a) / power_int 2 (nbits b - 1)"
    unfolding x by (rule frac_less) (use nbits_power_int [OF a] nbits_power_int [OF b] a in auto)
  also have "\<dots> = power_int 2 (?e + 1)"
    by (simp add: power_int_diff power_int_add)
  finally have up: "x < power_int 2 (?e + 1)" .
  have "power_int 2 (nbits a - 1) / power_int 2 (nbits b) < x"
    unfolding x by (rule frac_less2) (use nbits_power_int [OF a] nbits_power_int [OF b] b in auto)
  moreover have "(power_int 2 (nbits a - 1) / power_int 2 (nbits b) :: rat) = power_int 2 (?e - 1)"
    by (simp add: power_int_diff)
  ultimately have lo: "power_int 2 (?e - 1) \<le> x" by simp
  show "power_int 2 (ilog2 x) \<le> x" "x < power_int 2 (ilog2 x + 1)"
    using up lo by (auto simp: ilog2_def q Let_def)
qed

lemma ulp_pos [simp]: "0 < ulp x"
  by (simp add: ulp_def)

lemma round_half_even_of_int [simp]: "round_half_even (of_int n) = n"
  by (simp add: round_half_even_def)

lemma round_half_even_error: "\<bar>of_int (round_half_even q) - q\<bar> \<le> 1 / 2"
  unfolding round_half_even_def Let_def
  using floor_correct [of q] by (auto split: if_splits)

lemma round_half_even_mono:
  assumes "p \<le> q"
  shows "round_half_even p \<le> round_half_even q"
proof (cases "\<lfloor>p\<rfloor> = \<lfloor>q\<rfloor>")
  case True
  with assms show ?thesis by (auto simp: round_half_even_def Let_def)
next
  case False
  with floor_mono [OF assms] have "\<lfloor>p\<rfloor> + 1 \<le> \<lfloor>q\<rfloor>" by simp
  then show ?thesis by (auto simp: round_half_even_def Let_def)
qed

lemma round_half_even_nonneg: "0 \<le> q \<Longrightarrow> 0 \<le> round_half_even q"
  using round_half_even_mono [of 0 q] round_half_even_of_int [of 0] by simp

lemma rnd_0 [simp]: "rnd 0 = 0"
  by (simp add: rnd_def)

lemma rnd_uminus: "rnd (- x) = - rnd x"
  by (simp add: rnd_def)

lemma rnd_nonneg: "0 \<le> x \<Longrightarrow> 0 \<le> rnd x"
  by (auto simp: rnd_def round_half_even_nonneg less_imp_le)

lemma rnd_nonpos: "x \<le> 0 \<Longrightarrow> rnd x \<le> 0"
  using rnd_nonneg [of "- x"] by (simp add: rnd_uminus)

lemma rnd_error: "\<bar>rnd x - x\<bar> \<le> ulp \<bar>x\<bar> / 2"
proof (cases "x = 0")
  case True
  then show ?thesis by (simp add: less_imp_le)
next
  case False
  let ?u = "ulp \<bar>x\<bar>" and ?n = "round_half_even (\<bar>x\<bar> / ulp \<bar>x\<bar>)"
  have u: "0 < ?u" by simp
  have "rnd x - x = sgn x * (of_int ?n * ?u - \<bar>x\<bar>)"
    using False by (simp add: rnd_def right_diff_distrib sgn_mult_abs)
  then have "\<bar>rnd x - x\<bar> = \<bar>of_int ?n * ?u - \<bar>x\<bar>\<bar>"
    using False by (simp add: abs_mult)
  also have "\<dots> = \<bar>(of_int ?n - \<bar>x\<bar> / ?u) * ?u\<bar>"
    by (simp add: left_diff_distrib less_imp_neq [OF u, symmetric] abs_of_pos [OF u])
  also have "\<dots> = \<bar>of_int ?n - \<bar>x\<bar> / ?u\<bar> * ?u"
    by (simp add: abs_mult abs_of_pos [OF u])
  also have "\<dots> \<le> 1 / 2 * ?u"
    by (rule mult_right_mono) (use round_half_even_error u in \<open>auto simp: less_imp_le\<close>)
  finally show ?thesis by simp
qed

lemma rnd_of_int:
  assumes "\<bar>n\<bar> < 2 ^ 53"
  shows "rnd (of_int n) = of_int n"
proof (cases "n = 0")
  case True
  then show ?thesis by simp
next
  case False
  let ?x = "\<bar>of_int n :: rat\<bar>"
  let ?e = "max (ilog2 ?x - 52) (- 1074)"
  have x: "0 < ?x" using False by simp
  have "power_int 2 (ilog2 ?x) \<le> ?x" by (rule ilog2_bounds) (rule x)
  also have "?x < power_int 2 53"
  proof -
    have "of_int \<bar>n\<bar> < (of_int (2 ^ 53) :: rat)"
      using assms by (simp only: of_int_less_iff)
    then show ?thesis by (simp add: power_int_def)
  qed
  finally have "ilog2 ?x < 53" by (rule power_int_2_less)
  then have e: "?e \<le> 0" by simp
  have "ulp ?x = inverse (2 ^ nat (- ?e))"
    using e by (auto simp: ulp_def power_int_def power_one_over inverse_eq_divide)
  then have "?x / ulp ?x = of_int (\<bar>n\<bar> * 2 ^ nat (- ?e))"
    by (simp add: divide_inverse)
  then have "of_int (round_half_even (?x / ulp ?x)) * ulp ?x = ?x"
    by (metis (no_types) nonzero_eq_divide_eq order_less_irrefl round_half_even_of_int ulp_pos)
  then show ?thesis using False by (simp add: rnd_def sgn_mult_abs)
qed

lemma ilog2_unique:
  assumes "power_int 2 k \<le> x" "x < power_int 2 (k + 1)"
  shows "ilog2 x = k"
proof -
  have x: "0 < x" using assms(1) by (rule less_le_trans [rotated]) simp
  have "power_int (2 :: rat) k < power_int 2 (ilog2 x + 1)"
    using assms(1) ilog2_bounds(2) [OF x] by (rule le_less_trans)
  moreover have "power_int (2 :: rat) (ilog2 x) < power_int 2 (k + 1)"
    using ilog2_bounds(1) [OF x] assms(2) by (rule le_less_trans)
  ultimately show ?thesis by (auto dest!: power_int_2_less)
qed

lemma ilog2_mono:
  assumes "0 < x" "x \<le> y"
  shows "ilog2 x \<le> ilog2 y"
proof -
  have "power_int 2 (ilog2 x) \<le> x" by (rule ilog2_bounds) (rule assms)
  also note \<open>x \<le> y\<close>
  also have "y < power_int 2 (ilog2 y + 1)" by (rule ilog2_bounds) (use assms in simp)
  finally show ?thesis by (auto dest!: power_int_2_less)
qed

text \<open>A power of two at or above the last bit kept is exact, so rounding cannot cross it.\<close>

lemma round_half_even_power:
  assumes "0 \<le> k"
  shows "of_int (round_half_even (power_int 2 k)) = (power_int 2 k :: rat)"
proof -
  have "power_int 2 k = (of_int (2 ^ nat k) :: rat)"
    using assms by (simp add: power_int_def)
  then show ?thesis by (metis round_half_even_of_int)
qed

lemma rnd_pos_eq: "0 < x \<Longrightarrow> rnd x = of_int (round_half_even (x / ulp x)) * ulp x"
  by (simp add: rnd_def)

lemma rnd_mono_pos:
  assumes "0 < x" "x \<le> y"
  shows "rnd x \<le> rnd y"
proof (cases "ulp x = ulp y")
  case True
  have "x / ulp y \<le> y / ulp y"
    using assms by (simp add: divide_right_mono less_imp_le)
  then have "of_int (round_half_even (x / ulp y)) \<le> (of_int (round_half_even (y / ulp y)) :: rat)"
    by (simp add: round_half_even_mono)
  with True assms show ?thesis
    by (simp add: rnd_pos_eq mult_right_mono less_imp_le)
next
  case False
  define k where "k = ilog2 y"
  define d e where "d = max (ilog2 x - 52) (- 1074)" and "e = max (k - 52) (- 1074)"
  have ne: "d \<noteq> e" using False by (auto simp: ulp_def d_def e_def k_def)
  have le: "ilog2 x \<le> k" unfolding k_def by (rule ilog2_mono) (use assms in auto)
  with ne have kx: "ilog2 x < k" and ek: "e \<le> k" and dk: "d \<le> k"
    by (auto simp: d_def e_def max_def split: if_splits)
  have "x < power_int 2 (ilog2 x + 1)" by (rule ilog2_bounds) (rule assms)
  also have "\<dots> \<le> power_int 2 k" by (rule power_int_increasing) (use kx in auto)
  finally have "x / power_int 2 d \<le> power_int 2 k / power_int 2 d"
    by (simp add: divide_right_mono)
  then have "of_int (round_half_even (x / power_int 2 d)) \<le> (of_int (round_half_even (power_int 2 (k - d))) :: rat)"
    by (simp add: round_half_even_mono power_int_diff)
  also have "\<dots> = power_int 2 (k - d)" by (rule round_half_even_power) (use dk in simp)
  finally have "rnd x \<le> power_int 2 (k - d) * power_int 2 d"
    using assms by (simp add: rnd_pos_eq ulp_def d_def [symmetric] mult_right_mono)
  also have "\<dots> = power_int 2 (k - e) * power_int 2 e"
    by (simp flip: power_int_add)
  also have "power_int 2 (k - e) = (of_int (round_half_even (power_int 2 (k - e))) :: rat)"
    by (rule round_half_even_power [symmetric]) (use ek in simp)
  also have "power_int 2 k / power_int 2 e \<le> y / power_int 2 e"
    by (rule divide_right_mono) (use ilog2_bounds(1) [of y] assms in \<open>auto simp: k_def\<close>)
  then have "of_int (round_half_even (power_int 2 (k - e))) * power_int 2 e
      \<le> (of_int (round_half_even (y / power_int 2 e)) * power_int 2 e :: rat)"
    by (simp add: round_half_even_mono power_int_diff mult_right_mono)
  finally show ?thesis
    using assms by (simp add: rnd_pos_eq ulp_def e_def k_def)
qed

lemma rnd_mono:
  assumes "x \<le> y"
  shows "rnd x \<le> rnd y"
proof -
  consider "0 < x" | "x \<le> 0" "0 \<le> y" | "y < 0" by linarith
  then show ?thesis
  proof cases
    case 1
    then show ?thesis using assms by (rule rnd_mono_pos)
  next
    case 2
    then show ?thesis using rnd_nonpos [of x] rnd_nonneg [of y] by simp
  next
    case 3
    then have "rnd (- y) \<le> rnd (- x)" using assms by (intro rnd_mono_pos) auto
    then show ?thesis by (simp add: rnd_uminus)
  qed
qed


section \<open>The blurred comparison\<close>

lemma epsilon_eq: "epsilon = Fin epsr"
proof -
  have il: "ilog2 (1 / 1000000) = - 20"
    by (rule ilog2_unique) (simp_all add: power_int_def power_one_over)
  have "\<lfloor>73786976294838206464 / 15625 :: rat\<rfloor> = 4722366482869645"
    by (rule floor_unique) simp_all
  then have "round_half_even ((1 / 1000000) * 2 ^ 72) = 4722366482869645"
    by (simp add: round_half_even_def Let_def)
  moreover have u: "ulp (1 / 1000000) = 1 / 4722366482869645213696"
    by (simp add: ulp_def il power_int_def power_one_over)
  ultimately have "rnd (1 / 1000000) = epsr"
    unfolding rnd_pos_eq [of "1 / 1000000", simplified] u by (simp add: epsr_def)
  then show ?thesis by (simp add: epsilon_def fl_def epsr_def)
qed


lemma epsr_pos: "0 < epsr" "epsr < 1"
  by (simp_all add: epsr_def)

lemma fl_of_int:
  assumes "\<bar>n\<bar> < 2 ^ 53"
  shows "fl s (of_int n) = (if n = 0 \<and> s then NZero else Fin (of_int n))"
proof -
  have "\<bar>of_int n\<bar> < (2 ^ 1024 :: rat)"
  proof -
    have "of_int \<bar>n\<bar> < (of_int (2 ^ 53) :: rat)" using assms by (simp only: of_int_less_iff)
    also have "\<dots> \<le> 2 ^ 1024" by simp
    finally show ?thesis by simp
  qed
  then show ?thesis using rnd_of_int [OF assms] by (simp add: fl_def Let_def not_le)
qed

lemma fl_numerals [simp]:
  "fl s 0 = (if s then NZero else Fin 0)"
  "fl s 1 = Fin 1"
  "fl s (- 1) = Fin (- 1)"
  "numeral k < (2 :: int) ^ 53 \<Longrightarrow> fl s (numeral k) = Fin (numeral k)"
  "numeral k < (2 :: int) ^ 53 \<Longrightarrow> fl s (- numeral k) = Fin (- numeral k)"
  using fl_of_int [of 0 s] fl_of_int [of 1 s] fl_of_int [of "- 1" s]
    fl_of_int [of "numeral k" s] fl_of_int [of "- numeral k" s] by simp_all

lemma isfin_cases:
  assumes "isfin x"
  obtains "x = NZero" | r where "x = Fin r"
  using assms by (cases x) auto

lemma isfin_not_isnan: "isfin x \<Longrightarrow> \<not> isnan x"
  by (cases x) auto

lemma plus_fin: "isfin x \<Longrightarrow> isfin y \<Longrightarrow> \<exists>s. x + y = fl s (rval x + rval y)"
  by (auto elim!: isfin_cases)

lemma minus_fin: "isfin x \<Longrightarrow> isfin y \<Longrightarrow> \<exists>s. x - y = fl s (rval x - rval y)"
  by (auto elim!: isfin_cases simp: minus_double_def)

lemma minus_self: "isfin x \<Longrightarrow> x - x = Fin 0"
  by (cases x) (auto simp: minus_double_def fl_def rnd_def)

lemma epsilon_less_fl: "epsilon < fl s x \<longleftrightarrow> epsr < rnd x"
  using epsr_pos
  by (auto simp: epsilon_eq fl_def Let_def)

lemma fl_less_epsilon: "fl s x < - epsilon \<longleftrightarrow> rnd x < - epsr"
  using epsr_pos
  by (auto simp: epsilon_eq fl_def Let_def)

lemma double_compare_fin:
  assumes "isfin x" "isfin y"
  shows "double_compare x y =
    (let r = rnd (rval x - rval y) in if epsr < r then 1 else if r < - epsr then - 1 else 0)"
proof -
  obtain s where "x - y = fl s (rval x - rval y)" using minus_fin [OF assms] by blast
  moreover have "\<not> isnan x" "\<not> isnan y" using assms by (auto elim!: isfin_cases)
  ultimately show ?thesis
    by (simp add: double_compare_def double_empty_def epsilon_less_fl fl_less_epsilon Let_def)
qed

lemma isfin_uminus [simp]: "isfin (- x) = isfin x"
  by (cases x) auto

lemma plus_Infty [simp]: "isfin x \<Longrightarrow> Infty s + x = Infty s" "isfin x \<Longrightarrow> x + Infty s = Infty s"
  by (auto elim!: isfin_cases)

lemma double_compare_inf:
  "double_compare (Infty s) (Infty t) = (if s = t then 0 else if s then - 1 else 1)"
  "isfin x \<Longrightarrow> double_compare (Infty s) x = (if s then - 1 else 1)"
  "isfin x \<Longrightarrow> double_compare x (Infty s) = (if s then 1 else - 1)"
  using epsr_pos
  by (auto simp: double_compare_def double_empty_def minus_double_def epsilon_eq Let_def
      isfin_not_isnan)

lemma double_compare_nan:
  "double_compare NaN NaN = 0"
  "\<not> isnan x \<Longrightarrow> double_compare NaN x = - 1"
  "\<not> isnan x \<Longrightarrow> double_compare x NaN = 1"
  by (simp_all add: double_compare_def double_empty_def)

lemma double_kinds: obtains "x = NaN" | s where "x = Infty s" | "isfin x"
  by (cases x) auto

lemma double_compare_swap: "double_compare y x = - double_compare x y"
proof -
  have "double_compare y x = - double_compare x y" if "isfin x" "isfin y"
  proof -
    have "rnd (rval y - rval x) = - rnd (rval x - rval y)"
      using rnd_uminus [of "rval x - rval y"] by simp
    then show ?thesis using that epsr_pos by (simp add: double_compare_fin Let_def)
  qed
  then show ?thesis
    by (cases x rule: double_kinds; cases y rule: double_kinds)
      (auto simp: double_compare_inf double_compare_nan isfin_not_isnan)
qed

lemma double_compare_refl [simp]: "double_compare x x = 0"
  using double_compare_swap [of x x] by simp

lemma double_compare_eq:
  assumes "isfin x" "isfin y" "rval x = rval y"
  shows "double_compare x y = 0"
  using assms epsr_pos by (simp add: double_compare_fin Let_def)


lemma not_dlt_swap: "\<not> dlt y x \<longleftrightarrow> double_compare x y \<le> 0"
  unfolding dlt_def using double_compare_swap [of x y] by linarith

lemma double_min_le: "double_compare (double_min x y) x \<le> 0" "double_compare (double_min x y) y \<le> 0"
  using not_dlt_swap [of x y] not_dlt_swap [of y x] by (auto simp: double_min_def dlt_def)

lemma double_max_ge: "0 \<le> double_compare (double_max x y) x" "0 \<le> double_compare (double_max x y) y"
  using not_dlt_swap [of x y] not_dlt_swap [of y x] double_compare_swap [of x y]
  by (auto simp: double_max_def dlt_def)

lemma nonneg_not_nan: "0 \<le> (x :: double) \<Longrightarrow> \<not> isnan x"
  by (cases x) (auto simp: zero_double_def)

lemma nonneg_iff: "0 \<le> (x :: double) \<longleftrightarrow> x = Infty False \<or> (isfin x \<and> 0 \<le> rval x)"
  by (cases x) (auto simp: zero_double_def)

lemma fl_nonneg: "0 \<le> x \<Longrightarrow> 0 \<le> fl s x"
  using rnd_nonneg [of x] by (auto simp: fl_def Let_def zero_double_def not_less)

lemma double_add_nonneg:
  assumes "0 \<le> x" "0 \<le> y"
  shows "0 \<le> (x + y :: double)"
proof (cases "isfin x \<and> isfin y")
  case True
  then obtain s where "x + y = fl s (rval x + rval y)" using plus_fin by blast
  moreover have "0 \<le> rval x" "0 \<le> rval y" using True assms by (auto simp: nonneg_iff)
  ultimately show ?thesis by (simp add: fl_nonneg)
next
  case False
  with assms have "x + y = Infty False" by (auto simp: nonneg_iff)
  then show ?thesis by (simp add: nonneg_iff)
qed

lemma double_diff_nonneg:
  assumes "0 \<le> x" "y < x" "0 \<le> y"
  shows "0 \<le> (x - y :: double)"
proof (cases "isfin x")
  case True
  with assms have y: "isfin y" by (auto simp: nonneg_iff elim!: isfin_cases)
  obtain s where "x - y = fl s (rval x - rval y)" using minus_fin [OF True y] by blast
  moreover have "rval y \<le> rval x" using True y assms by (auto elim!: isfin_cases)
  ultimately show ?thesis by (simp add: fl_nonneg)
next
  case False
  with assms(1) have x: "x = Infty False" by (simp add: nonneg_iff)
  with assms(2,3) have "isfin y" by (auto simp: nonneg_iff)
  with x show ?thesis by (simp add: minus_double_def nonneg_iff)
qed

lemma roundl_error: "\<bar>of_int (roundl x) - x\<bar> \<le> 1 / 2"
  unfolding roundl_def abs_le_iff
  using of_int_floor_le [of "x + 1 / 2"] of_int_floor_le [of "1 / 2 - x"]
    floor_correct [of "x + 1 / 2"] floor_correct [of "1 / 2 - x"]
  by (cases "0 \<le> x") (simp_all only: if_True if_False of_int_minus, linarith+)

lemma roundl_of_int: "roundl (of_int n) = n"
  using roundl_error [of "of_int n"] by linarith

lemma roundl_simps [simp]:
  "roundl 0 = 0" "roundl 1 = 1" "roundl (numeral k) = numeral k" "roundl (- numeral k) = - numeral k"
  using roundl_of_int [of 0] roundl_of_int [of 1] roundl_of_int [of "numeral k"]
    roundl_of_int [of "- numeral k"] by simp_all

lemma double_less_irrefl [simp]: "\<not> (x :: double) < x"
  by (cases x) auto


section \<open>The order behind the blurred comparison\<close>

text \<open>"No value" below every number; the blurred comparison is monotone in this order.\<close>

definition below :: "double \<Rightarrow> double \<Rightarrow> bool" where
  "below x y \<longleftrightarrow> x = NaN \<or> (y \<noteq> NaN \<and> x \<le> y)"

lemma below_refl [simp]: "below x x"
  by (cases x) (auto simp: below_def)

lemma less_eq_fin: "isfin x \<Longrightarrow> isfin y \<Longrightarrow> x \<le> y \<longleftrightarrow> rval x \<le> rval y"
  by (auto elim!: isfin_cases)

lemma below_fin: "isfin x \<Longrightarrow> isfin y \<Longrightarrow> below x y \<longleftrightarrow> rval x \<le> rval y"
  by (auto simp: below_def less_eq_fin)

lemma compare_fin_le:
  assumes "isfin x" "isfin y" "isfin z" "rval x \<le> rval y"
  shows "double_compare x z \<le> double_compare y z"
  using rnd_mono [of "rval x - rval z" "rval y - rval z"] assms epsr_pos
  by (simp add: double_compare_fin Let_def)

lemma compare_range: "- 1 \<le> double_compare x y" "double_compare x y \<le> 1"
  by (simp_all add: double_compare_def Let_def)

lemma double_compare_mono: "below x y \<Longrightarrow> double_compare x z \<le> double_compare y z"
proof (cases "isfin x \<and> isfin y \<and> isfin z")
  case True
  then show "below x y \<Longrightarrow> ?thesis" by (simp add: below_fin compare_fin_le)
next
  case False
  assume b: "below x y"
  show ?thesis
  proof (cases z rule: double_kinds)
    case 1
    with b show ?thesis by (cases x; cases y) (auto simp: below_def double_compare_nan)
  next
    case (2 s)
    with b show ?thesis
      by (cases x; cases y; cases s) (auto simp: below_def double_compare_nan double_compare_inf)
  next
    case 3
    have nz: "\<not> isnan z" using 3 by (rule isfin_not_isnan)
    with b False 3 compare_range [of x z] compare_range [of y z] show ?thesis
      by (cases x; cases y) (auto simp: below_def double_compare_nan double_compare_inf)
  qed
qed

lemma double_compare_antimono: "below x y \<Longrightarrow> double_compare z y \<le> double_compare z x"
  using double_compare_mono [of x y z] double_compare_swap [of z x] double_compare_swap [of z y] by simp

lemma below_total: "below x y \<or> below y x"
  by (cases x; cases y) (auto simp: below_def)

lemma dlt_below: "dlt x y \<Longrightarrow> below x y"
  using below_total [of x y] double_compare_mono [of y x y] by (auto simp: dlt_def)

lemma double_min_below: "below (double_min x y) x"
  by (auto simp: double_min_def dlt_below)

lemma double_min_le_trans: "double_compare x z \<le> 0 \<Longrightarrow> double_compare (double_min x y) z \<le> 0"
  using double_compare_mono [OF double_min_below, of x y z] by linarith

lemma double_min_le_below: "below y z \<Longrightarrow> double_compare (double_min x y) z \<le> 0"
  using double_min_le(2) [of x y] double_compare_antimono [of y z "double_min x y"] by linarith

lemma max_neg_below_zero: "below (double_max (- x) (Fin 0)) (Fin 0) \<or> below (double_max x (Fin 0)) (Fin 0)"
proof -
  have m: "below y (Fin 0) \<Longrightarrow> below (double_max y (Fin 0)) (Fin 0)" for y by (simp add: double_max_def)
  have "below (- x) (Fin 0) \<or> below x (Fin 0)" by (cases x) (auto simp: below_def)
  with m show ?thesis by blast
qed

text \<open>Integers are compared exactly.\<close>

lemma double_compare_of_int:
  assumes "\<bar>a - b\<bar> < 2 ^ 53"
  shows "double_compare (Fin (of_int a)) (Fin (of_int b)) = sgn (a - b)"
proof -
  have "rnd (of_int (a - b)) = of_int (a - b)" by (rule rnd_of_int) (rule assms)
  moreover have "epsr < of_int n" if "0 < n" for n :: int
  proof -
    have "(1 :: rat) \<le> of_int n" using that by simp
    then show ?thesis by (simp add: epsr_def)
  qed
  from this [of "a - b"] this [of "b - a"] have "0 < a - b \<Longrightarrow> epsr < of_int (a - b)" "a - b < 0 \<Longrightarrow> of_int (a - b) < - epsr"
    by simp_all
  ultimately show ?thesis using epsr_pos by (auto simp: double_compare_fin Let_def sgn_if)
qed

lemma compare_numerals:
  "\<bar>numeral m - numeral n :: int\<bar> < 2 ^ 53 \<Longrightarrow> double_compare (Fin (numeral m)) (Fin (numeral n)) = sgn (numeral m - numeral n)"
  "\<bar>numeral m :: int\<bar> < 2 ^ 53 \<Longrightarrow> double_compare (Fin (numeral m)) (Fin 0) = 1"
  "\<bar>numeral m :: int\<bar> < 2 ^ 53 \<Longrightarrow> double_compare (Fin 0) (Fin (numeral m)) = - 1"
  "\<bar>numeral m - 1 :: int\<bar> < 2 ^ 53 \<Longrightarrow> double_compare (Fin (numeral m)) (Fin 1) = sgn (numeral m - 1)"
  "\<bar>1 - numeral m :: int\<bar> < 2 ^ 53 \<Longrightarrow> double_compare (Fin 1) (Fin (numeral m)) = sgn (1 - numeral m)"
  "double_compare (Fin 1) (Fin 0) = 1" "double_compare (Fin 0) (Fin 1) = - 1"
  "\<bar>numeral m :: int\<bar> < 2 ^ 53 \<Longrightarrow> double_compare (Fin (- numeral m)) (Fin 0) = - 1"
  using double_compare_of_int [of "numeral m" "numeral n"] double_compare_of_int [of "numeral m" 0]
    double_compare_of_int [of 0 "numeral m"] double_compare_of_int [of "numeral m" 1]
    double_compare_of_int [of 1 "numeral m"] double_compare_of_int [of 1 0] double_compare_of_int [of 0 1]
    double_compare_of_int [of "- numeral m" 0]
  by simp_all

end
