(* ===== verification/Hashes.thy ===== *)
theory Hashes
  imports Prelude "HOL-Library.Multiset"
begin

text \<open>
  \<open>core::Hash\<close> of \<open>core/hash.hpp\<close>.  Its base class \<open>roq::utils::unordered_map\<close> is not part of
  the repository: what the code relies on is that the container maps keys to values and that a
  loop over it meets every entry once, in an order of the container's own choice.  A hash is
  therefore the list of its entries in iteration order, and the order in which the container shows
  \<open>n\<close> entries after an insertion or an erasure is a parameter, the \<open>layout\<close>.

  The interface is the locale \<open>dict\<close>; it is interpreted on these operations, and on two-level
  hashes (\<open>Hash<A, Hash<B, V>>\<close>), which the locale \<open>nested_dict\<close> shows to be dictionaries keyed
  by pairs.
\<close>

section \<open>The container\<close>

type_synonym ('k, 'v) hash = "('k \<times> 'v) list"

type_synonym layout = "nat \<Rightarrow> nat list"

definition reorder :: "layout \<Rightarrow> 'a list \<Rightarrow> 'a list" where
  "reorder L xs =
     (let p = L (length xs) in
      if sort p = [0..<length xs] then map (nth xs) p else xs)"

definition hkeys :: "('k, 'v) hash \<Rightarrow> 'k list" where
  "hkeys m = map fst m"

definition hfind :: "('k, 'v) hash \<Rightarrow> 'k \<Rightarrow> 'v option" where
  "hfind m k = map_of m k"

text \<open>Assignment through a reference or an iterator: the entry stays where it is.\<close>

definition hset :: "'k \<Rightarrow> 'v \<Rightarrow> ('k, 'v) hash \<Rightarrow> ('k, 'v) hash" where
  "hset k v m = map (\<lambda>(k', w). (k', if k' = k then v else w)) m"

text \<open>\<open>m[k] = v\<close>\<close>

definition hput :: "layout \<Rightarrow> 'k \<Rightarrow> 'v \<Rightarrow> ('k, 'v) hash \<Rightarrow> ('k, 'v) hash" where
  "hput L k v m = (if k \<in> set (hkeys m) then hset k v m else reorder L (m @ [(k, v)]))"

definition herase :: "layout \<Rightarrow> 'k \<Rightarrow> ('k, 'v) hash \<Rightarrow> ('k, 'v) hash" where
  "herase L k m =
     (if k \<in> set (hkeys m) then reorder L (filter (\<lambda>e. fst e \<noteq> k) m) else m)"

definition hwf :: "('k, 'v) hash \<Rightarrow> bool" where
  "hwf m = distinct (hkeys m)"

text \<open>\<open>hash_get_value\<close> without the callback: the value the callback is run on, if any.\<close>

definition hash_get_value :: "('k, 'v) hash \<Rightarrow> 'k \<Rightarrow> 'v option" where
  "hash_get_value m k = hfind m k"

text \<open>\<open>m(k, dflt)\<close>\<close>

definition hget_or :: "('k, 'v) hash \<Rightarrow> 'k \<Rightarrow> 'v \<Rightarrow> 'v" where
  "hget_or m k d = (case hfind m k of None \<Rightarrow> d | Some v \<Rightarrow> v)"


text \<open>
  \<open>core::Map\<close>, a \<open>std::map\<close>: its entries are met in ascending order of the keys.
\<close>

definition map_put :: "'k :: linorder \<Rightarrow> 'v \<Rightarrow> ('k, 'v) hash \<Rightarrow> ('k, 'v) hash" where
  "map_put k v m = (if k \<in> set (hkeys m) then hset k v m else insort_key fst (k, v) m)"

definition map_erase :: "'k \<Rightarrow> ('k, 'v) hash \<Rightarrow> ('k, 'v) hash" where
  "map_erase k m = filter (\<lambda>e. fst e \<noteq> k) m"


subsection \<open>Two-level hashes\<close>

definition hfind2 :: "('a, ('b, 'v) hash) hash \<Rightarrow> 'a \<times> 'b \<Rightarrow> 'v option" where
  "hfind2 m k = (case hfind m (fst k) of None \<Rightarrow> None | Some i \<Rightarrow> hfind i (snd k))"

text \<open>\<open>m[a][b] = v\<close>\<close>

definition hput2 ::
  "layout \<Rightarrow> 'a \<times> 'b \<Rightarrow> 'v \<Rightarrow> ('a, ('b, 'v) hash) hash \<Rightarrow> ('a, ('b, 'v) hash) hash" where
  "hput2 L k v m = hput L (fst k) (hput L (snd k) v (hget_or m (fst k) [])) m"

definition herase2 ::
  "layout \<Rightarrow> 'a \<times> 'b \<Rightarrow> ('a, ('b, 'v) hash) hash \<Rightarrow> ('a, ('b, 'v) hash) hash" where
  "herase2 L k m = (case hfind m (fst k) of None \<Rightarrow> m | Some i \<Rightarrow> hput L (fst k) (herase L (snd k) i) m)"

text \<open>The entries two nested range-for loops meet, in their order.\<close>

definition hentries2 :: "('a, ('b, 'v) hash) hash \<Rightarrow> (('a \<times> 'b) \<times> 'v) list" where
  "hentries2 m = concat (map (\<lambda>(a, i). map (\<lambda>(b, v). ((a, b), v)) i) m)"

definition hwf2 :: "('a, ('b, 'v) hash) hash \<Rightarrow> bool" where
  "hwf2 m = (hwf m \<and> list_all (hwf \<circ> snd) m)"

subsection \<open>Three-level hashes\<close>

definition hfind3 :: "('a, ('b, ('c, 'v) hash) hash) hash \<Rightarrow> 'a \<times> 'b \<times> 'c \<Rightarrow> 'v option" where
  "hfind3 m k = (case hfind m (fst k) of None \<Rightarrow> None | Some i \<Rightarrow> hfind2 i (snd k))"

text \<open>\<open>m[a][b][c] = v\<close>\<close>

definition hput3 ::
  "layout \<Rightarrow> 'a \<times> 'b \<times> 'c \<Rightarrow> 'v \<Rightarrow> ('a, ('b, ('c, 'v) hash) hash) hash \<Rightarrow>
     ('a, ('b, ('c, 'v) hash) hash) hash" where
  "hput3 L k v m = hput L (fst k) (hput2 L (snd k) v (hget_or m (fst k) [])) m"

definition herase3 ::
  "layout \<Rightarrow> 'a \<times> 'b \<times> 'c \<Rightarrow> ('a, ('b, ('c, 'v) hash) hash) hash \<Rightarrow>
     ('a, ('b, ('c, 'v) hash) hash) hash" where
  "herase3 L k m =
     (case hfind m (fst k) of None \<Rightarrow> m | Some i \<Rightarrow> hput L (fst k) (herase2 L (snd k) i) m)"

definition hentries3 :: "('a, ('b, ('c, 'v) hash) hash) hash \<Rightarrow> (('a \<times> 'b \<times> 'c) \<times> 'v) list" where
  "hentries3 m = concat (map (\<lambda>(a, i). map (\<lambda>(bc, v). ((a, bc), v)) (hentries2 i)) m)"

definition hwf3 :: "('a, ('b, ('c, 'v) hash) hash) hash \<Rightarrow> bool" where
  "hwf3 m = (hwf m \<and> list_all (hwf2 \<circ> snd) m)"


section \<open>The interface\<close>

locale dict =
  fixes find :: "'m \<Rightarrow> 'k \<Rightarrow> 'v option"
    and put :: "'k \<Rightarrow> 'v \<Rightarrow> 'm \<Rightarrow> 'm"
    and erase :: "'k \<Rightarrow> 'm \<Rightarrow> 'm"
    and entries :: "'m \<Rightarrow> ('k \<times> 'v) list"
    and wf :: "'m \<Rightarrow> bool"
    and empty :: "'m"
  assumes find_empty: "find empty k = None"
    and find_put: "wf m \<Longrightarrow> find (put k v m) = (find m)(k \<mapsto> v)"
    and find_erase: "wf m \<Longrightarrow> find (erase k m) = (find m)(k := None)"
    and wf_empty: "wf empty"
    and wf_put: "wf m \<Longrightarrow> wf (put k v m)"
    and wf_erase: "wf m \<Longrightarrow> wf (erase k m)"
    and map_of_entries: "wf m \<Longrightarrow> map_of (entries m) = find m"
    and distinct_entries: "wf m \<Longrightarrow> distinct (map fst (entries m))"
begin

lemma find_put_same: "wf m \<Longrightarrow> find (put k v m) k = Some v"
  by (simp add: find_put)

lemma find_put_other: "wf m \<Longrightarrow> k \<noteq> l \<Longrightarrow> find (put k v m) l = find m l"
  by (simp add: find_put)

lemma put_put: "wf m \<Longrightarrow> find (put k v (put k w m)) = find (put k v m)"
  by (simp add: find_put wf_put)

lemma erase_put: "wf m \<Longrightarrow> find m k = None \<Longrightarrow> find (erase k (put k v m)) = find m"
  by (auto simp: find_put find_erase wf_put)

lemma in_entries: "wf m \<Longrightarrow> (k, v) \<in> set (entries m) \<longleftrightarrow> find m k = Some v"
  using map_of_eq_Some_iff [OF distinct_entries] map_of_entries by metis

lemma key_in_entries: "wf m \<Longrightarrow> k \<in> fst ` set (entries m) \<longleftrightarrow> find m k \<noteq> None"
  using map_of_entries [of m] by (metis map_of_eq_None_iff)

lemma list_all_entries:
  assumes "wf m"
  shows "list_all (\<lambda>(k, v). P k v) (entries m) \<longleftrightarrow> (\<forall>k v. find m k = Some v \<longrightarrow> P k v)"
  unfolding list_all_iff using in_entries [OF assms] by force

lemmas dict_simps = find_empty find_put find_erase wf_empty wf_put wf_erase

end


subsection \<open>The container implements the interface\<close>

lemma mset_reorder [simp]: "mset (reorder L xs) = mset xs"
proof (cases "sort (L (length xs)) = [0..<length xs]")
  case True
  then have "mset (L (length xs)) = mset [0..<length xs]" by (metis mset_sort)
  then have "mset (map (nth xs) (L (length xs))) = mset (map (nth xs) [0..<length xs])"
    by (simp only: mset_map)
  with True show ?thesis by (simp add: reorder_def map_nth)
next
  case False
  then show ?thesis by (simp add: reorder_def)
qed

lemma set_reorder [simp]: "set (reorder L xs) = set xs"
  by (metis mset_reorder set_mset_mset)

lemma hkeys_reorder: "mset (hkeys (reorder L m)) = mset (hkeys m)"
  by (simp add: hkeys_def)

lemma hwf_reorder [simp]: "hwf (reorder L m) = hwf m"
  unfolding hwf_def using hkeys_reorder [of L m] by (metis distinct_count_atmost_1 set_mset_mset)

lemma map_of_reorder: "hwf m \<Longrightarrow> map_of (reorder L m) = map_of m"
  using hwf_reorder [of L m] by (simp add: hwf_def hkeys_def map_of_inject_set)

lemma hkeys_hset [simp]: "hkeys (hset k v m) = hkeys m"
  by (simp add: hkeys_def hset_def case_prod_unfold)

lemma hfind_hset_same: "hfind (hset k v m) k = (if k \<in> set (hkeys m) then Some v else None)"
  by (induction m) (auto simp: hfind_def hset_def hkeys_def)

lemma hfind_hset_other: "l \<noteq> k \<Longrightarrow> hfind (hset k v m) l = hfind m l"
  by (induction m) (auto simp: hfind_def hset_def)

lemma hfind_eq: "hfind m = map_of m"
  by (simp add: hfind_def fun_eq_iff)

lemma hwf_distinct: "hwf m \<Longrightarrow> distinct (map fst m)"
  by (simp add: hwf_def hkeys_def)

lemma hfind_None: "hfind m k = None \<longleftrightarrow> k \<notin> set (hkeys m)"
  by (simp add: hfind_def hkeys_def map_of_eq_None_iff)

lemma hwf_hset [simp]: "hwf (hset k v m) = hwf m"
  by (simp add: hwf_def)

lemma hfind_hset: "k \<in> set (hkeys m) \<Longrightarrow> hfind (hset k v m) = (hfind m)(k \<mapsto> v)"
  by (auto simp: fun_eq_iff hfind_hset_same hfind_hset_other)

lemma hfind_hset_Some: "hfind m k = Some w \<Longrightarrow> hfind (hset k v m) = (hfind m)(k \<mapsto> v)"
  by (rule hfind_hset) (metis hfind_None option.distinct(1))

lemma hput_hset: "hfind m k = Some w \<Longrightarrow> hput L k v m = hset k v m"
  by (metis hfind_None hput_def option.distinct(1))

lemma hwf_snoc: "k \<notin> set (hkeys m) \<Longrightarrow> hwf (m @ [(k, v)]) = hwf m"
  by (simp add: hwf_def hkeys_def)

lemma hwf_filter: "hwf m \<Longrightarrow> hwf (filter P m)"
  by (simp add: hwf_def hkeys_def distinct_map_filter)

lemma hfind_hput:
  assumes "hwf m"
  shows "hfind (hput L k v m) = (hfind m)(k \<mapsto> v)"
proof (cases "k \<in> set (hkeys m)")
  case True
  then show ?thesis
    by (auto simp: hput_def fun_eq_iff hfind_hset_same hfind_hset_other)
next
  case False
  then have "map_of m k = None" by (simp add: hkeys_def map_of_eq_None_iff)
  then have "[k \<mapsto> v] ++ map_of m = (map_of m)(k \<mapsto> v)"
    by (auto simp: fun_eq_iff map_add_def split: option.splits)
  with False assms show ?thesis
    by (simp add: hput_def hfind_eq map_of_reorder hwf_snoc)
qed

lemma map_of_filter_keys: "map_of (filter (\<lambda>e. fst e \<noteq> k) m) l = (if l = k then None else map_of m l)"
  by (induction m) auto

lemma hfind_herase: "hwf m \<Longrightarrow> hfind (herase L k m) = (hfind m)(k := None)"
  by (auto simp: herase_def hfind_def map_of_reorder hwf_filter fun_eq_iff map_of_filter_keys
      hkeys_def map_of_eq_None_iff)

lemma hwf_hput: "hwf m \<Longrightarrow> hwf (hput L k v m)"
  by (simp add: hput_def hwf_snoc)

lemma hwf_herase: "hwf m \<Longrightarrow> hwf (herase L k m)"
  by (simp add: herase_def hwf_filter)

interpretation hd: dict hfind "hput L" "herase L" "\<lambda>m. m" hwf "[]" for L
proof unfold_locales
  show "hfind [] k = None" for k :: 'a
    by (simp add: hfind_def)
  show "hwf ([] :: ('a, 'b) hash)"
    by (simp add: hwf_def hkeys_def)
qed (simp_all add: hfind_hput hfind_herase hwf_hput hwf_herase hwf_distinct hfind_eq [symmetric])


lemma map_of_insort_key:
  "k \<notin> fst ` set m \<Longrightarrow> map_of (insort_key fst (k, v) m) = (map_of m)(k \<mapsto> v)"
  by (induction m) (auto simp: fun_eq_iff)

lemma hwf_insort_key: "k \<notin> set (hkeys m) \<Longrightarrow> hwf m \<Longrightarrow> hwf (insort_key fst (k, v) m)"
  by (induction m) (auto simp: hwf_def hkeys_def set_insort_key)

lemma hfind_map_put: "hfind (map_put k v m) = (hfind m)(k \<mapsto> v)"
proof (cases "k \<in> set (hkeys m)")
  case True
  then show ?thesis by (simp add: map_put_def hfind_hset)
next
  case False
  then show ?thesis by (simp add: map_put_def hfind_eq map_of_insort_key hkeys_def)
qed

lemma hwf_map_put: "hwf m \<Longrightarrow> hwf (map_put k v m)"
  by (simp add: map_put_def hwf_insort_key)

interpretation md: dict hfind map_put map_erase "\<lambda>m. m" hwf "[]"
proof unfold_locales
  show "hfind (map_erase k m) = (hfind m)(k := None)" for k :: 'a and m :: "('a, 'b) hash"
    by (simp add: map_erase_def hfind_eq fun_eq_iff map_of_filter_keys)
qed (simp_all add: hfind_map_put hwf_map_put map_erase_def hwf_filter hwf_distinct hd.find_empty
    hd.wf_empty hfind_eq [symmetric])

lemma sorted_map_put: "sorted (hkeys m) \<Longrightarrow> sorted (hkeys (map_put k v m))"
  by (simp add: map_put_def) (simp add: hkeys_def sorted_insort_key)


subsection \<open>A dictionary of dictionaries is a dictionary\<close>

locale nested_dict =
  outer: dict ofind oput oerase oentries owf oempty +
  inner: dict ifind iput ierase ientries iwf iempty
  for ofind :: "'m \<Rightarrow> 'a \<Rightarrow> 'i option" and oput oerase oentries owf oempty
    and ifind :: "'i \<Rightarrow> 'b \<Rightarrow> 'v option" and iput ierase ientries iwf iempty +
  fixes find2 :: "'m \<Rightarrow> 'a \<times> 'b \<Rightarrow> 'v option"
    and put2 :: "'a \<times> 'b \<Rightarrow> 'v \<Rightarrow> 'm \<Rightarrow> 'm"
    and erase2 :: "'a \<times> 'b \<Rightarrow> 'm \<Rightarrow> 'm"
    and entries2 :: "'m \<Rightarrow> (('a \<times> 'b) \<times> 'v) list"
    and wf2 :: "'m \<Rightarrow> bool"
  assumes find2: "find2 m k = (case ofind m (fst k) of None \<Rightarrow> None | Some i \<Rightarrow> ifind i (snd k))"
    and put2: "put2 k v m =
      oput (fst k) (iput (snd k) v (case ofind m (fst k) of None \<Rightarrow> iempty | Some i \<Rightarrow> i)) m"
    and erase2: "erase2 k m =
      (case ofind m (fst k) of None \<Rightarrow> m | Some i \<Rightarrow> oput (fst k) (ierase (snd k) i) m)"
    and entries2: "entries2 m = concat (map (\<lambda>(a, i). map (\<lambda>(b, v). ((a, b), v)) (ientries i)) (oentries m))"
    and wf2: "wf2 m \<longleftrightarrow> owf m \<and> (\<forall>a i. ofind m a = Some i \<longrightarrow> iwf i)"
begin

lemma find2_put2: "wf2 m \<Longrightarrow> find2 (put2 k v m) = (find2 m)(k \<mapsto> v)"
  by (cases k) (auto simp: fun_eq_iff find2 put2 wf2 outer.find_put inner.dict_simps split: option.splits)

lemma find2_erase2: "wf2 m \<Longrightarrow> find2 (erase2 k m) = (find2 m)(k := None)"
  by (cases k) (auto simp: fun_eq_iff find2 erase2 wf2 outer.find_put inner.dict_simps split: option.splits)

lemma wf2_put2: "wf2 m \<Longrightarrow> wf2 (put2 k v m)"
  by (auto simp: put2 wf2 outer.dict_simps inner.dict_simps split: option.splits if_splits)

lemma wf2_erase2: "wf2 m \<Longrightarrow> wf2 (erase2 k m)"
  by (auto simp: erase2 wf2 outer.dict_simps inner.dict_simps split: option.splits if_splits)

lemma in_entries2_iff:
  "((a, b), v) \<in> set (entries2 m) \<longleftrightarrow> (\<exists>i. (a, i) \<in> set (oentries m) \<and> (b, v) \<in> set (ientries i))"
  by (force simp: entries2)

lemma set_entries2: "wf2 m \<Longrightarrow> (k, v) \<in> set (entries2 m) \<longleftrightarrow> find2 m k = Some v"
  by (cases k)
    (auto simp: in_entries2_iff find2 wf2 outer.in_entries inner.in_entries split: option.splits)

lemma distinct_concat_pairs:
  assumes "distinct (map fst xs)" "\<And>a i. (a, i) \<in> set xs \<Longrightarrow> distinct (map fst (g i))"
  shows "distinct (map fst (concat (map (\<lambda>(a, i). map (\<lambda>(b, v). ((a, b), v)) (g i)) xs)))"
  using assms
proof (induction xs)
  case Nil
  then show ?case by simp
next
  case (Cons x xs)
  obtain a i where x: "x = (a, i)" by (cases x)
  let ?f = "\<lambda>(a, i). map (\<lambda>(b, v). ((a, b), v)) (g i)"
  have "map fst (?f (a, i)) = map (Pair a) (map fst (g i))"
    by (simp add: case_prod_unfold)
  moreover have "distinct (map (Pair a) (map fst (g i)))"
    using Cons.prems(2) [of a i] x by (simp add: distinct_map inj_on_def)
  ultimately have d: "distinct (map fst (?f (a, i)))" by metis
  have "fst ` fst ` set (concat (map ?f xs)) \<subseteq> fst ` set xs" by force
  moreover have "fst ` fst ` set (?f (a, i)) \<subseteq> {a}" by auto
  moreover have "a \<notin> fst ` set xs" using Cons.prems(1) x by simp
  ultimately have "fst ` set (?f (a, i)) \<inter> fst ` set (concat (map ?f xs)) = {}" by blast
  moreover have "distinct (map fst (concat (map ?f xs)))"
    using Cons.IH Cons.prems by auto
  ultimately show ?case using d unfolding x by (simp only: list.map concat.simps map_append distinct_append set_map)
qed

lemma distinct_entries2: "wf2 m \<Longrightarrow> distinct (map fst (entries2 m))"
  unfolding entries2
  by (rule distinct_concat_pairs)
    (auto simp: wf2 outer.distinct_entries inner.distinct_entries outer.in_entries)

end

sublocale nested_dict \<subseteq> pair: dict find2 put2 erase2 entries2 wf2 oempty
proof unfold_locales
  fix m assume "wf2 m"
  show "map_of (entries2 m) = find2 m"
  proof
    fix k
    show "map_of (entries2 m) k = find2 m k"
      using set_entries2 [OF \<open>wf2 m\<close>] map_of_eq_Some_iff [OF distinct_entries2 [OF \<open>wf2 m\<close>]]
      by (metis option.exhaust)
  qed
  show "distinct (map fst (entries2 m))" by (rule distinct_entries2) fact
next
  show "find2 oempty k = None" for k by (simp add: find2 outer.find_empty)
  show "wf2 oempty" by (simp add: wf2 outer.find_empty outer.wf_empty)
qed (simp_all add: find2_put2 find2_erase2 wf2_put2 wf2_erase2)

interpretation hd2: nested_dict
  hfind "hput L" "herase L" "\<lambda>m. m" hwf "[]" hfind "hput L" "herase L" "\<lambda>m. m" hwf "[]"
  hfind2 "hput2 L" "herase2 L" hentries2 hwf2 for L
proof unfold_locales
  fix m :: "('a \<times> ('b \<times> 'c) list) list"
  have "list_all (hwf \<circ> snd) m \<longleftrightarrow> (\<forall>a i. hfind m a = Some i \<longrightarrow> hwf i)" if "hwf m"
    using hd.in_entries [OF that] by (force simp: list_all_iff)
  then show "hwf2 m \<longleftrightarrow> hwf m \<and> (\<forall>a i. hfind m a = Some i \<longrightarrow> hwf i)"
    by (auto simp: hwf2_def)
qed (simp_all add: hfind2_def hput2_def herase2_def hentries2_def hget_or_def)

interpretation hd3: nested_dict
  hfind "hput L" "herase L" "\<lambda>m. m" hwf "[]" hfind2 "hput2 L" "herase2 L" hentries2 hwf2 "[]"
  hfind3 "hput3 L" "herase3 L" hentries3 hwf3 for L
proof unfold_locales
  fix m :: "('a \<times> ('b \<times> ('c \<times> 'd) list) list) list"
  have "list_all (hwf2 \<circ> snd) m \<longleftrightarrow> (\<forall>a i. hfind m a = Some i \<longrightarrow> hwf2 i)" if "hwf m"
    using hd.in_entries [OF that] by (force simp: list_all_iff)
  then show "hwf3 m \<longleftrightarrow> hwf m \<and> (\<forall>a i. hfind m a = Some i \<longrightarrow> hwf2 i)"
    by (auto simp: hwf3_def)
qed (simp_all add: hfind3_def hput3_def herase3_def hentries3_def hget_or_def)

end
