(* ===== verification/Strings.thy ===== *)
theory Strings
  imports Prelude "HOL-Library.Char_ord"
begin

text \<open>
  \<open>core/string_utils.cpp\<close>: splitting a label at its first separator, parsing a \<open>uint32_t\<close> with
  \<open>std::from_chars\<close>, and the decimal rendering \<open>fmt\<close> uses for integers.
\<close>

section \<open>Splitting\<close>

text \<open>\<open>input.find(sep)\<close> and the two views around it.\<close>

definition split_at_sep :: "string \<Rightarrow> char \<Rightarrow> (string \<times> string) option" where
  "split_at_sep s c =
     (if c \<in> set s then Some (takeWhile (\<lambda>x. x \<noteq> c) s, tl (dropWhile (\<lambda>x. x \<noteq> c) s)) else None)"

definition split_prefix :: "string \<Rightarrow> char \<Rightarrow> string \<times> string" where
  "split_prefix s c = (case split_at_sep s c of None \<Rightarrow> ([], s) | Some pr \<Rightarrow> pr)"

definition split_suffix :: "string \<Rightarrow> char \<Rightarrow> string \<times> string" where
  "split_suffix s c = (case split_at_sep s c of None \<Rightarrow> (s, []) | Some pr \<Rightarrow> pr)"

text \<open>\<open>std::views::split\<close>: an empty input has no piece, a separator at the end opens an empty one.\<close>

fun split_sep_from :: "string \<Rightarrow> char \<Rightarrow> string \<Rightarrow> string list" where
  "split_sep_from acc c [] = [rev acc]"
| "split_sep_from acc c (x # xs) =
     (if x = c then rev acc # split_sep_from [] c xs else split_sep_from (x # acc) c xs)"

definition split_sep :: "string \<Rightarrow> char \<Rightarrow> string list" where
  "split_sep s c = (if s = [] then [] else split_sep_from [] c s)"

text \<open>\<open>std::toupper\<close> in the C locale.\<close>

definition upcase :: "char \<Rightarrow> char" where
  "upcase c =
     (let n = of_char c :: nat in if 97 \<le> n \<and> n \<le> 122 then char_of (n - 32) else c)"

definition to_upper :: "string \<Rightarrow> string" where
  "to_upper s = map upcase s"


section \<open>Numbers\<close>

definition is_digit :: "char \<Rightarrow> bool" where
  "is_digit c = (let n = of_char c :: nat in 48 \<le> n \<and> n \<le> 57)"

definition digit_value :: "char \<Rightarrow> nat" where
  "digit_value c = of_char c - 48"

definition digits_value :: "string \<Rightarrow> nat" where
  "digits_value s = foldl (\<lambda>v c. 10 * v + digit_value c) 0 s"

text \<open>
  \<open>std::from_chars\<close> into a \<open>uint32_t\<close>: the longest prefix of digits; no digit is
  \<open>invalid_argument\<close>, a value above \<open>UINT32_MAX\<close> is \<open>result_out_of_range\<close>, and what follows the
  digits is ignored.
\<close>

definition parse_uint32 :: "string \<Rightarrow> nat res" where
  "parse_uint32 s =
     (let ds = takeWhile is_digit s in
      if ds = [] \<or> 2 ^ 32 \<le> digits_value ds then Inl (Runtime_Error (''invalid integer '' @ s))
      else Inr (digits_value ds))"

definition split_suffix_uint32 :: "string \<Rightarrow> char \<Rightarrow> (string \<times> nat) res" where
  "split_suffix_uint32 s c =
     (let (v, suffix) = split_suffix s c in
      if suffix \<noteq> [] then rbind (parse_uint32 suffix) (\<lambda>i. Inr (v, i)) else Inr (v, 0))"

fun decimal :: "nat \<Rightarrow> string" where
  "decimal n =
     (if n < 10 then [char_of (48 + n)] else decimal (n div 10) @ [char_of (48 + n mod 10)])"

declare decimal.simps [simp del]


section \<open>Properties\<close>

lemma split_at_sep_app:
  assumes "c \<notin> set p"
  shows "split_at_sep (p @ c # r) c = Some (p, r)"
proof -
  have "takeWhile (\<lambda>x. x \<noteq> c) (p @ c # r) = p"
    using assms by (subst takeWhile_append2) auto
  moreover have "dropWhile (\<lambda>x. x \<noteq> c) (p @ c # r) = c # r"
    using assms by (subst dropWhile_append2) auto
  ultimately show ?thesis by (simp add: split_at_sep_def)
qed

lemma split_at_sep_None: "c \<notin> set s \<Longrightarrow> split_at_sep s c = None"
  by (simp add: split_at_sep_def)

lemma of_char_digit: "n < 10 \<Longrightarrow> (of_char (char_of (48 + n) :: char) :: nat) = 48 + n"
  by simp

lemma is_digit_char: "(n :: nat) < 10 \<Longrightarrow> is_digit (char_of (48 + n))"
  by (simp add: is_digit_def of_char_digit Let_def del: of_char_of)

lemma digit_value_char: "n < 10 \<Longrightarrow> digit_value (char_of (48 + n)) = n"
  by (simp add: digit_value_def of_char_digit del: of_char_of)

lemma digits_value_snoc: "digits_value (s @ [c]) = 10 * digits_value s + digit_value c"
  by (simp add: digits_value_def)

lemma digits_value_decimal: "digits_value (decimal n) = n"
proof (induction n rule: decimal.induct)
  case (1 n)
  show ?case
  proof (cases "n < 10")
    case True
    then show ?thesis by (simp add: decimal.simps [of n] digits_value_def digit_value_char)
  next
    case False
    then show ?thesis
      using 1 by (simp add: decimal.simps [of n] digits_value_snoc digit_value_char)
  qed
qed

lemma decimal_digits: "list_all is_digit (decimal n)"
proof (induction n rule: decimal.induct)
  case (1 n)
  then show ?case
    by (cases "n < 10") (simp_all add: decimal.simps [of n] is_digit_char)
qed

lemma decimal_nonempty [simp]: "decimal n \<noteq> []"
  by (subst decimal.simps) simp

lemma length_decimal: "n < 10 ^ Suc k \<Longrightarrow> length (decimal n) \<le> Suc k"
proof (induction k arbitrary: n)
  case 0
  then show ?case by (simp add: decimal.simps [of n])
next
  case (Suc k)
  show ?case
  proof (cases "n < 10")
    case True
    then show ?thesis by (simp add: decimal.simps [of n])
  next
    case False
    have "n div 10 < 10 ^ Suc k" using Suc.prems by (simp add: less_mult_imp_div_less mult.commute)
    with Suc.IH False show ?thesis by (simp add: decimal.simps [of n])
  qed
qed

lemma takeWhile_all: "list_all P xs \<Longrightarrow> takeWhile P xs = xs"
  by (simp add: list_all_iff takeWhile_eq_all_conv)

lemma decimal_inj: "decimal m = decimal n \<Longrightarrow> m = n"
  by (metis digits_value_decimal)

end
