(* ===== verification/Roq_Types.thy ===== *)
theory Roq_Types
  imports Doubles Hashes Strings "HOL-Library.Word"
begin

text \<open>
  The vocabulary of the exchange API (\<open>roq/*.hpp\<close>, not part of the repository) as far as the
  sources name it, and the identifiers of \<open>core/types.hpp\<close>.  Enumerations list the values the
  sources mention; the remaining values are one constructor each (\<open>..._other\<close>).  Messages carry the
  fields the sources read.  \<open>ext\<close> collects what the model takes as parameters because its code is
  not in the repository: the order of hash containers, \<open>roq::utils::compare\<close> on doubles, the
  \<open>cache::Gateway\<close> state machine of type \<open>'g\<close>, and \<open>client::Dispatcher::send\<close>, which sends a
  request to a gateway or throws (\<open>x_send\<close> gives the exception, if any).
\<close>

section \<open>Identifiers and enumerations\<close>

type_synonym ident = "32 word"
type_synonym order_ident = "64 word"
type_synonym level_ident = int
type_synonym time = int  \<comment> \<open>\<open>std::chrono::nanoseconds\<close>\<close>

datatype side = SIDE_UNDEFINED | BUY | SELL

datatype request_type = RT_UNDEFINED | CREATE_ORDER | MODIFY_ORDER | CANCEL_ORDER

datatype order_status =
  OS_UNDEFINED | WORKING | COMPLETED | CANCELED | OS_REJECTED | OS_other nat

datatype request_status = RS_UNDEFINED | FORWARDED | ACCEPTED | REJECTED | RS_other nat

datatype roq_error =
  E_UNDEFINED | TOO_LATE_TO_MODIFY_OR_CANCEL | REQUEST_RATE_LIMIT_REACHED | GATEWAY_NOT_READY
| E_other nat

datatype update_type = UT_UNDEFINED | STALE | UT_other nat

datatype support_type =
  ST_REFERENCE_DATA | ST_TOP_OF_BOOK | ST_MARKET_BY_PRICE | ST_MARKET_STATUS
| ST_CREATE_ORDER | ST_MODIFY_ORDER | ST_CANCEL_ORDER | ST_other nat

datatype execution_instruction = PARTICIPATE_DO_NOT_INITIATE | EI_other nat

datatype buffer_capacity = BC_UNDEFINED | HIGH_WATER_MARK | FULL | BC_other nat

datatype strong_ordering = Less | Equal | Greater


section \<open>Messages\<close>

record message_info =
  mi_source :: ident
  mi_source_name :: string

record parameter =
  par_label :: string
  par_account :: string
  par_exchange :: string
  par_symbol :: string
  par_strategy_id :: ident
  par_value :: string

record order_update =
  ou_account :: string
  ou_order_id :: order_ident
  ou_exchange :: string
  ou_symbol :: string
  ou_side :: side
  ou_order_status :: order_status
  ou_update_type :: update_type
  ou_price :: double
  ou_remaining_quantity :: double
  ou_traded_quantity :: double
  ou_last_traded_price :: double
  ou_max_accepted_version :: ident
  ou_max_response_version :: ident
  ou_external_order_id :: string
  ou_strategy_id :: ident

record order_ack =
  oa_order_id :: order_ident
  oa_request_type :: request_type
  oa_request_status :: request_status
  oa_version :: ident
  oa_error :: roq_error
  oa_text :: string

record position_update =
  pu_account :: string
  pu_exchange :: string
  pu_symbol :: string
  pu_long_quantity :: double
  pu_short_quantity :: double

record gateway_status =
  gs_account :: string
  gs_available :: "support_type set"


text \<open>
  The requests sent to a gateway.  \<open>order_type = LIMIT\<close> and \<open>time_in_force = GTC\<close> are constants of
  the code and not fields here.
\<close>

record create_request =
  cr_account :: string
  cr_order_id :: order_ident
  cr_exchange :: string
  cr_symbol :: string
  cr_side :: side
  cr_execution_instructions :: "execution_instruction set"
  cr_quantity :: double
  cr_price :: double
  cr_routing_id :: string
  cr_strategy_id :: ident

record modify_request =
  mr_account :: string
  mr_order_id :: order_ident
  mr_quantity :: double
  mr_price :: double
  mr_version :: ident
  mr_conditional_on_version :: ident

record cancel_request =
  ca_account :: string
  ca_order_id :: order_ident
  ca_version :: ident
  ca_conditional_on_version :: ident

datatype request =
  Create create_request | Modify modify_request | Cancel cancel_request

fun request_order_id :: "request \<Rightarrow> order_ident" where
  "request_order_id (Create c) = cr_order_id c"
| "request_order_id (Modify m) = mr_order_id m"
| "request_order_id (Cancel c) = ca_order_id c"

fun is_create :: "request \<Rightarrow> bool" where
  "is_create (Create _) = True"
| "is_create _ = False"


section \<open>Code that is not in the repository\<close>

record 'g ext =
  x_layout :: layout
  x_send :: "request \<times> ident \<Rightarrow> string option"
  x_compare :: "double \<Rightarrow> double \<Rightarrow> strong_ordering"
  x_gw_new :: 'g
  x_gw_ready :: "'g \<Rightarrow> support_type set \<Rightarrow> bool"
  x_gw_ready_account :: "'g \<Rightarrow> support_type set \<Rightarrow> string \<Rightarrow> bool"
  x_gw_downloading :: "'g \<Rightarrow> bool"
  x_gw_account_downloading :: "'g \<Rightarrow> string \<Rightarrow> bool option"

text \<open>
  What the order manager relies on of \<open>roq::utils::compare\<close>: "greater" is reported only for a
  left argument that is greater (there may be a tolerance in the other direction), and equal
  arguments compare equal.
\<close>

definition compare_ok :: "'g ext \<Rightarrow> bool" where
  "compare_ok X \<longleftrightarrow>
     (\<forall>x y. x_compare X x y = Greater \<longrightarrow> y < x) \<and>
     (\<forall>x. \<not> isnan x \<longrightarrow> x_compare X x x = Equal)"

lemma compare_greater: "compare_ok X \<Longrightarrow> x_compare X x y = Greater \<Longrightarrow> y < x"
  by (simp add: compare_ok_def)

lemma compare_refl: "compare_ok X \<Longrightarrow> \<not> isnan x \<Longrightarrow> x_compare X x x = Equal"
  by (simp add: compare_ok_def)

text \<open>Counters: the successor of a word that is not the largest one.\<close>

lemma word_succ_less: "(w :: 'a :: len word) \<noteq> - 1 \<Longrightarrow> w < w + 1"
proof -
  assume "w \<noteq> - 1"
  then have "1 + w \<noteq> 0" by (metis add.commute add_eq_0_iff2)
  then have "unat (1 + w) = Suc (unat w)" by (rule unatSuc)
  then show ?thesis by (simp add: word_less_nat_alt add.commute)
qed

end
