(* ===== verification/Gateways.thy ===== *)
theory Gateways
  imports Roq_Types
begin

text \<open>
  \<open>core/gateway.hpp\<close> and \<open>core/gateway/manager.{hpp,cpp}\<close>: the table of gateways by source
  identifier and by name.  What a \<open>cache::Gateway\<close> answers is a parameter (\<open>ext\<close>).
\<close>

section \<open>State and operations\<close>

record 'g gateway =
  gw_cache :: 'g
  gw_name :: string
  gw_id :: ident

record 'g gateways =
  gateway_by_id :: "(ident, 'g gateway) hash"
  gateway_id_by_name :: "(string, ident) hash"

definition gw_is_ready :: "'g ext \<Rightarrow> support_type set \<Rightarrow> ident \<Rightarrow> 'g gateways \<Rightarrow> bool" where
  "gw_is_ready X sm source gws =
     (case hfind (gateway_by_id gws) source of
        None \<Rightarrow> False
      | Some g \<Rightarrow> x_gw_ready X (gw_cache g) sm)"

definition gw_is_ready_account ::
  "'g ext \<Rightarrow> support_type set \<Rightarrow> ident \<Rightarrow> string \<Rightarrow> 'g gateways \<Rightarrow> bool" where
  "gw_is_ready_account X sm source account gws =
     (case hfind (gateway_by_id gws) source of
        None \<Rightarrow> False
      | Some g \<Rightarrow> x_gw_ready_account X (gw_cache g) sm account)"

definition gw_is_downloading_account :: "'g ext \<Rightarrow> ident \<Rightarrow> string \<Rightarrow> 'g gateways \<Rightarrow> bool" where
  "gw_is_downloading_account X source account gws =
     (case hfind (gateway_by_id gws) source of
        None \<Rightarrow> True
      | Some g \<Rightarrow>
          (case x_gw_account_downloading X (gw_cache g) account of
             Some d \<Rightarrow> d
           | None \<Rightarrow> True))"

definition gw_is_downloading :: "'g ext \<Rightarrow> ident \<Rightarrow> 'g gateways \<Rightarrow> bool" where
  "gw_is_downloading X source gws =
     (case hfind (gateway_by_id gws) source of
        None \<Rightarrow> False
      | Some g \<Rightarrow> x_gw_downloading X (gw_cache g))"

text \<open>\<open>get_gateway(id, fn)\<close>: the gateway the callback is run on, if any.\<close>

definition get_gateway :: "ident \<Rightarrow> 'g gateways \<Rightarrow> 'g gateway option" where
  "get_gateway i gws = (if i \<noteq> - 1 then hash_get_value (gateway_by_id gws) i else None)"

definition get_source :: "string \<Rightarrow> 'g gateways \<Rightarrow> ident" where
  "get_source name gws =
     (case hfind (gateway_id_by_name gws) name of None \<Rightarrow> - 1 | Some i \<Rightarrow> i)"

definition emplace_gateway ::
  "'g ext \<Rightarrow> message_info \<Rightarrow> 'g gateways \<Rightarrow> 'g gateway \<times> bool \<times> 'g gateways" where
  "emplace_gateway X info gws =
     (case hfind (gateway_by_id gws) (mi_source info) of
        Some g \<Rightarrow> (g, False, gws)
      | None \<Rightarrow>
          (let g = \<lparr>gw_cache = x_gw_new X, gw_name = mi_source_name info, gw_id = mi_source info\<rparr> in
           (g, True,
            gws\<lparr>gateway_by_id := hput (x_layout X) (mi_source info) g (gateway_by_id gws),
                gateway_id_by_name :=
                  hput (x_layout X) (gw_name g) (gw_id g) (gateway_id_by_name gws)\<rparr>)))"

text \<open>
  The event template: \<open>step\<close> is what \<open>cache::Gateway::operator()\<close> does with this event.  An
  empty source name marks a locally generated message, which is ignored.
\<close>

definition gateway_event ::
  "'g ext \<Rightarrow> ('g \<Rightarrow> 'g \<times> bool) \<Rightarrow> message_info \<Rightarrow> 'g gateways \<Rightarrow> bool \<times> 'g gateways" where
  "gateway_event X step info gws =
     (if mi_source_name info \<noteq> [] then
        (let (g, _, gws1) = emplace_gateway X info gws; (c, r) = step (gw_cache g) in
         (r, gws1\<lparr>gateway_by_id := hset (mi_source info) (g\<lparr>gw_cache := c\<rparr>) (gateway_by_id gws1)\<rparr>))
      else (False, gws))"

definition gateways_wf :: "'g gateways \<Rightarrow> bool" where
  "gateways_wf gws \<longleftrightarrow>
     hwf (gateway_by_id gws) \<and> hwf (gateway_id_by_name gws) \<and>
     list_all (\<lambda>(i, g). gw_id g = i) (gateway_by_id gws) \<and>
     list_all (\<lambda>(n, i). i \<in> set (hkeys (gateway_by_id gws))) (gateway_id_by_name gws)"

end
