(* ===== verification/Markets.thy ===== *)
theory Markets
  imports Roq_Types
begin

text \<open>
  \<open>core/market.hpp\<close>, \<open>core/market/info.hpp\<close> and \<open>core/market/manager.{hpp,cpp}\<close>: the table of
  markets by identifier (a \<open>std::map\<close>, kept in ascending order) and the index by exchange and
  symbol.
\<close>

section \<open>State and operations\<close>

datatype best_quotes_source = BQS_UNDEFINED | BQS_TOP_OF_BOOK | BQS_MARKET_BY_PRICE | BQS_VWAP

text \<open>\<open>core::Market\<close>, the key.\<close>

record market =
  m_market :: ident
  m_symbol :: string
  m_exchange :: string
  m_account :: string
  m_strategy_id :: ident

record info =
  info_market :: ident
  info_symbol :: string
  info_exchange :: string
  info_account :: string
  info_mdata_gateway_id :: ident
  info_mdata_gateway_name :: string
  info_pub_price_source :: best_quotes_source
  info_best_quotes_source :: best_quotes_source
  info_lot_size :: double
  info_tick_size :: double
  info_min_trade_vol :: double
  info_depth_num_levels :: ident

definition default_info :: info where
  "default_info =
     \<lparr>info_market = 0, info_symbol = [], info_exchange = [], info_account = [],
      info_mdata_gateway_id = - 1, info_mdata_gateway_name = [],
      info_pub_price_source = BQS_UNDEFINED, info_best_quotes_source = BQS_TOP_OF_BOOK,
      info_lot_size = Fin 1, info_tick_size = NaN, info_min_trade_vol = NaN, info_depth_num_levels = 0\<rparr>"

definition info_to_market :: "info \<Rightarrow> market" where
  "info_to_market i =
     \<lparr>m_market = info_market i, m_symbol = info_symbol i, m_exchange = info_exchange i,
      m_account = info_account i, m_strategy_id = 0\<rparr>"

record markets =
  last_market_id :: ident
  market_by_symbol_by_exchange :: "(string, (string, ident) hash) hash"
  market_by_id :: "(ident, info) hash"

definition get_market_ident :: "string \<Rightarrow> string \<Rightarrow> markets \<Rightarrow> ident" where
  "get_market_ident symbol exchange ms =
     (case hfind (market_by_symbol_by_exchange ms) exchange of
        None \<Rightarrow> 0
      | Some by_symbol \<Rightarrow> (case hfind by_symbol symbol of None \<Rightarrow> 0 | Some i \<Rightarrow> i))"

definition emplace_market :: "layout \<Rightarrow> market \<Rightarrow> markets \<Rightarrow> (info \<times> bool \<times> markets) res" where
  "emplace_market L key ms =
     (let market_id =
        (if m_market key = 0 then get_market_ident (m_symbol key) (m_exchange key) ms
         else m_market key) in
      if market_id = 0 then
        let i = last_market_id ms + 1;
            item = default_info\<lparr>info_symbol := m_symbol key, info_exchange := m_exchange key,
                                info_market := i\<rparr> in
        Inr (item, True,
             ms\<lparr>last_market_id := i,
                market_by_id := map_put i item (market_by_id ms),
                market_by_symbol_by_exchange :=
                  hput2 L (info_exchange item, info_symbol item) i (market_by_symbol_by_exchange ms)\<rparr>)
      else
        case hfind (market_by_id ms) market_id of
          None \<Rightarrow> Inl (Runtime_Error ''UNEXPECTED'')
        | Some item \<Rightarrow> ensure (info_market item = market_id) (Inr (item, False, ms)))"

definition emplace_market_event ::
  "layout \<Rightarrow> string \<Rightarrow> string \<Rightarrow> markets \<Rightarrow> (info \<times> bool \<times> markets) res" where
  "emplace_market_event L symbol exchange ms =
     emplace_market L
       \<lparr>m_market = 0, m_symbol = symbol, m_exchange = exchange, m_account = [], m_strategy_id = 0\<rparr> ms"

text \<open>\<open>get_market(id, fn)\<close> and \<open>get_market(market, fn)\<close>: the entry the callback is run on.\<close>

definition get_market :: "ident \<Rightarrow> markets \<Rightarrow> info option" where
  "get_market i ms = hfind (market_by_id ms) i"

definition get_market_by_key :: "market \<Rightarrow> markets \<Rightarrow> info option" where
  "get_market_by_key key ms =
     (if m_market key \<noteq> 0 then get_market (m_market key) ms
      else get_market (get_market_ident (m_symbol key) (m_exchange key) ms) ms)"

text \<open>\<open>GatewaySettings\<close>: a gateway announces itself, its markets learn its identifier.\<close>

definition on_gateway_settings :: "message_info \<Rightarrow> markets \<Rightarrow> markets" where
  "on_gateway_settings e ms =
     ms\<lparr>market_by_id :=
          map (\<lambda>(i, m). (i, if mi_source_name e = info_mdata_gateway_name m
                            then m\<lparr>info_mdata_gateway_id := mi_source e\<rparr> else m)) (market_by_id ms)\<rparr>"

definition on_reference_data ::
  "layout \<Rightarrow> string \<Rightarrow> string \<Rightarrow> double \<Rightarrow> markets \<Rightarrow> markets res" where
  "on_reference_data L symbol exchange tick ms =
     rbind (emplace_market_event L symbol exchange ms) (\<lambda>(item, _, ms1).
       Inr (ms1\<lparr>market_by_id := hset (info_market item) (item\<lparr>info_tick_size := tick\<rparr>) (market_by_id ms1)\<rparr>))"

definition markets_clear :: "markets \<Rightarrow> markets" where
  "markets_clear ms = ms\<lparr>market_by_symbol_by_exchange := [], market_by_id := []\<rparr>"

text \<open>
  Well-formedness: identifiers are between 1 and \<open>last_market_id\<close>, and the index and the table
  agree, so that symbol and exchange identify a market.
\<close>

definition markets_wf :: "markets \<Rightarrow> bool" where
  "markets_wf ms \<longleftrightarrow>
     hwf2 (market_by_symbol_by_exchange ms) \<and> hwf (market_by_id ms) \<and>
     list_all (\<lambda>(i, m). info_market m = i \<and> 0 < i \<and> i \<le> last_market_id ms \<and>
                hfind2 (market_by_symbol_by_exchange ms) (info_exchange m, info_symbol m) = Some i)
       (market_by_id ms) \<and>
     list_all (\<lambda>((e, s), i). case hfind (market_by_id ms) i of
                None \<Rightarrow> False | Some m \<Rightarrow> info_exchange m = e \<and> info_symbol m = s)
       (hentries2 (market_by_symbol_by_exchange ms))"

text \<open>
  The abstract specification of the table: a partial map from exchange and symbol to identifiers,
  to which a new market adds the next identifier.
\<close>

definition markets_abs :: "markets \<Rightarrow> string \<times> string \<Rightarrow> ident option" where
  "markets_abs ms = hfind2 (market_by_symbol_by_exchange ms)"

definition intern :: "string \<times> string \<Rightarrow> ident \<Rightarrow> (string \<times> string \<Rightarrow> ident option) \<Rightarrow> string \<times> string \<Rightarrow> ident option" where
  "intern k next f = (if f k = None then f(k \<mapsto> next) else f)"


section \<open>The index and the table\<close>

lemma markets_wf_iff:
  "markets_wf ms \<longleftrightarrow>
     hwf2 (market_by_symbol_by_exchange ms) \<and> hwf (market_by_id ms) \<and>
     (\<forall>i m. hfind (market_by_id ms) i = Some m \<longrightarrow>
        info_market m = i \<and> 0 < i \<and> i \<le> last_market_id ms \<and>
        hfind2 (market_by_symbol_by_exchange ms) (info_exchange m, info_symbol m) = Some i) \<and>
     (\<forall>k i. hfind2 (market_by_symbol_by_exchange ms) k = Some i \<longrightarrow>
        (\<exists>m. hfind (market_by_id ms) i = Some m \<and> (info_exchange m, info_symbol m) = k))"
  unfolding markets_wf_def
  by (simp add: markets_wf_def hd.list_all_entries hd2.pair.list_all_entries case_option_ex
      cong: conj_cong)

lemma markets_index_entry:
  "markets_wf ms \<Longrightarrow> hfind2 (market_by_symbol_by_exchange ms) k = Some i \<Longrightarrow>
     \<exists>m. hfind (market_by_id ms) i = Some m \<and> (info_exchange m, info_symbol m) = k"
  by (cases k) (simp add: markets_wf_iff)

lemma get_market_ident_eq:
  "get_market_ident s e ms =
     (case hfind2 (market_by_symbol_by_exchange ms) (e, s) of None \<Rightarrow> 0 | Some i \<Rightarrow> i)"
  by (simp add: get_market_ident_def hfind2_def split: option.splits)

lemma get_market_ident_nonzero:
  assumes "markets_wf ms" "get_market_ident s e ms \<noteq> 0"
  shows "\<exists>m. get_market (get_market_ident s e ms) ms = Some m \<and> info_exchange m = e \<and> info_symbol m = s"
  using assms by (fastforce simp: markets_wf_iff get_market_ident_eq get_market_def split: option.splits)

lemma get_market_ident_inj:
  assumes "markets_wf ms" "get_market_ident s e ms \<noteq> 0"
    "get_market_ident s' e' ms = get_market_ident s e ms"
  shows "s' = s \<and> e' = e"
  using get_market_ident_nonzero [OF assms(1), of s e] get_market_ident_nonzero [OF assms(1), of s' e'] assms
  by auto

text \<open>A key that names no identifier is found or becomes the next identifier.\<close>

lemma emplace_market_known:
  assumes "markets_wf ms" "m_market key = 0" "get_market_ident (m_symbol key) (m_exchange key) ms = i" "i \<noteq> 0"
  shows "\<exists>m. emplace_market L key ms = Inr (m, False, ms) \<and> get_market i ms = Some m \<and> info_market m = i"
proof -
  obtain m where m: "get_market i ms = Some m"
    using get_market_ident_nonzero [OF assms(1)] assms(3,4) by blast
  with assms(1) have "info_market m = i" by (simp add: markets_wf_iff get_market_def)
  with m assms show ?thesis by (simp add: emplace_market_def Let_def get_market_def)
qed

lemma emplace_market_new:
  assumes "m_market key = 0" "get_market_ident (m_symbol key) (m_exchange key) ms = 0"
  defines "i \<equiv> last_market_id ms + 1"
  defines "m \<equiv> default_info\<lparr>info_symbol := m_symbol key, info_exchange := m_exchange key, info_market := i\<rparr>"
  shows "emplace_market L key ms =
     Inr (m, True, ms\<lparr>last_market_id := i, market_by_id := map_put i m (market_by_id ms),
       market_by_symbol_by_exchange := hput2 L (m_exchange key, m_symbol key) i (market_by_symbol_by_exchange ms)\<rparr>)"
  using assms by (simp add: emplace_market_def Let_def)

lemma emplace_market_wf:
  assumes wf: "markets_wf ms" and key: "m_market key = 0" and room: "last_market_id ms \<noteq> - 1"
    and run: "emplace_market L key ms = Inr (m, new, ms')"
  shows "markets_wf ms'"
proof (cases "get_market_ident (m_symbol key) (m_exchange key) ms = 0")
  case False
  with emplace_market_known [OF wf key refl False, of L] run have "ms' = ms" by auto
  with wf show ?thesis by simp
next
  case True
  let ?i = "last_market_id ms + 1" and ?k = "(m_exchange key, m_symbol key)"
  have lt: "last_market_id ms < ?i" by (rule word_succ_less) (rule room)
  then have pos: "0 < ?i" by (rule le_less_trans [rotated]) simp
  have fresh: "hfind (market_by_id ms) ?i = None"
    using wf lt by (metis linorder_not_le markets_wf_iff option.exhaust)
  have nk: "hfind2 (market_by_symbol_by_exchange ms) ?k = None"
    using True wf by (auto simp: get_market_ident_eq markets_wf_iff split: option.splits) force
  have old: "i \<le> ?i" "i \<noteq> ?i" "(info_exchange n, info_symbol n) \<noteq> ?k"
    if h: "hfind (market_by_id ms) i = Some n" for i n
  proof -
    have "i \<le> last_market_id ms" and x: "hfind2 (market_by_symbol_by_exchange ms) (info_exchange n, info_symbol n) = Some i"
      using wf h by (simp_all add: markets_wf_iff)
    then show "i \<le> ?i" using lt by simp
    show "i \<noteq> ?i" using h fresh by auto
    show "(info_exchange n, info_symbol n) \<noteq> ?k" using x nk by (metis option.distinct(1))
  qed
  have idx: "j \<noteq> ?i" if "hfind2 (market_by_symbol_by_exchange ms) k = Some j" for k j
    using markets_index_entry [OF wf that] fresh by auto
  define item where "item = default_info\<lparr>info_symbol := m_symbol key, info_exchange := m_exchange key, info_market := ?i\<rparr>"
  have item: "info_symbol item = m_symbol key" "info_exchange item = m_exchange key" "info_market item = ?i"
    by (simp_all add: item_def)
  have ms': "ms' = ms\<lparr>last_market_id := ?i, market_by_id := map_put ?i item (market_by_id ms),
       market_by_symbol_by_exchange := hput2 L ?k ?i (market_by_symbol_by_exchange ms)\<rparr>"
    using run unfolding emplace_market_new [OF key True] item_def by auto
  have w: "hwf2 (market_by_symbol_by_exchange ms)" "hwf (market_by_id ms)"
    using wf by (simp_all add: markets_wf_iff)
  show ?thesis
    unfolding ms' markets_wf_iff
    using wf [unfolded markets_wf_iff] pos old idx
    by (simp add: w hd2.pair.dict_simps md.dict_simps item) (blast | simp)+
qed


lemma emplace_market_refines:
  assumes wf: "markets_wf ms" and key: "m_market key = 0"
  obtains m new ms' where "emplace_market L key ms = Inr (m, new, ms')"
    "markets_abs ms' = intern (m_exchange key, m_symbol key) (last_market_id ms + 1) (markets_abs ms)"
    "markets_abs ms' (m_exchange key, m_symbol key) = Some (info_market m)"
    "get_market (info_market m) ms' = Some m"
proof (cases "get_market_ident (m_symbol key) (m_exchange key) ms = 0")
  case False
  from emplace_market_known [OF wf key refl False, of L] obtain m where
    "emplace_market L key ms = Inr (m, False, ms)"
    "get_market (get_market_ident (m_symbol key) (m_exchange key) ms) ms = Some m"
    "info_market m = get_market_ident (m_symbol key) (m_exchange key) ms" by blast
  then show thesis
    using that [of m False ms] False
    by (auto simp: markets_abs_def intern_def get_market_ident_eq split: option.splits)
next
  case True
  have nk: "hfind2 (market_by_symbol_by_exchange ms) (m_exchange key, m_symbol key) = None"
    using True wf by (auto simp: get_market_ident_eq markets_wf_iff split: option.splits) force
  have w: "hwf2 (market_by_symbol_by_exchange ms)" "hwf (market_by_id ms)"
    using wf by (simp_all add: markets_wf_iff)
  show thesis
    by (rule that [OF emplace_market_new [OF key True]])
      (simp_all add: markets_abs_def intern_def nk w hd2.pair.dict_simps md.dict_simps get_market_def)
qed

end
