(* ===== verification/Portfolios.thy ===== *)
theory Portfolios
  imports Gateways Markets
begin

text \<open>
  \<open>core/portfolio.{hpp,cpp}\<close>, \<open>core/portfolio/manager.{hpp,cpp}\<close>, \<open>core/exposure.hpp\<close>,
  \<open>core/exposure_update.hpp\<close> and \<open>core/position_source.hpp\<close>: positions by account and market,
  grouped into portfolios; portfolios are found by identifier, by name or by account.  The
  notification of the portfolio handler is returned as a value (\<open>exposure_update option\<close>): the
  caller runs the handler on it.
\<close>

section \<open>State\<close>

datatype position_source = PS_UNDEFINED | PS_ORDERS | PS_TRADES | PS_PORTFOLIO

record exposure_value =
  ev_position_buy :: double
  ev_position_sell :: double
  ev_avg_price_buy :: double
  ev_avg_price_sell :: double

definition no_exposure_value :: exposure_value where
  "no_exposure_value =
     \<lparr>ev_position_buy = Fin 0, ev_position_sell = Fin 0, ev_avg_price_buy = NaN,
      ev_avg_price_sell = NaN\<rparr>"

record exposure =
  e_value :: exposure_value
  e_market :: ident
  e_symbol :: string
  e_exchange :: string
  e_account :: string

record exposure_update =
  eu_exposure :: "exposure list"
  eu_portfolio :: ident
  eu_portfolio_name :: string

text \<open>\<open>core::Trade\<close>, a fill reported by the order manager.\<close>

record trade =
  t_side :: side
  t_price :: double
  t_quantity :: double
  t_market :: ident
  t_symbol :: string
  t_exchange :: string
  t_portfolio :: ident
  t_account :: string

record portfolio =
  p_portfolio :: ident
  p_portfolio_name :: string
  p_positions :: "(string, (ident, exposure_value) hash) hash"

definition default_portfolio :: portfolio where
  "default_portfolio = \<lparr>p_portfolio = 0, p_portfolio_name = [], p_positions = []\<rparr>"

record portfolios =
  pm_position_source :: position_source
  last_portfolio_id :: ident
  portfolios_by_id :: "(ident, portfolio) hash"
  portfolio_by_name :: "(string, ident) hash"
  portfolio_by_account :: "(string, (string, ident) hash) hash"


section \<open>A portfolio\<close>

definition emplace_position ::
  "layout \<Rightarrow> string \<times> ident \<Rightarrow> portfolio \<Rightarrow> exposure_value \<times> bool \<times> portfolio" where
  "emplace_position L key p =
     (case hfind2 (p_positions p) key of
        Some v \<Rightarrow> (v, False, p)
      | None \<Rightarrow>
          (no_exposure_value, True, p\<lparr>p_positions := hput2 L key no_exposure_value (p_positions p)\<rparr>))"

definition portfolio_trade ::
  "layout \<Rightarrow> trade \<Rightarrow> portfolio \<Rightarrow> (exposure_value \<times> bool \<times> portfolio) res" where
  "portfolio_trade L t p =
     ensure (t_market t \<noteq> 0)
       (let key = (t_account t, t_market t); (v, is_new, p1) = emplace_position L key p;
            store = (\<lambda>v'. (v', is_new, p1\<lparr>p_positions := hput2 L key v' (p_positions p1)\<rparr>)) in
        case t_side t of
          BUY \<Rightarrow> Inr (store (v\<lparr>ev_position_buy := ev_position_buy v + t_quantity t\<rparr>))
        | SELL \<Rightarrow> Inr (store (v\<lparr>ev_position_sell := ev_position_sell v + t_quantity t\<rparr>))
        | SIDE_UNDEFINED \<Rightarrow> Inl Assert_Failed)"

definition set_position ::
  "layout \<Rightarrow> string \<times> ident \<Rightarrow> exposure_value \<Rightarrow> portfolio \<Rightarrow> portfolio" where
  "set_position L key v p = p\<lparr>p_positions := hput2 L key v (p_positions p)\<rparr>"

definition get_position :: "string \<times> ident \<Rightarrow> portfolio \<Rightarrow> exposure_update option" where
  "get_position key p =
     (case hfind2 (p_positions p) key of
        None \<Rightarrow> None
      | Some v \<Rightarrow>
          Some \<lparr>eu_exposure =
                  [\<lparr>e_value = v, e_market = snd key, e_symbol = [], e_exchange = [], e_account = fst key\<rparr>],
                eu_portfolio = p_portfolio p, eu_portfolio_name = p_portfolio_name p\<rparr>)"

definition get_positions :: "portfolio \<Rightarrow> exposure list" where
  "get_positions p =
     map (\<lambda>((account, market), v).
       \<lparr>e_value = v, e_market = market, e_symbol = [], e_exchange = [], e_account = account\<rparr>)
       (hentries2 (p_positions p))"


section \<open>The manager\<close>

text \<open>
  A name whose portfolio was cleared gets a new \<open>Portfolio\<close> whose member \<open>portfolio\<close> is not
  initialised and is read by every caller.
\<close>

definition emplace_portfolio ::
  "layout \<Rightarrow> ident \<Rightarrow> string \<Rightarrow> portfolios \<Rightarrow> (portfolio \<times> bool \<times> portfolios) res" where
  "emplace_portfolio L pid name pm =
     (let insert =
        (let i = (if pid = 0 then last_portfolio_id pm + 1 else pid);
             last = (if pid = 0 then i else max (last_portfolio_id pm) pid);
             old = hfind (portfolios_by_id pm) i;
             p = (case old of None \<Rightarrow> default_portfolio | Some p \<Rightarrow> p)
                   \<lparr>p_portfolio := i, p_portfolio_name := name\<rparr> in
         (p, old = None,
          pm\<lparr>last_portfolio_id := last,
              portfolios_by_id := hput L i p (portfolios_by_id pm),
              portfolio_by_name := hput L name i (portfolio_by_name pm)\<rparr>)) in
      case (if pid \<noteq> 0 then hfind (portfolios_by_id pm) pid else None) of
        Some p \<Rightarrow> Inr (p, False, pm)
      | None \<Rightarrow>
          (case hfind (portfolio_by_name pm) name of
             Some i \<Rightarrow>
               ensure (i \<noteq> 0)
                 (case hfind (portfolios_by_id pm) i of
                    Some p \<Rightarrow> Inr (p, False, pm)
                  | None \<Rightarrow> Inl Undefined_Behaviour)
           | None \<Rightarrow> Inr insert))"

definition get_portfolio_ident :: "string \<Rightarrow> portfolios \<Rightarrow> ident" where
  "get_portfolio_ident name pm =
     (case hfind (portfolio_by_name pm) name of None \<Rightarrow> 0 | Some i \<Rightarrow> i)"

text \<open>
  \<open>get_portfolio_by_account\<close>: the lookup of the exchange inserts it (\<open>operator[]\<close>); the result is
  the portfolio the callback is run on.
\<close>

definition get_portfolio_by_account ::
  "layout \<Rightarrow> string \<Rightarrow> string \<Rightarrow> portfolios \<Rightarrow> portfolio option \<times> portfolios" where
  "get_portfolio_by_account L account exchange pm =
     (let by_account = hget_or (portfolio_by_account pm) exchange [];
          pm1 = pm\<lparr>portfolio_by_account := hput L exchange by_account (portfolio_by_account pm)\<rparr> in
      (case hfind by_account account of
         None \<Rightarrow> None
       | Some i \<Rightarrow> hfind (portfolios_by_id pm1) i,
       pm1))"

definition put_portfolio :: "ident \<Rightarrow> portfolio \<Rightarrow> portfolios \<Rightarrow> portfolios" where
  "put_portfolio i p pm = pm\<lparr>portfolios_by_id := hset i p (portfolios_by_id pm)\<rparr>"

text \<open>The key under which \<open>get_portfolio_by_account\<close> found it.\<close>

definition account_portfolio_ident :: "string \<Rightarrow> string \<Rightarrow> portfolios \<Rightarrow> ident" where
  "account_portfolio_ident account exchange pm =
     (case hfind2 (portfolio_by_account pm) (exchange, account) of None \<Rightarrow> 0 | Some i \<Rightarrow> i)"

definition portfolios_on_trade ::
  "layout \<Rightarrow> trade \<Rightarrow> portfolios \<Rightarrow> (exposure_update option \<times> portfolios) res" where
  "portfolios_on_trade L u pm =
     (if pm_position_source pm \<noteq> PS_ORDERS then Inr (None, pm)
      else
        case get_portfolio_by_account L (t_account u) (t_exchange u) pm of
          (None, pm1) \<Rightarrow> Inr (None, pm1)
        | (Some p, pm1) \<Rightarrow>
            rbind (portfolio_trade L u p) (\<lambda>(v, is_new, p1).
              Inr (Some \<lparr>eu_exposure =
                           [\<lparr>e_value = v\<lparr>ev_avg_price_buy := NaN, ev_avg_price_sell := NaN\<rparr>,
                             e_market = t_market u, e_symbol = t_symbol u,
                             e_exchange = t_exchange u, e_account = []\<rparr>],
                         eu_portfolio = p_portfolio p1, eu_portfolio_name = p_portfolio_name p1\<rparr>,
                   put_portfolio (account_portfolio_ident (t_account u) (t_exchange u) pm1) p1 pm1)))"

definition portfolios_on_position_update ::
  "'g ext \<Rightarrow> 'g gateways \<Rightarrow> message_info \<Rightarrow> position_update \<Rightarrow> markets \<Rightarrow> portfolios \<Rightarrow>
     (exposure_update option \<times> markets \<times> portfolios) res" where
  "portfolios_on_position_update X gws e u ms pm =
     rbind (emplace_market_event (x_layout X) (pu_symbol u) (pu_exchange u) ms) (\<lambda>(market, _, ms1).
       let is_downloading = gw_is_downloading_account X (mi_source e) (pu_account u) gws in
       if pm_position_source pm = PS_ORDERS \<and> \<not> is_downloading then Inr (None, ms1, pm)
       else
         let v = \<lparr>ev_position_buy = pu_long_quantity u, ev_position_sell = pu_short_quantity u,
                  ev_avg_price_buy = NaN, ev_avg_price_sell = NaN\<rparr>;
             ex = \<lparr>e_value = v, e_market = info_market market, e_symbol = info_symbol market,
                   e_exchange = info_exchange market, e_account = pu_account u\<rparr> in
         case get_portfolio_by_account (x_layout X) (pu_account u) (pu_exchange u) pm of
           (None, pm1) \<Rightarrow>
             Inr (Some \<lparr>eu_exposure = [ex], eu_portfolio = 0, eu_portfolio_name = []\<rparr>, ms1, pm1)
         | (Some p, pm1) \<Rightarrow>
             Inr (Some \<lparr>eu_exposure = [ex], eu_portfolio = p_portfolio p,
                        eu_portfolio_name = p_portfolio_name p\<rparr>,
                  ms1,
                  put_portfolio (account_portfolio_ident (pu_account u) (pu_exchange u) pm1)
                    (set_position (x_layout X) (pu_account u, info_market market) v p) pm1))"

definition portfolios_on_parameters ::
  "layout \<Rightarrow> parameter list \<Rightarrow> portfolios \<Rightarrow> portfolios res" where
  "portfolios_on_parameters L ps pm =
     rfold (\<lambda>p pm.
       let (prefix, label) = split_prefix (par_label p) (CHR '':'') in
       if prefix \<noteq> ''core'' then Inr pm
       else if label = ''portfolio_name'' then
         ensure (par_strategy_id p \<noteq> 0)
           (rbind (emplace_portfolio L (par_strategy_id p) (par_value p) pm) (\<lambda>(_, _, pm1). Inr pm1))
       else Inr pm) ps pm"

definition portfolios_clear :: "portfolios \<Rightarrow> portfolios" where
  "portfolios_clear pm = pm\<lparr>portfolios_by_id := []\<rparr>"

end
