(* ===== verification/Quotes.thy ===== *)
theory Quotes
  imports Roq_Types
begin

text \<open>
  Quotes: \<open>core/quote.hpp\<close>, \<open>core/quotes.hpp\<close>, \<open>core/best_quotes.{hpp,cpp}\<close>, the cache of best
  quotes \<open>core/best_quotes/manager\<close>, and the price arithmetic of \<open>core/price.{hpp,cpp}\<close>.
\<close>

section \<open>Quotes\<close>

record quote =
  q_price :: double
  q_volume :: double

record exec_quote =
  eq_price :: double
  eq_volume :: double
  eq_volume_min :: double
  eq_exec_inst :: "execution_instruction set"

definition no_exec_quote :: exec_quote where
  "no_exec_quote = \<lparr>eq_price = NaN, eq_volume = NaN, eq_volume_min = NaN, eq_exec_inst = {}\<rparr>"

definition quote_empty :: "quote \<Rightarrow> bool" where
  "quote_empty q = isnan (q_price q)"

definition quote_eq :: "quote \<Rightarrow> quote \<Rightarrow> bool" where
  "quote_eq p q \<longleftrightarrow> deq (q_price p) (q_price q) \<and> deq (q_volume p) (q_volume q)"

text \<open>The specialisation of \<open>is_empty_value\<close> for \<open>core::Quote\<close>.\<close>

definition quote_is_empty_value :: "quote \<Rightarrow> bool" where
  "quote_is_empty_value q =
     (isnan (q_price q) \<or> isnan (q_volume q) \<or> deq (q_volume q) (Fin 0))"

text \<open>For \<open>core::ExecQuote\<close> there is only the generic template, \<open>val.empty()\<close>.\<close>

definition exec_quote_empty :: "exec_quote \<Rightarrow> bool" where
  "exec_quote_empty q = isnan (eq_price q)"

definition exec_quote_to_quote :: "exec_quote \<Rightarrow> quote" where
  "exec_quote_to_quote q = \<lparr>q_price = eq_price q, q_volume = eq_volume q\<rparr>"

record quotes =
  qs_market :: ident
  qs_symbol :: string
  qs_exchange :: string
  qs_account :: string
  qs_portfolio :: ident
  qs_strategy :: ident
  qs_buy :: "exec_quote list"
  qs_sell :: "exec_quote list"

record best_quotes =
  bq_buy :: exec_quote
  bq_sell :: exec_quote

definition no_best_quotes :: best_quotes where
  "no_best_quotes = \<lparr>bq_buy = no_exec_quote, bq_sell = no_exec_quote\<rparr>"

definition get_best_buy :: "quotes \<Rightarrow> exec_quote" where
  "get_best_buy q = (case qs_buy q of [] \<Rightarrow> no_exec_quote | x # _ \<Rightarrow> x)"

definition get_best_sell :: "quotes \<Rightarrow> exec_quote" where
  "get_best_sell q = (case qs_sell q of [] \<Rightarrow> no_exec_quote | x # _ \<Rightarrow> x)"

definition to_best_quotes :: "quotes \<Rightarrow> best_quotes" where
  "to_best_quotes q = \<lparr>bq_buy = get_best_buy q, bq_sell = get_best_sell q\<rparr>"

definition to_quotes :: "best_quotes \<Rightarrow> ident \<Rightarrow> quotes" where
  "to_quotes b m =
     \<lparr>qs_market = m, qs_symbol = [], qs_exchange = [], qs_account = [], qs_portfolio = 0,
      qs_strategy = 0, qs_buy = [bq_buy b], qs_sell = [bq_sell b]\<rparr>"

definition best_quotes_update :: "quotes \<Rightarrow> best_quotes \<Rightarrow> bool \<times> best_quotes" where
  "best_quotes_update rhs b =
     (True,
      b\<lparr>bq_buy := (case qs_buy rhs of [] \<Rightarrow> no_exec_quote | x # _ \<Rightarrow> x),
        bq_sell := (case qs_sell rhs of [] \<Rightarrow> no_exec_quote | x # _ \<Rightarrow> x)\<rparr>)"

definition best_quotes_get_quote :: "side \<Rightarrow> best_quotes \<Rightarrow> exec_quote res" where
  "best_quotes_get_quote s b =
     (case s of BUY \<Rightarrow> Inr (bq_buy b) | SELL \<Rightarrow> Inr (bq_sell b)
      | _ \<Rightarrow> Inl (Runtime_Error ''Invalid side''))"

definition exposure_by_quotes :: "best_quotes \<Rightarrow> double" where
  "exposure_by_quotes b = eq_volume (bq_buy b) - eq_volume (bq_sell b)"

text \<open>\<open>utils::invert\<close> is not in the repository: the parameter \<open>flip\<close>.\<close>

definition multiply :: "(side \<Rightarrow> side) \<Rightarrow> side \<Rightarrow> side \<Rightarrow> side" where
  "multiply flip lhs rhs =
     (case lhs of BUY \<Rightarrow> rhs | SELL \<Rightarrow> flip rhs | SIDE_UNDEFINED \<Rightarrow> SIDE_UNDEFINED)"

definition pow_side :: "double \<Rightarrow> side \<Rightarrow> double" where
  "pow_side x s = (case s of BUY \<Rightarrow> x | SELL \<Rightarrow> Fin 1 / x | SIDE_UNDEFINED \<Rightarrow> NaN)"

definition direction :: "side \<Rightarrow> int res" where
  "direction s =
     (case s of BUY \<Rightarrow> Inr 1 | SELL \<Rightarrow> Inr (- 1) | _ \<Rightarrow> Inl (Runtime_Error ''invalid side''))"


section \<open>The cache of best quotes\<close>

type_synonym best_quotes_cache = "(ident, best_quotes) hash"

definition bq_get_quotes :: "ident \<Rightarrow> best_quotes_cache \<Rightarrow> best_quotes option" where
  "bq_get_quotes m c = hfind c m"

definition bq_emplace_quotes ::
  "layout \<Rightarrow> ident \<Rightarrow> best_quotes_cache \<Rightarrow> best_quotes \<times> bool \<times> best_quotes_cache" where
  "bq_emplace_quotes L m c =
     (case hfind c m of
        Some b \<Rightarrow> (b, False, c)
      | None \<Rightarrow> (no_best_quotes, True, hput L m no_best_quotes c))"

definition bq_set_quotes ::
  "layout \<Rightarrow> ident \<Rightarrow> best_quotes \<Rightarrow> best_quotes_cache \<Rightarrow> best_quotes_cache" where
  "bq_set_quotes L m b c = hput L m b c"


section \<open>Prices\<close>

datatype shift_units = SU_UNDEFINED | SU_PRICE | SU_BP | SU_TICKS | SU_VOLATILITY

record shift =
  sh_value :: double
  sh_units :: shift_units

text \<open>\<open>static constexpr auto BP = 1E-4\<close> and the literal \<open>0.5\<close>.\<close>

definition BP :: double where
  "BP = fl False (1 / 10000)"

definition half :: double where
  "half = Fin (1 / 2)"

definition mid_price :: "quote \<Rightarrow> quote \<Rightarrow> double" where
  "mid_price buy sell =
     (if isnan (q_price buy) \<or> isnan (q_price sell) then NaN
      else half * (q_price buy + q_price sell))"

definition shift_price :: "double \<Rightarrow> shift \<Rightarrow> double res" where
  "shift_price price s =
     (case sh_units s of
        SU_BP \<Rightarrow>
          Inr (if dlt (sh_value s) (Fin 0) then price / (Fin 1 + sh_value s * BP)
               else price * (Fin 1 + sh_value s * BP))
      | SU_PRICE \<Rightarrow> Inr (price + half * sh_value s)
      | _ \<Rightarrow> Inl (Runtime_Error ''UNEXPECTED''))"

definition buy_and_sell_price_from_mid_price_and_spread ::
  "double \<Rightarrow> shift \<Rightarrow> (double \<times> double) res" where
  "buy_and_sell_price_from_mid_price_and_spread m s =
     (case sh_units s of
        SU_BP \<Rightarrow>
          Inr (m / (Fin 1 + half * sh_value s * BP), m * (Fin 1 + half * sh_value s * BP))
      | SU_PRICE \<Rightarrow> Inr (m - half * sh_value s, m + half * sh_value s)
      | _ \<Rightarrow> Inl (Runtime_Error ''UNEXPECTED''))"

end
