(* ===== verification/Core_Manager.thy ===== *)
theory Core_Manager
  imports Portfolios Quotes
begin

text \<open>
  \<open>core/manager.{hpp,cpp}\<close>: the shared state of a strategy, and whether a market's data can be
  used.  The record is extensible: \<open>'z\<close> is whatever the application keeps beside it (the pricer),
  so that an operation on the core can call back into the application.  \<open>cache::Manager\<close> is not
  part of the repository.
\<close>

record 'g core =
  c_gateways :: "'g gateways"
  c_markets :: markets
  c_portfolios :: portfolios
  c_best_quotes :: best_quotes_cache

definition expected_md_support :: "support_type set" where
  "expected_md_support = {ST_REFERENCE_DATA, ST_TOP_OF_BOOK, ST_MARKET_BY_PRICE, ST_MARKET_STATUS}"

text \<open>The value of \<open>ready\<close>, through the three nested callbacks.\<close>

definition core_is_ready :: "'g ext \<Rightarrow> ident \<Rightarrow> ('g, 'z) core_scheme \<Rightarrow> bool" where
  "core_is_ready X m c =
     (case get_market m (c_markets c) of
        None \<Rightarrow> False
      | Some info \<Rightarrow>
          (case get_gateway (info_mdata_gateway_id info) (c_gateways c) of
             None \<Rightarrow> False
           | Some g \<Rightarrow>
               gw_is_ready X expected_md_support (gw_id g) (c_gateways c) \<and>
               \<not> gw_is_downloading X (gw_id g) (c_gateways c)))"

definition get_exchange :: "ident \<Rightarrow> ('g, 'z) core_scheme \<Rightarrow> string" where
  "get_exchange m c = (case get_market m (c_markets c) of None \<Rightarrow> [] | Some i \<Rightarrow> info_exchange i)"

definition get_symbol :: "ident \<Rightarrow> ('g, 'z) core_scheme \<Rightarrow> string" where
  "get_symbol m c = (case get_market m (c_markets c) of None \<Rightarrow> [] | Some i \<Rightarrow> info_symbol i)"

end
