(* ===== verification/Handler.thy ===== *)
theory Handler
  imports Core_Manager
begin

text \<open>
  \<open>core/handler.hpp\<close>: the interface of a pricer, one message per virtual \<open>operator()\<close>.  A pricer
  that does not override an operator inherits its empty body.
\<close>

datatype handler_event =
    H_Market_Status
  | H_Timer time
  | H_Quotes quotes
  | H_Exposure_Update exposure_update
  | H_Parameters_Update "parameter list"
  | H_Reference_Data string string
  | H_Download_Begin string
  | H_Download_End string

text \<open>
  A pricer with its state \<open>'p\<close>, run on the core and on what lies behind its dispatcher (\<open>'o\<close>).
\<close>

type_synonym ('p, 'w) pricer = "handler_event \<Rightarrow> 'p \<times> 'w \<Rightarrow> ('p \<times> 'w) res"

end
