(* ===== verification/Config_Parameters.thy ===== *)
theory Config_Parameters
  imports Roq_Types
begin

text \<open>
  The parameters kept by \<open>core/config/manager.{hpp,cpp}\<close>: those of the configuration file, replayed
  to the strategy once at start-up, and those received afterwards, of which the last value per key
  is kept.
\<close>

section \<open>State and operations\<close>

text \<open>\<open>Query\<close>: an empty field, and the strategy 0, match everything.\<close>

record query =
  qy_label :: string
  qy_symbol :: string
  qy_exchange :: string
  qy_account :: string
  qy_strategy_id :: ident

definition query_matches :: "query \<Rightarrow> parameter \<Rightarrow> bool" where
  "query_matches q item =
     (if qy_label q \<noteq> [] \<and> par_label item \<noteq> qy_label q then False
      else if qy_account q \<noteq> [] \<and> par_account item \<noteq> qy_account q then False
      else if qy_symbol q \<noteq> [] \<and> par_symbol item \<noteq> qy_symbol q then False
      else if qy_exchange q \<noteq> [] \<and> par_exchange item \<noteq> qy_exchange q then False
      else if qy_strategy_id q \<noteq> 0 \<and> par_strategy_id item \<noteq> qy_strategy_id q then False
      else True)"

record config =
  cfg_parameters :: "parameter list"
  cfg_is_downloading :: bool
  cfg_start_time :: time

text \<open>\<open>operator()(Query, fn)\<close>: the parameters the callback is run on.\<close>

definition config_query :: "query \<Rightarrow> config \<Rightarrow> parameter list" where
  "config_query q cfg = filter (query_matches q) (cfg_parameters cfg)"

definition query_of :: "parameter \<Rightarrow> query" where
  "query_of u =
     \<lparr>qy_label = par_label u, qy_symbol = par_symbol u, qy_exchange = par_exchange u,
      qy_account = par_account u, qy_strategy_id = par_strategy_id u\<rparr>"

definition store_parameter :: "parameter \<Rightarrow> parameter list \<Rightarrow> parameter list" where
  "store_parameter u ps =
     (let q = query_of u; ps1 = map (\<lambda>p. if query_matches q p then u else p) ps in
      if list_ex (query_matches q) ps then ps1 else ps1 @ [u])"

definition config_on_parameters :: "parameter list \<Rightarrow> config \<Rightarrow> config" where
  "config_on_parameters us cfg =
     (if cfg_is_downloading cfg then cfg
      else cfg\<lparr>cfg_parameters := fold store_parameter us (cfg_parameters cfg)\<rparr>)"

definition config_on_timer :: "time \<Rightarrow> config \<Rightarrow> config" where
  "config_on_timer now cfg = (if cfg_start_time cfg = 0 then cfg\<lparr>cfg_start_time := now\<rparr> else cfg)"

text \<open>
  \<open>dispatch(config::Handler&)\<close>: the handler \<open>h\<close>, a function on the whole state, gets all parameters;
  \<open>get\<close> and \<open>put\<close> are the place of the configuration in that state.
\<close>

definition config_dispatch ::
  "('s \<Rightarrow> config) \<Rightarrow> (config \<Rightarrow> 's \<Rightarrow> 's) \<Rightarrow> (parameter list \<Rightarrow> 's \<Rightarrow> 's res) \<Rightarrow> 's \<Rightarrow> 's res" where
  "config_dispatch get put h r =
     rbind (h (cfg_parameters (get r)) (put ((get r)\<lparr>cfg_is_downloading := True\<rparr>) r)) (\<lambda>r1.
       Inr (put ((get r1)\<lparr>cfg_parameters := [], cfg_is_downloading := False\<rparr>) r1))"


section \<open>The parameters as a map\<close>

text \<open>
  The specification: the last value of every key.  It holds for parameters whose fields are all
  given, since an empty field is a wildcard of the look-up.
\<close>

type_synonym parameter_key = "string \<times> string \<times> string \<times> string \<times> ident"

definition parameter_key :: "parameter \<Rightarrow> parameter_key" where
  "parameter_key p = (par_label p, par_account p, par_symbol p, par_exchange p, par_strategy_id p)"

definition complete_parameter :: "parameter \<Rightarrow> bool" where
  "complete_parameter p \<longleftrightarrow> par_label p \<noteq> [] \<and> par_account p \<noteq> [] \<and> par_symbol p \<noteq> [] \<and> par_exchange p \<noteq> [] \<and> par_strategy_id p \<noteq> 0"

definition parameters_ok :: "parameter list \<Rightarrow> bool" where
  "parameters_ok ps \<longleftrightarrow> list_all complete_parameter ps \<and> distinct (map parameter_key ps)"

definition enter_parameter ::
  "parameter \<Rightarrow> (parameter_key \<Rightarrow> parameter option) \<Rightarrow> parameter_key \<Rightarrow> parameter option" where
  "enter_parameter u m = m(parameter_key u \<mapsto> u)"

definition parameters_abs :: "parameter list \<Rightarrow> parameter_key \<Rightarrow> parameter option" where
  "parameters_abs ps = map_of (map (\<lambda>p. (parameter_key p, p)) ps)"

lemma query_matches_complete:
  "complete_parameter u \<Longrightarrow> query_matches (query_of u) = (\<lambda>p. parameter_key p = parameter_key u)"
  by (auto simp: fun_eq_iff query_matches_def query_of_def complete_parameter_def parameter_key_def)

lemma store_known:
  assumes "distinct (map parameter_key ps)" "p0 \<in> set ps" "parameter_key p0 = parameter_key u"
  shows "map_of (map (\<lambda>p. (parameter_key p, p)) (map (\<lambda>p. if parameter_key p = parameter_key u then u else p) ps)) =
    (map_of (map (\<lambda>p. (parameter_key p, p)) ps))(parameter_key u \<mapsto> u)"
  using assms
proof (induction ps)
  case Nil
  then show ?case by simp
next
  case (Cons p ps)
  show ?case
  proof (cases "parameter_key p = parameter_key u")
    case True
    then have "parameter_key q \<noteq> parameter_key u" if "q \<in> set ps" for q
      using Cons.prems(1) that True by (auto simp: image_iff)
    then have "map (\<lambda>p. if parameter_key p = parameter_key u then u else p) ps = ps"
      by (intro map_idI) auto
    with True show ?thesis by (simp add: fun_eq_iff)
  next
    case False
    then have "p0 \<in> set ps" using Cons.prems by auto
    from Cons.IH [OF _ this Cons.prems(3)] Cons.prems(1) False show ?thesis by (auto simp: fun_upd_twist)
  qed
qed

lemma store_parameter_refines:
  assumes ok: "parameters_ok ps" and u: "complete_parameter u"
  shows "parameters_ok (store_parameter u ps) \<and>
    parameters_abs (store_parameter u ps) = enter_parameter u (parameters_abs ps)"
proof -
  let ?f = "\<lambda>p. if parameter_key p = parameter_key u then u else p"
  have eq: "store_parameter u ps = (if list_ex (\<lambda>p. parameter_key p = parameter_key u) ps then map ?f ps else map ?f ps @ [u])"
    by (simp add: store_parameter_def query_matches_complete [OF u] Let_def)
  have "parameter_key \<circ> ?f = parameter_key" by (simp add: fun_eq_iff)
  then have keys: "distinct (map parameter_key (map ?f ps)) = distinct (map parameter_key ps)" by (simp only: map_map)
  have comp: "list_all complete_parameter (map ?f ps)" using ok u by (auto simp: parameters_ok_def list_all_iff)
  show ?thesis
  proof (cases "list_ex (\<lambda>p. parameter_key p = parameter_key u) ps")
    case True
    then obtain p0 where "p0 \<in> set ps" "parameter_key p0 = parameter_key u" by (auto simp: list_ex_iff)
    from store_known [OF _ this] ok True comp keys show ?thesis
      by (simp add: eq parameters_ok_def parameters_abs_def enter_parameter_def)
  next
    case False
    then have no: "parameter_key p \<noteq> parameter_key u" if "p \<in> set ps" for p using that by (auto simp: list_ex_iff)
    then have "map ?f ps = ps" by (intro map_idI) auto
    moreover have new: "parameter_key u \<notin> parameter_key ` set ps" using no by (metis imageE)
    then have "map_of (map (\<lambda>p. (parameter_key p, p)) ps) (parameter_key u) = None"
      by (simp add: map_of_eq_None_iff image_image)
    ultimately show ?thesis
      using False ok u new
      by (auto simp: eq parameters_ok_def parameters_abs_def enter_parameter_def map_add_def fun_eq_iff split: option.splits)
  qed
qed

text \<open>
  C35: the store of parameters refines a map: parameters received after start-up are entered one by
  one under their key, a later value replacing an earlier one, and no key is stored twice.
\<close>

theorem config_parameters_refine:
  assumes "parameters_ok (cfg_parameters cfg)" and "list_all complete_parameter us" and "\<not> cfg_is_downloading cfg"
  shows "parameters_ok (cfg_parameters (config_on_parameters us cfg)) \<and>
    parameters_abs (cfg_parameters (config_on_parameters us cfg)) =
      fold enter_parameter us (parameters_abs (cfg_parameters cfg))"
proof -
  have "parameters_ok (fold store_parameter us ps) \<and>
    parameters_abs (fold store_parameter us ps) = fold enter_parameter us (parameters_abs ps)"
    if "parameters_ok ps" "list_all complete_parameter us" for ps
    using that
  proof (induction us arbitrary: ps)
    case Nil
    then show ?case by simp
  next
    case (Cons u us)
    with store_parameter_refines [OF Cons.prems(1), of u] show ?case by simp
  qed
  with assms show ?thesis by (simp add: config_on_parameters_def)
qed

definition limit_parameter :: "string \<Rightarrow> parameter" where
  "limit_parameter v = \<lparr>par_label = ''lqs:buy_volume'', par_account = ''a'', par_exchange = ''e'', par_symbol = ''s'',
     par_strategy_id = 1, par_value = v\<rparr>"

theorem config_parameters_refine_witness:
  "parameters_abs (cfg_parameters (config_on_parameters [limit_parameter ''1'', limit_parameter ''2'']
     \<lparr>cfg_parameters = [], cfg_is_downloading = False, cfg_start_time = 0\<rparr>))
     (parameter_key (limit_parameter ''1'')) = Some (limit_parameter ''2'')"
proof -
  have key: "parameter_key (limit_parameter ''2'') = parameter_key (limit_parameter ''1'')"
    by (simp add: parameter_key_def limit_parameter_def)
  have "parameters_ok []" "list_all complete_parameter [limit_parameter ''1'', limit_parameter ''2'']"
    by (simp_all add: parameters_ok_def complete_parameter_def limit_parameter_def)
  from config_parameters_refine [of "\<lparr>cfg_parameters = [], cfg_is_downloading = False, cfg_start_time = 0\<rparr>", OF _ this(2)] this(1)
  show ?thesis by (simp add: key enter_parameter_def)
qed

end
