(* ===== verification/Oms_Book.thy ===== *)
theory Oms_Book
  imports Portfolios
begin

text \<open>
  \<open>core/oms/{book,order,level,order_version,market}.hpp\<close> and \<open>core/oms/book.cpp\<close>: the book of one
  strategy, account and market, with its live orders and its price levels.  A level is keyed by
  the index of its price in ticks.
\<close>

section \<open>State\<close>

record order_version =
  ov_type :: request_type
  ov_status :: order_status
  ov_version :: ident
  ov_price :: double
  ov_quantity :: double
  ov_created_time :: time

definition no_version :: order_version where
  "no_version =
     \<lparr>ov_type = RT_UNDEFINED, ov_status = OS_UNDEFINED, ov_version = 0, ov_price = NaN,
      ov_quantity = NaN, ov_created_time = 0\<rparr>"

record oms_order =
  o_order_id :: order_ident
  o_side :: side
  o_traded_quantity :: double
  o_remaining_quantity :: double
  o_pending :: order_version
  o_confirmed :: order_version
  o_expected :: order_version
  o_accept_version :: ident
  o_reject_version :: ident
  o_reject_error :: roq_error
  o_reject_reason :: string
  o_strategy_id :: ident
  o_external_order_id :: string
  o_rejects_count :: ident

definition default_order :: oms_order where
  "default_order =
     \<lparr>o_order_id = 0, o_side = SIDE_UNDEFINED, o_traded_quantity = NaN, o_remaining_quantity = NaN,
      o_pending = no_version, o_confirmed = no_version, o_expected = no_version,
      o_accept_version = 0, o_reject_version = 0, o_reject_error = E_UNDEFINED,
      o_reject_reason = [], o_strategy_id = 0, o_external_order_id = [], o_rejects_count = 0\<rparr>"

definition is_pending :: "oms_order \<Rightarrow> bool" where
  "is_pending ord \<longleftrightarrow> ov_type (o_pending ord) \<noteq> RT_UNDEFINED"

definition is_confirmed :: "oms_order \<Rightarrow> bool" where
  "is_confirmed ord \<longleftrightarrow> ov_type (o_confirmed ord) \<noteq> RT_UNDEFINED"

record level =
  lv_price :: double
  lv_quantity :: double
  lv_target_quantity :: double
  lv_expected_quantity :: double
  lv_confirmed_quantity :: double
  lv_exec_inst :: "execution_instruction set"

definition default_level :: level where
  "default_level =
     \<lparr>lv_price = NaN, lv_quantity = Fin 0, lv_target_quantity = Fin 0, lv_expected_quantity = Fin 0,
      lv_confirmed_quantity = Fin 0, lv_exec_inst = {}\<rparr>"

type_synonym levels = "(level_ident, level) hash"

text \<open>\<open>oms::Market\<close>, the key of a book.\<close>

record oms_market =
  om_market :: ident
  om_symbol :: string
  om_exchange :: string
  om_account :: string
  om_portfolio :: ident
  om_portfolio_name :: string
  om_strategy :: ident
  om_trade_gateway_name :: string

definition no_oms_market :: oms_market where
  "no_oms_market =
     \<lparr>om_market = 0, om_symbol = [], om_exchange = [], om_account = [], om_portfolio = 0,
      om_portfolio_name = [], om_strategy = 0, om_trade_gateway_name = []\<rparr>"

definition oms_market_merge :: "info \<Rightarrow> oms_market \<Rightarrow> oms_market" where
  "oms_market_merge u k =
     k\<lparr>om_market := info_market u, om_symbol := info_symbol u, om_exchange := info_exchange u,
       om_trade_gateway_name := info_mdata_gateway_name u\<rparr>"

text \<open>\<open>b_trade_gateway_id\<close> is an \<open>int32_t\<close> in two's complement; a negative value is unresolved.\<close>

record book =
  b_market :: ident
  b_symbol :: string
  b_exchange :: string
  b_account :: string
  b_portfolio :: ident
  b_portfolio_name :: string
  b_strategy :: ident
  b_orders :: "(order_ident, oms_order) hash"
  b_bids :: levels
  b_asks :: levels
  b_tick_size :: double
  b_trade_gateway_id :: "32 word"
  b_trade_gateway_name :: string
  b_post_fill_timeout :: time
  b_post_cancel_timeout :: time
  b_ban_until :: time
  b_pending :: "16 word \<times> 16 word"
  b_position_by_orders :: double
  b_position_by_account :: double
  b_last_position_modify_time :: time
  b_ban_modify :: bool

definition default_book :: book where
  "default_book =
     \<lparr>b_market = 0, b_symbol = [], b_exchange = [], b_account = [], b_portfolio = 0,
      b_portfolio_name = [], b_strategy = 0, b_orders = [], b_bids = [], b_asks = [],
      b_tick_size = NaN, b_trade_gateway_id = - 1, b_trade_gateway_name = [],
      b_post_fill_timeout = 0, b_post_cancel_timeout = 0, b_ban_until = 0, b_pending = (0, 0),
      b_position_by_orders = Fin 0, b_position_by_account = Fin 0,
      b_last_position_modify_time = 0, b_ban_modify = False\<rparr>"


section \<open>Operations\<close>

definition set_tick_size :: "double \<Rightarrow> book \<Rightarrow> book res" where
  "set_tick_size t b =
     (let b1 = (if double_empty (b_tick_size b) then b\<lparr>b_tick_size := t\<rparr> else b) in
      ensure (double_empty (b_tick_size b1) \<or> deq (b_tick_size b1) t) (Inr b1))"

text \<open>
  \<open>LevelIdent index = std::roundl(price / tick_size)\<close>: the conversion to \<open>int64_t\<close> is undefined
  (\<open>None\<close>) unless the rounded quotient is a finite number of that type.
\<close>

definition level_index :: "double \<Rightarrow> double \<Rightarrow> level_ident option" where
  "level_index price tick =
     (let q = price / tick; i = roundl (rval q) in
      if isfin q \<and> - (2 ^ 63) \<le> i \<and> i < 2 ^ 63 then Some i else None)"

definition get_levels :: "side \<Rightarrow> book \<Rightarrow> levels res" where
  "get_levels s b =
     (case s of BUY \<Rightarrow> Inr (b_bids b) | SELL \<Rightarrow> Inr (b_asks b)
      | _ \<Rightarrow> Inl (Runtime_Error ''UNEXPECTED''))"

text \<open>Writing through the reference \<open>get_levels\<close> returns.\<close>

definition put_levels :: "side \<Rightarrow> levels \<Rightarrow> book \<Rightarrow> book" where
  "put_levels s ls b = (case s of BUY \<Rightarrow> b\<lparr>b_bids := ls\<rparr> | SELL \<Rightarrow> b\<lparr>b_asks := ls\<rparr> | _ \<Rightarrow> b)"

definition emplace_level ::
  "'g ext \<Rightarrow> side \<Rightarrow> double \<Rightarrow> book \<Rightarrow> (level_ident \<times> level \<times> bool \<times> book) res" where
  "emplace_level X s price b =
     ensure (\<not> isnan price)
       (ensure (\<not> double_empty (b_tick_size b))
         (case level_index price (b_tick_size b) of
            None \<Rightarrow> Inl Undefined_Behaviour
          | Some i \<Rightarrow>
              rbind (get_levels s b) (\<lambda>ls.
                case hfind ls i of
                  Some l \<Rightarrow> ensure (x_compare X (lv_price l) price = Equal) (Inr (i, l, False, b))
                | None \<Rightarrow>
                    (let l = default_level\<lparr>lv_price := price\<rparr> in
                     Inr (i, l, True, put_levels s (hput (x_layout X) i l ls) b)))))"

definition emplace_order :: "layout \<Rightarrow> order_ident \<Rightarrow> book \<Rightarrow> oms_order \<times> bool \<times> book" where
  "emplace_order L i b =
     (case hfind (b_orders b) i of
        None \<Rightarrow>
          (let ord = default_order\<lparr>o_order_id := i\<rparr> in
           (ord, True, b\<lparr>b_orders := hput L i ord (b_orders b)\<rparr>))
      | Some ord \<Rightarrow> (ord, False, b))"

text \<open>Writing through a reference to an order or to a level that is in its container.\<close>

definition put_order :: "order_ident \<Rightarrow> oms_order \<Rightarrow> book \<Rightarrow> book" where
  "put_order k ord b = b\<lparr>b_orders := hset k ord (b_orders b)\<rparr>"

definition put_level :: "side \<Rightarrow> level_ident \<Rightarrow> level \<Rightarrow> book \<Rightarrow> book" where
  "put_level s i l b =
     (case s of BUY \<Rightarrow> b\<lparr>b_bids := hset i l (b_bids b)\<rparr> | SELL \<Rightarrow> b\<lparr>b_asks := hset i l (b_asks b)\<rparr>
      | _ \<Rightarrow> b)"

definition book_parameter :: "parameter \<Rightarrow> book \<Rightarrow> book res" where
  "book_parameter p b =
     (let label = snd (split_prefix (par_label p) (CHR '':'')) in
      if label = ''post_fill_timeout'' then
        ensure (par_account p \<noteq> [])
          (rbind (parse_uint32 (par_value p)) (\<lambda>n. Inr (b\<lparr>b_post_fill_timeout := int n * 1000000\<rparr>)))
      else if label = ''post_cancel_timeout'' then
        ensure (par_account p \<noteq> [])
          (rbind (parse_uint32 (par_value p)) (\<lambda>n. Inr (b\<lparr>b_post_cancel_timeout := int n * 1000000\<rparr>)))
      else if label = ''ban_modify'' then Inr (b\<lparr>b_ban_modify := (par_value p = ''true'')\<rparr>)
      else Inr b)"

end
