(* ===== verification/Oms_Process.thy ===== *)
theory Oms_Process
  imports Oms_Book
begin

text \<open>
  The reconciliation step of the order manager, \<open>Manager::process\<close> of \<open>core/oms/manager.cpp\<close>, and
  what it calls: the guards \<open>can_create\<close>, \<open>can_modify\<close>, \<open>can_cancel\<close>, the requests
  \<open>create_order\<close>, \<open>modify_order\<close>, \<open>cancel_order\<close>, and the resolution of the trade gateway.
\<close>

section \<open>State\<close>

text \<open>
  \<open>oms::Manager\<close>.  \<open>sent_requests\<close> is what the dispatcher has been given so far, oldest first, each
  request with the gateway it went to.
\<close>

record oms =
  reject_timeout :: time
  max_order_id :: order_ident
  market_by_order :: "(order_ident, oms_market) hash"
  books :: "(ident, (string, (ident, book) hash) hash) hash"
  trade_gateway_by_account_by_exchange :: "(string, (string, string) hash) hash"
  oms_now :: time
  last_process :: time
  sent_requests :: "(request \<times> ident) list"

text \<open>\<open>core::TargetOrder\<close>, the fields that are used.\<close>

record target_order =
  to_market :: ident
  to_side :: side
  to_quantity :: double
  to_price :: double
  to_exec_inst :: "execution_instruction set"


section \<open>Guards\<close>

definition get_trade_gateway :: "oms_market \<Rightarrow> oms \<Rightarrow> string" where
  "get_trade_gateway key s =
     (case hfind (trade_gateway_by_account_by_exchange s) (om_exchange key) of
        None \<Rightarrow> []
      | Some by_account \<Rightarrow> (case hfind by_account (om_account key) of None \<Rightarrow> [] | Some n \<Rightarrow> n))"

definition resolve_trade_gateway :: "'g gateways \<Rightarrow> oms \<Rightarrow> book \<Rightarrow> bool \<times> book" where
  "resolve_trade_gateway gws s b =
     (let b1 =
        (if b_trade_gateway_name b = [] then
           b\<lparr>b_trade_gateway_name :=
               get_trade_gateway
                 (no_oms_market\<lparr>om_market := b_market b, om_symbol := b_symbol b,
                                om_exchange := b_exchange b, om_account := b_account b\<rparr>) s,
             b_trade_gateway_id := - 1\<rparr>
         else b);
          b2 =
        (if sint (b_trade_gateway_id b1) < 0 then
           b1\<lparr>b_trade_gateway_id := get_source (b_trade_gateway_name b1) gws\<rparr>
         else b1) in
      (0 \<le> sint (b_trade_gateway_id b2), b2))"

definition is_throttled :: "book \<Rightarrow> request_type \<Rightarrow> bool" where
  "is_throttled b r = False"

definition pending_of :: "side \<Rightarrow> book \<Rightarrow> 16 word" where
  "pending_of s b = (if s = SELL then snd (b_pending b) else fst (b_pending b))"

definition can_create :: "book \<Rightarrow> info \<Rightarrow> target_order \<Rightarrow> bool" where
  "can_create b info t =
     (if 0 < pending_of (to_side t) b then False
      else if is_throttled b CREATE_ORDER then False
      else if dlt (to_quantity t) (info_min_trade_vol info) then False
      else True)"

definition can_cancel :: "oms_order \<Rightarrow> bool" where
  "can_cancel ord =
     (if ov_version (o_confirmed ord) = 0 then False else if is_pending ord then False else True)"

text \<open>Whether the price and whether the volume may be modified.\<close>

definition can_modify :: "'g ext \<Rightarrow> 'g gateways \<Rightarrow> book \<Rightarrow> oms_order \<Rightarrow> bool \<times> bool" where
  "can_modify X gws b ord =
     (if b_ban_modify b then (False, False)
      else if ov_version (o_confirmed ord) = 0 then (False, False)
      else if o_rejects_count ord \<noteq> 0 then (False, False)
      else if is_pending ord then (False, False)
      else if \<not> gw_is_ready_account X {ST_MODIFY_ORDER} (b_trade_gateway_id b) (b_account b) gws
        then (False, False)
      else (True, True))"


section \<open>Requests\<close>

definition send_request :: "'g ext \<Rightarrow> request \<Rightarrow> ident \<Rightarrow> oms \<Rightarrow> oms res" where
  "send_request X r gw s =
     (case x_send X (r, gw) of
        Some msg \<Rightarrow> Inl (Runtime_Error msg)
      | None \<Rightarrow> Inr (s\<lparr>sent_requests := sent_requests s @ [(r, gw)]\<rparr>))"

definition routing_id :: "order_ident \<Rightarrow> ident \<Rightarrow> string" where
  "routing_id i v = decimal (unat i) @ ''.'' @ decimal (unat v)"

definition book_key :: "book \<Rightarrow> oms_market" where
  "book_key b =
     no_oms_market\<lparr>om_market := b_market b, om_symbol := b_symbol b, om_exchange := b_exchange b,
                   om_account := b_account b, om_strategy := b_strategy b,
                   om_trade_gateway_name := b_trade_gateway_name b\<rparr>"

definition created_order :: "order_ident \<Rightarrow> target_order \<Rightarrow> oms_order" where
  "created_order i t =
     (let v = \<lparr>ov_type = CREATE_ORDER, ov_status = OS_UNDEFINED, ov_version = 1,
               ov_price = to_price t, ov_quantity = to_quantity t, ov_created_time = 0\<rparr> in
      default_order\<lparr>o_order_id := i, o_side := to_side t, o_traded_quantity := Fin 0,
                    o_remaining_quantity := to_quantity t, o_pending := v, o_expected := v\<rparr>)"

definition create_request_of :: "book \<Rightarrow> order_ident \<Rightarrow> target_order \<Rightarrow> create_request" where
  "create_request_of b i t =
     \<lparr>cr_account = b_account b, cr_order_id = i, cr_exchange = b_exchange b,
      cr_symbol = b_symbol b, cr_side = to_side t,
      cr_execution_instructions =
        (if PARTICIPATE_DO_NOT_INITIATE \<in> to_exec_inst t then {PARTICIPATE_DO_NOT_INITIATE} else {}),
      cr_quantity = to_quantity t, cr_price = to_price t,
      cr_routing_id = routing_id i (ov_version (o_pending (created_order i t))),
      cr_strategy_id = b_strategy b\<rparr>"

definition create_order ::
  "'g ext \<Rightarrow> 'g gateways \<Rightarrow> target_order \<Rightarrow> book \<times> oms \<Rightarrow> (book \<times> oms) res" where
  "create_order X gws t = (\<lambda>(b, s).
     ensure (b_market b = to_market t)
      (ensure (gw_is_ready_account X {ST_MODIFY_ORDER} (b_trade_gateway_id b) (b_account b) gws)
        (let i = max_order_id s + 1; s1 = s\<lparr>max_order_id := i\<rparr>; ord = created_order i t in
         ensure (hfind (b_orders b) i = None)
          (let b1 = b\<lparr>b_orders := hput (x_layout X) i ord (b_orders b)\<rparr> in
           ensure (ov_version (o_pending ord) = 1)
            (ensure (o_order_id ord \<noteq> 0)
              (ensure (\<not> isnan (ov_quantity (o_expected ord)))
                (let s2 = s1\<lparr>market_by_order := hput (x_layout X) i (book_key b1) (market_by_order s1)\<rparr> in
                 rbind (send_request X (Create (create_request_of b1 i t)) (b_trade_gateway_id b1) s2)
                   (\<lambda>s3. Inr (b1, s3)))))))))"

text \<open>The order stored under \<open>k\<close> is modified or canceled in place.\<close>

definition modify_order ::
  "'g ext \<Rightarrow> 'g gateways \<Rightarrow> order_ident \<Rightarrow> oms_order \<Rightarrow> double \<Rightarrow> double \<Rightarrow> book \<times> oms \<Rightarrow>
     (book \<times> oms) res" where
  "modify_order X gws k ord quantity price = (\<lambda>(b, s).
     ensure (gw_is_ready_account X {ST_MODIFY_ORDER} (b_trade_gateway_id b) (b_account b) gws)
      (let p = (o_pending ord)\<lparr>ov_version := ov_version (o_pending ord) + 1, ov_type := MODIFY_ORDER,
                               ov_price := price, ov_quantity := quantity\<rparr>;
           r = \<lparr>mr_account = b_account b, mr_order_id = o_order_id ord, mr_quantity = quantity,
                mr_price = price, mr_version = ov_version p,
                mr_conditional_on_version = ov_version (o_confirmed ord)\<rparr>;
           b1 = put_order k (ord\<lparr>o_pending := p, o_expected := p\<rparr>) b in
       rbind (send_request X (Modify r) (b_trade_gateway_id b1) s) (\<lambda>s1. Inr (b1, s1))))"

definition cancel_order ::
  "'g ext \<Rightarrow> 'g gateways \<Rightarrow> order_ident \<Rightarrow> oms_order \<Rightarrow> book \<times> oms \<Rightarrow> (book \<times> oms) res" where
  "cancel_order X gws k ord = (\<lambda>(b, s).
     ensure (gw_is_ready_account X {ST_CANCEL_ORDER} (b_trade_gateway_id b) (b_account b) gws)
      (ensure (hfind (b_orders b) (o_order_id ord) \<noteq> None)
        (let p = (o_pending ord)\<lparr>ov_version := ov_version (o_pending ord) + 1, ov_type := CANCEL_ORDER,
                                 ov_price := ov_price (o_expected ord), ov_quantity := Fin 0\<rparr>;
             r = \<lparr>ca_account = b_account b, ca_order_id = o_order_id ord, ca_version = ov_version p,
                  ca_conditional_on_version = ov_version (o_confirmed ord)\<rparr>;
             b1 = put_order k (ord\<lparr>o_pending := p, o_expected := p\<rparr>) b in
         rbind (send_request X (Cancel r) (b_trade_gateway_id b1) s) (\<lambda>s1. Inr (b1, s1)))))"


section \<open>Counting what is expected on each level\<close>

definition bump_pending :: "side \<Rightarrow> book \<Rightarrow> book" where
  "bump_pending s b =
     b\<lparr>b_pending := (if s = SELL then (fst (b_pending b), snd (b_pending b) + 1)
                     else (fst (b_pending b) + 1, snd (b_pending b)))\<rparr>"

definition is_done :: "oms_order \<Rightarrow> bool" where
  "is_done ord \<longleftrightarrow> ov_status (o_confirmed ord) = COMPLETED \<or> ov_status (o_confirmed ord) = CANCELED"

definition accumulate_order :: "'g ext \<Rightarrow> oms_order \<Rightarrow> book \<Rightarrow> book res" where
  "accumulate_order X ord b =
     (if is_done ord then Inr b
      else
        ensure (\<not> isnan (ov_quantity (o_expected ord)))
          (let b1 = (if is_pending ord then bump_pending (o_side ord) b else b) in
           rbind (emplace_level X (o_side ord) (ov_price (o_expected ord)) b1) (\<lambda>(i, l, _, b2).
             ensure (\<not> isnan (lv_expected_quantity l))
               (Inr (put_level (o_side ord) i
                  (l\<lparr>lv_expected_quantity := lv_expected_quantity l + ov_quantity (o_expected ord),
                     lv_confirmed_quantity := lv_confirmed_quantity l + ov_quantity (o_confirmed ord)\<rparr>)
                  b2)))))"

definition accumulate_orders :: "'g ext \<Rightarrow> book \<Rightarrow> book res" where
  "accumulate_orders X b = rfold (\<lambda>(_, ord). accumulate_order X ord) (b_orders b) (b\<lparr>b_pending := (0, 0)\<rparr>)"


section \<open>Moving or canceling what is too much\<close>

text \<open>
  The first level an order can be moved to, as the new quantity and price.  \<open>cp\<close> and \<open>cv\<close> say
  whether its price and its volume may be changed.
\<close>

fun find_new_level ::
  "'g ext \<Rightarrow> bool \<Rightarrow> bool \<Rightarrow> oms_order \<Rightarrow> levels \<Rightarrow> (double \<times> double) option res" where
  "find_new_level X cp cv ord [] = Inr None"
| "find_new_level X cp cv ord ((_, l) # ls) =
     ensure (\<not> isnan (lv_target_quantity l))
      (ensure (\<not> isnan (lv_expected_quantity l))
        (ensure (\<not> isnan (ov_quantity (o_confirmed ord)))
          (if \<not> cp \<and> x_compare X (lv_price l) (ov_price (o_expected ord)) \<noteq> Equal then
             find_new_level X cp cv ord ls
           else if \<not> cv then
             if x_compare X (lv_target_quantity l)
                  (lv_expected_quantity l + ov_quantity (o_confirmed ord)) \<noteq> Less
             then Inr (Some (ov_quantity (o_confirmed ord), lv_price l))
             else find_new_level X cp cv ord ls
           else
             if x_compare X (lv_target_quantity l) (lv_expected_quantity l) = Greater
             then Inr (Some (lv_target_quantity l - lv_expected_quantity l, lv_price l))
             else find_new_level X cp cv ord ls)))"

text \<open>The loop over the orders; the result \<open>True\<close> is the jump to \<open>again\<close>.\<close>

fun scan_orders ::
  "'g ext \<Rightarrow> 'g gateways \<Rightarrow> (order_ident, oms_order) hash \<Rightarrow> book \<times> oms \<Rightarrow> (bool \<times> book \<times> oms) res"
  where
  "scan_orders X gws [] (b, s) = Inr (False, b, s)"
| "scan_orders X gws ((k, ord) # os) (b, s) =
     rbind (emplace_level X (o_side ord) (ov_price (o_expected ord)) b) (\<lambda>(i, l, _, b1).
       if x_compare X (lv_expected_quantity l) (lv_target_quantity l) = Greater then
         (let (cp, cv) = can_modify X gws b1 ord; cc = can_cancel ord in
          rbind
            (if cp \<or> cv then rbind (get_levels (o_side ord) b1) (find_new_level X cp cv ord)
             else Inr None)
            (\<lambda>t. case t of
                Some (quantity, price) \<Rightarrow>
                  rbind (modify_order X gws k ord quantity price (b1, s)) (\<lambda>r. Inr (True, r))
              | None \<Rightarrow>
                  if cc then rbind (cancel_order X gws k ord (b1, s)) (\<lambda>r. Inr (True, r))
                  else scan_orders X gws os (b1, s)))
       else scan_orders X gws os (b1, s))"


section \<open>The loop of \<open>again\<close> ends\<close>

definition idle_orders :: "book \<Rightarrow> nat" where
  "idle_orders b = length (filter (\<lambda>e. \<not> is_pending (snd e)) (b_orders b))"

lemma b_orders_put_levels [simp]: "b_orders (put_levels s ls b) = b_orders b"
  by (simp add: put_levels_def split: side.splits)

lemma b_orders_put_level [simp]: "b_orders (put_level s i l b) = b_orders b"
  by (simp add: put_level_def split: side.splits)

lemma emplace_level_orders: "emplace_level X s p b = Inr (i, l, new, b') \<Longrightarrow> b_orders b' = b_orders b"
  by (auto simp: emplace_level_def res_simps Let_def split: option.splits)

lemma accumulate_order_orders: "accumulate_order X ord b = Inr b' \<Longrightarrow> b_orders b' = b_orders b"
  by (auto simp: accumulate_order_def res_simps Let_def bump_pending_def dest!: emplace_level_orders
      split: if_splits)

lemma accumulate_orders_orders:
  assumes "accumulate_orders X b = Inr b'"
  shows "b_orders b' = b_orders b"
  using assms unfolding accumulate_orders_def
  by (rule rfold_invariant [where I = "\<lambda>b'. b_orders b' = b_orders b"])
    (auto dest: accumulate_order_orders)

lemma idle_put_order:
  assumes "(k, ord) \<in> set (b_orders b)" "\<not> is_pending ord" "is_pending ord'"
  shows "idle_orders (put_order k ord' b) < idle_orders b"
proof -
  let ?g = "\<lambda>(k', w). (k', if k' = k then ord' else w)"
  have "length (filter (\<lambda>e. \<not> is_pending (snd e)) (map ?g (b_orders b)))
      < length (filter (\<lambda>e. \<not> is_pending (snd e)) (b_orders b))"
    by (rule length_filter_less_when [where y = "(k, ord)"]) (use assms in \<open>auto split: if_splits\<close>)
  then show ?thesis by (simp add: idle_orders_def put_order_def hset_def)
qed

lemma modify_order_idle:
  assumes "modify_order X gws k ord q p (b, s) = Inr (b', s')"
    "(k, ord) \<in> set (b_orders b)" "\<not> is_pending ord"
  shows "idle_orders b' < idle_orders b"
  using assms by (auto simp: modify_order_def res_simps Let_def is_pending_def intro!: idle_put_order)

lemma cancel_order_idle:
  assumes "cancel_order X gws k ord (b, s) = Inr (b', s')"
    "(k, ord) \<in> set (b_orders b)" "\<not> is_pending ord"
  shows "idle_orders b' < idle_orders b"
  using assms by (auto simp: cancel_order_def res_simps Let_def is_pending_def intro!: idle_put_order)

lemma can_cancel_idle: "can_cancel ord \<Longrightarrow> \<not> is_pending ord"
  by (simp add: can_cancel_def split: if_splits)

lemma can_modify_idle: "can_modify X gws b ord = (cp, cv) \<Longrightarrow> cp \<or> cv \<Longrightarrow> \<not> is_pending ord"
  by (auto simp: can_modify_def split: if_splits)

lemma scan_orders_idle:
  assumes "scan_orders X gws os (b, s) = Inr (True, b', s')" "set os \<subseteq> set (b_orders b)"
  shows "idle_orders b' < idle_orders b"
  using assms
proof (induction os arbitrary: b)
  case Nil
  then show ?case by simp
next
  case (Cons e os)
  obtain k ord where e: "e = (k, ord)" by (cases e)
  from Cons.prems e obtain i l new b1 where
    lev: "emplace_level X (o_side ord) (ov_price (o_expected ord)) b = Inr (i, l, new, b1)"
    by (auto simp: res_simps)
  note same = emplace_level_orders [OF lev]
  then have idle: "idle_orders b1 = idle_orders b" by (simp add: idle_orders_def)
  have mem: "(k, ord) \<in> set (b_orders b1)" and sub: "set os \<subseteq> set (b_orders b1)"
    using Cons.prems(2) e same by auto
  have rest: "idle_orders b' < idle_orders b" if "scan_orders X gws os (b1, s) = Inr (True, b', s')"
    using Cons.IH [OF that sub] idle by simp
  obtain cp cv where cm: "can_modify X gws b1 ord = (cp, cv)" by (cases "can_modify X gws b1 ord")
  from Cons.prems(1) e lev cm rest show ?case
    by (auto simp: res_simps Let_def idle [symmetric] split: if_splits option.splits
        dest: modify_order_idle [OF _ mem can_modify_idle [OF cm]]
          cancel_order_idle [OF _ mem can_cancel_idle])
qed

function process_again ::
  "'g ext \<Rightarrow> 'g gateways \<Rightarrow> book \<times> oms \<Rightarrow> (book \<times> oms) res" where
  "process_again X gws (b, s) =
     rbind (accumulate_orders X b) (\<lambda>b1.
     rbind (scan_orders X gws (b_orders b1) (b1, s)) (\<lambda>(again, r).
       if again then process_again X gws r else Inr r))"
  by pat_completeness auto
termination
proof (relation "measure (\<lambda>(_, _, b, _). idle_orders b)")
  show "wf (measure (\<lambda>(_ :: 'g ext, _ :: 'g gateways, b, _ :: oms). idle_orders b))" by simp
qed (auto simp: idle_orders_def dest!: accumulate_orders_orders scan_orders_idle)

declare process_again.simps [simp del]


section \<open>Creating what is missing\<close>

definition create_on_level ::
  "'g ext \<Rightarrow> 'g gateways \<Rightarrow> info \<Rightarrow> side \<Rightarrow> level_ident \<times> level \<Rightarrow> book \<times> oms \<Rightarrow> (book \<times> oms) res" where
  "create_on_level X gws info side = (\<lambda>(_, l) (b, s).
     ensure (\<not> isnan (lv_target_quantity l))
      (ensure (\<not> isnan (lv_expected_quantity l))
        (if x_compare X (lv_target_quantity l) (lv_expected_quantity l) = Greater then
           (let t = \<lparr>to_market = b_market b, to_side = side,
                     to_quantity = lv_target_quantity l - lv_expected_quantity l,
                     to_price = lv_price l, to_exec_inst = lv_exec_inst l\<rparr> in
            if can_create b info t then create_order X gws t (b, s) else Inr (b, s))
         else Inr (b, s))))"

definition create_orders ::
  "'g ext \<Rightarrow> 'g gateways \<Rightarrow> info \<Rightarrow> book \<times> oms \<Rightarrow> (book \<times> oms) res" where
  "create_orders X gws info =
     rfold (\<lambda>side (b, s).
       rbind (get_levels side b) (\<lambda>ls. rfold (create_on_level X gws info side) ls (b, s))) [BUY, SELL]"


section \<open>Erasing empty levels\<close>

definition level_is_empty :: "'g ext \<Rightarrow> level \<Rightarrow> bool" where
  "level_is_empty X l \<longleftrightarrow>
     x_compare X (lv_target_quantity l) (Fin 0) = Equal \<and>
     x_compare X (lv_expected_quantity l) (Fin 0) = Equal \<and>
     x_compare X (lv_confirmed_quantity l) (Fin 0) = Equal"

definition erase_empty_levels :: "'g ext \<Rightarrow> book \<Rightarrow> book res" where
  "erase_empty_levels X =
     rfold (\<lambda>side b.
       rbind (get_levels side b) (\<lambda>ls.
       rbind (rfold (\<lambda>(i, l) ls'.
           ensure (\<not> isnan (lv_price l))
            (ensure (\<not> isnan (lv_target_quantity l))
              (ensure (\<not> isnan (lv_expected_quantity l))
                (Inr (if level_is_empty X l then herase (x_layout X) i ls' else ls'))))) ls ls)
         (\<lambda>ls'. Inr (put_levels side ls' b)))) [BUY, SELL]"


section \<open>The whole step\<close>

definition reset_levels :: "book \<Rightarrow> book" where
  "reset_levels b =
     (let reset = map (\<lambda>(i, l). (i, l\<lparr>lv_expected_quantity := Fin 0, lv_confirmed_quantity := Fin 0\<rparr>)) in
      b\<lparr>b_bids := reset (b_bids b), b_asks := reset (b_asks b)\<rparr>)"

definition process ::
  "'g ext \<Rightarrow> 'g gateways \<Rightarrow> info \<Rightarrow> book \<times> oms \<Rightarrow> (book \<times> oms) res" where
  "process X gws info = (\<lambda>(b, s).
     if b_account b = [] then Inr (b, s)
     else
       let (resolved, b1) = resolve_trade_gateway gws s b;
           ready = gw_is_ready_account X {ST_CREATE_ORDER, ST_CANCEL_ORDER}
                     (b_trade_gateway_id b1) (b_account b1) gws \<and> resolved in
       if \<not> ready then Inr (b1, s)
       else if isnan (info_tick_size info) then Inr (b1, s)
       else
         rbind (set_tick_size (info_tick_size info) b1) (\<lambda>b2.
           if oms_now s < b_ban_until b2 then Inr (b2, s)
           else
             rbind (process_again X gws (reset_levels (b2\<lparr>b_ban_until := 0\<rparr>), s)) (\<lambda>r.
             rbind (create_orders X gws info r) (\<lambda>(b3, s3).
             rbind (erase_empty_levels X b3) (\<lambda>b4. Inr (b4, s3))))))"

end
