(* ===== verification/Oms_Manager.thy ===== *)
theory Oms_Manager
  imports Oms_Process Core_Manager
begin

text \<open>
  The handlers of \<open>core/oms/manager.{hpp,cpp}\<close>: the books by strategy, account and market, the
  replies of the gateway to requests (\<open>OrderAck\<close>, \<open>OrderUpdate\<close>), positions, downloads, rate
  limits, parameters, target quotes and the timer.  Every handler is a function from the state to
  the new state or the abort it ends in.
\<close>

section \<open>Books\<close>

type_synonym book_ident = "ident \<times> string \<times> ident"

text \<open>\<open>get_book\<close>: the key, the book and the market the callback is run on, if any.\<close>

definition get_book :: "oms_market \<Rightarrow> markets \<Rightarrow> oms \<Rightarrow> (book_ident \<times> book \<times> info) option" where
  "get_book key ms s =
     (case hfind (books s) (om_strategy key) of
        None \<Rightarrow> None
      | Some by_account \<Rightarrow>
          (case hfind by_account (om_account key) of
             None \<Rightarrow> None
           | Some by_market \<Rightarrow>
               (let m = (if om_market key = 0 then get_market_ident (om_symbol key) (om_exchange key) ms
                         else om_market key) in
                if m = 0 then None
                else
                  case hfind by_market m of
                    None \<Rightarrow> None
                  | Some b \<Rightarrow>
                      (case get_market (b_market b) ms of
                         None \<Rightarrow> None
                       | Some info \<Rightarrow> Some ((om_strategy key, om_account key, m), b, info)))))"

definition store_book :: "layout \<Rightarrow> book_ident \<Rightarrow> book \<Rightarrow> oms \<Rightarrow> oms" where
  "store_book L k b s = s\<lparr>books := hput3 L k b (books s)\<rparr>"

text \<open>\<open>get_books\<close>: the callback runs on each book whose market is known.\<close>

definition get_books ::
  "'g ext \<Rightarrow> markets \<Rightarrow> (info \<Rightarrow> book \<times> oms \<Rightarrow> (book \<times> oms) res) \<Rightarrow> oms \<Rightarrow> oms res" where
  "get_books X ms f s =
     rfold (\<lambda>k s.
       case get_market (snd (snd k)) ms of
         None \<Rightarrow> Inr s
       | Some info \<Rightarrow>
           (case hfind3 (books s) k of
              None \<Rightarrow> Inr s
            | Some b \<Rightarrow>
                rbind (f info (b, s)) (\<lambda>(b', s'). Inr (store_book (x_layout X) k b' s'))))
       (map fst (hentries3 (books s))) s"

definition emplace_book ::
  "layout \<Rightarrow> oms_market \<Rightarrow> markets \<times> oms \<Rightarrow> (book_ident \<times> book \<times> bool \<times> markets \<times> oms) res" where
  "emplace_book L key = (\<lambda>(ms, s).
     ensure (om_strategy key \<noteq> 0)
      (ensure (om_account key \<noteq> [])
        (case hfind3 (books s) (om_strategy key, om_account key, om_market key) of
           Some b \<Rightarrow> Inr ((om_strategy key, om_account key, om_market key), b, False, ms, s)
         | None \<Rightarrow>
             rbind
               (if om_market key = 0 then
                  ensure (om_exchange key \<noteq> [])
                   (ensure (om_symbol key \<noteq> [])
                     (rbind (emplace_market_event L (om_symbol key) (om_exchange key) ms)
                       (\<lambda>(info, _, ms1). Inr (info_market info, ms1))))
                else Inr (om_market key, ms))
               (\<lambda>(m, ms1).
                 let k = (om_strategy key, om_account key, m);
                     old = hfind3 (books s) k;
                     b = (case old of None \<Rightarrow> default_book | Some b \<Rightarrow> b);
                     b1 = b\<lparr>b_market := m, b_exchange := om_exchange key, b_symbol := om_symbol key,
                            b_account := om_account key, b_strategy := om_strategy key,
                            b_trade_gateway_name :=
                              (if om_trade_gateway_name key \<noteq> [] then om_trade_gateway_name key
                               else get_trade_gateway key s)\<rparr> in
                 ensure (b_trade_gateway_name b1 \<noteq> [])
                  (let b2 = b1\<lparr>b_last_position_modify_time := oms_now s\<rparr> in
                   Inr (k, b2, old = None, ms1, store_book L k b2 s))))))"


section \<open>Orders\<close>

definition erase_order :: "'g ext \<Rightarrow> order_ident \<Rightarrow> book \<times> oms \<Rightarrow> (book \<times> oms) res" where
  "erase_order X i = (\<lambda>(b, s).
     ensure (hfind (b_orders b) i \<noteq> None)
      (Inr (b\<lparr>b_orders := herase (x_layout X) i (b_orders b)\<rparr>,
            s\<lparr>market_by_order := herase (x_layout X) i (market_by_order s)\<rparr>)))"

definition erase_all_orders :: "'g ext \<Rightarrow> book \<times> oms \<Rightarrow> book \<times> oms" where
  "erase_all_orders X = (\<lambda>(b, s).
     (b\<lparr>b_orders := []\<rparr>,
      s\<lparr>market_by_order :=
          fold (herase (x_layout X)) (hkeys (b_orders b)) (market_by_order s)\<rparr>))"

text \<open>
  The handlers of a reply to a request.  \<open>ord\<close> is the order the reply is about, stored in the book
  under the identifier of the message.
\<close>

definition create_rejected :: "oms_order \<Rightarrow> order_ack \<Rightarrow> oms_order" where
  "create_rejected ord u =
     (let c = (o_pending ord)\<lparr>ov_quantity := Fin 0, ov_status := OS_REJECTED\<rparr> in
      ord\<lparr>o_reject_version := oa_version u, o_reject_error := oa_error u,
          o_reject_reason := oa_text u, o_rejects_count := o_rejects_count ord + 1,
          o_confirmed := c,
          o_pending := (o_pending ord)\<lparr>ov_type := RT_UNDEFINED, ov_version := ov_version c\<rparr>,
          o_expected := c\<rparr>)"

definition modify_rejected :: "oms_order \<Rightarrow> order_ack \<Rightarrow> oms_order" where
  "modify_rejected ord u =
     ord\<lparr>o_reject_version := oa_version u, o_reject_error := oa_error u,
         o_reject_reason := oa_text u, o_rejects_count := o_rejects_count ord + 1,
         o_expected := o_confirmed ord, o_pending := (o_pending ord)\<lparr>ov_type := RT_UNDEFINED\<rparr>\<rparr>"

definition cancel_rejected :: "oms_order \<Rightarrow> oms_order" where
  "cancel_rejected ord =
     ord\<lparr>o_expected := o_confirmed ord, o_pending := (o_pending ord)\<lparr>ov_type := RT_UNDEFINED\<rparr>\<rparr>"

definition confirmed_order :: "oms_order \<Rightarrow> order_update \<Rightarrow> oms_order" where
  "confirmed_order ord u =
     (let c = (o_confirmed ord)\<lparr>ov_status := ou_order_status u, ov_price := ou_price u,
                                ov_quantity := ou_remaining_quantity u,
                                ov_version := ou_max_accepted_version u\<rparr> in
      ord\<lparr>o_external_order_id := ou_external_order_id u, o_confirmed := c,
          o_traded_quantity := ou_traded_quantity u,
          o_pending := (o_pending ord)\<lparr>ov_type := RT_UNDEFINED\<rparr>, o_expected := c\<rparr>)"

definition completed_order :: "oms_order \<Rightarrow> order_update \<Rightarrow> oms_order" where
  "completed_order ord u =
     (let c = (o_confirmed ord)\<lparr>ov_status := ou_order_status u, ov_price := ou_price u,
                                ov_quantity := Fin 0, ov_version := ou_max_accepted_version u,
                                ov_type := RT_UNDEFINED\<rparr> in
      ord\<lparr>o_confirmed := c, o_pending := (o_pending ord)\<lparr>ov_type := RT_UNDEFINED\<rparr>,
          o_expected := c, o_traded_quantity := ou_traded_quantity u\<rparr>)"

definition canceled_order :: "oms_order \<Rightarrow> order_update \<Rightarrow> oms_order" where
  "canceled_order ord u =
     (let c = (o_confirmed ord)\<lparr>ov_status := ou_order_status u, ov_type := RT_UNDEFINED,
                                ov_price := ou_price u, ov_quantity := Fin 0,
                                ov_version := ou_max_accepted_version u\<rparr> in
      ord\<lparr>o_confirmed := c, o_pending := (o_pending ord)\<lparr>ov_type := RT_UNDEFINED\<rparr>, o_expected := c\<rparr>)"

text \<open>An order first heard of through an \<open>OrderUpdate\<close>.\<close>

definition downloaded_order :: "oms_order \<Rightarrow> order_update \<Rightarrow> oms_order" where
  "downloaded_order ord u =
     (let c = (o_confirmed ord)\<lparr>ov_type := CREATE_ORDER, ov_version := ou_max_accepted_version u,
                                ov_status := ou_order_status u, ov_price := ou_price u,
                                ov_quantity := ou_remaining_quantity u\<rparr> in
      ord\<lparr>o_side := ou_side u, o_order_id := ou_order_id u,
          o_remaining_quantity := ou_remaining_quantity u,
          o_traded_quantity := ou_traded_quantity u, o_confirmed := c,
          o_external_order_id := ou_external_order_id u,
          o_pending := (o_pending ord)\<lparr>ov_version := ou_max_response_version u, ov_type := RT_UNDEFINED\<rparr>,
          o_expected := c\<rparr>)"

definition order_create_reject ::
  "'g ext \<Rightarrow> oms_order \<Rightarrow> order_ack \<Rightarrow> book \<times> oms \<Rightarrow> (book \<times> oms) res" where
  "order_create_reject X ord u = (\<lambda>(b, s).
     ensure (o_order_id ord = oa_order_id u)
      (ensure (oa_request_type u = CREATE_ORDER)
        (erase_order X (o_order_id ord) (put_order (oa_order_id u) (create_rejected ord u) b, s))))"

definition order_modify_reject ::
  "oms_order \<Rightarrow> order_ack \<Rightarrow> book \<times> oms \<Rightarrow> (book \<times> oms) res" where
  "order_modify_reject ord u = (\<lambda>(b, s).
     ensure (o_order_id ord = oa_order_id u)
      (ensure (oa_request_type u = MODIFY_ORDER)
        (Inr (put_order (oa_order_id u) (modify_rejected ord u) b, s))))"

definition order_cancel_reject ::
  "oms_order \<Rightarrow> order_ack \<Rightarrow> book \<times> oms \<Rightarrow> (book \<times> oms) res" where
  "order_cancel_reject ord u = (\<lambda>(b, s).
     ensure (o_order_id ord = oa_order_id u)
      (ensure (oa_request_type u = CANCEL_ORDER)
        (Inr (put_order (oa_order_id u) (cancel_rejected ord) b, s))))"

definition order_fwd :: "oms_order \<Rightarrow> order_ack \<Rightarrow> book \<times> oms \<Rightarrow> (book \<times> oms) res" where
  "order_fwd ord u r = ensure (o_order_id ord = oa_order_id u) (Inr r)"

definition order_accept :: "oms_order \<Rightarrow> order_ack \<Rightarrow> book \<times> oms \<Rightarrow> (book \<times> oms) res" where
  "order_accept ord u = (\<lambda>(b, s).
     ensure (o_order_id ord = oa_order_id u)
      (Inr (put_order (oa_order_id u) (ord\<lparr>o_accept_version := oa_version u\<rparr>) b, s)))"

text \<open>A fill: the position of the book follows it, and the handler is told the trade.\<close>

definition trade_of :: "book \<Rightarrow> side \<Rightarrow> double \<Rightarrow> double \<Rightarrow> trade" where
  "trade_of b side price quantity =
     \<lparr>t_side = side, t_price = price, t_quantity = quantity, t_market = b_market b,
      t_symbol = b_symbol b, t_exchange = b_exchange b, t_portfolio = b_portfolio b, t_account = []\<rparr>"

definition order_fills ::
  "'g ext \<Rightarrow> side \<Rightarrow> double \<Rightarrow> double \<Rightarrow> book \<times> oms \<Rightarrow> (trade option \<times> book \<times> oms) res" where
  "order_fills X side price fill_size = (\<lambda>(b, s).
     ensure (\<not> isnan fill_size)
      (if x_compare X fill_size (Fin 0) = Greater then
         rbind (case side of
                  BUY \<Rightarrow> Inr (b\<lparr>b_position_by_orders := b_position_by_orders b + fill_size\<rparr>)
                | SELL \<Rightarrow> Inr (b\<lparr>b_position_by_orders := b_position_by_orders b - fill_size\<rparr>)
                | _ \<Rightarrow> Inl Assert_Failed)
           (\<lambda>b1.
             let t = trade_of b1 side price fill_size;
                 b2 = b1\<lparr>b_last_position_modify_time := oms_now s\<rparr>;
                 b3 = (if b_post_fill_timeout b2 \<noteq> 0
                       then b2\<lparr>b_ban_until := oms_now s + b_post_fill_timeout b2\<rparr> else b2) in
             Inr (Some t, b3, s))
       else Inr (None, b, s)))"

definition order_confirm ::
  "'g ext \<Rightarrow> oms_order \<Rightarrow> order_update \<Rightarrow> book \<times> oms \<Rightarrow> (trade option \<times> book \<times> oms) res" where
  "order_confirm X ord u = (\<lambda>(b, s).
     ensure (o_order_id ord = ou_order_id u)
      (let fill_size = ou_traded_quantity u - o_traded_quantity ord; ord1 = confirmed_order ord u in
       ensure (\<not> isnan (ov_quantity (o_expected ord1)))
        (order_fills X (ou_side u) (ou_last_traded_price u) fill_size
           (put_order (ou_order_id u) ord1 b, s))))"

definition order_complete ::
  "'g ext \<Rightarrow> oms_order \<Rightarrow> order_update \<Rightarrow> book \<times> oms \<Rightarrow> (trade option \<times> book \<times> oms) res" where
  "order_complete X ord u = (\<lambda>(b, s).
     ensure (o_order_id ord = ou_order_id u)
      (let fill_size = ou_traded_quantity u - o_traded_quantity ord; ord1 = completed_order ord u in
       ensure (\<not> isnan (ov_quantity (o_expected ord1)))
        (rbind (erase_order X (o_order_id ord1) (put_order (ou_order_id u) ord1 b, s))
          (order_fills X (ou_side u) (ou_last_traded_price u) fill_size))))"

definition order_canceled ::
  "'g ext \<Rightarrow> oms_order \<Rightarrow> order_update \<Rightarrow> book \<times> oms \<Rightarrow> (book \<times> oms) res" where
  "order_canceled X ord u = (\<lambda>(b, s).
     ensure (o_order_id ord = ou_order_id u)
      (let ord1 = canceled_order ord u in
       ensure (\<not> isnan (ov_quantity (o_expected ord1)))
        (rbind (erase_order X (o_order_id ord1) (put_order (ou_order_id u) ord1 b, s)) (\<lambda>(b1, s1).
           Inr (if b_post_cancel_timeout b1 \<noteq> 0
                then b1\<lparr>b_ban_until := oms_now s1 + b_post_cancel_timeout b1\<rparr> else b1, s1)))))"

text \<open>Whether the two positions of a book disagree for more than three seconds (only logged).\<close>

definition reconcile_positions :: "'g ext \<Rightarrow> 'g gateways \<Rightarrow> oms \<Rightarrow> book \<Rightarrow> bool" where
  "reconcile_positions X gws s b =
     (if gw_is_downloading X (b_trade_gateway_id b) gws then False
      else if 3000000000 < oms_now s - b_last_position_modify_time b then
        (let delta = b_position_by_account b - b_position_by_orders b in
         \<not> isnan delta \<and> x_compare X delta (Fin 0) \<noteq> Equal)
      else False)"


section \<open>Handlers\<close>

definition on_timer :: "'g ext \<Rightarrow> time \<Rightarrow> ('g, 'z) core_scheme \<Rightarrow> oms \<Rightarrow> oms res" where
  "on_timer X now c s =
     (let s1 = s\<lparr>oms_now := now\<rparr> in
      if 1000000000 \<le> oms_now s1 - last_process s1 then
        rbind (get_books X (c_markets c) (process X (c_gateways c)) s1) (\<lambda>s2.
          Inr (s2\<lparr>last_process := oms_now s2\<rparr>))
      else Inr s1)"

text \<open>\<open>flag\<close> is the command line flag \<open>erase_all_orders_on_gateway_not_ready\<close>.\<close>

definition on_gateway_status ::
  "'g ext \<Rightarrow> bool \<Rightarrow> message_info \<Rightarrow> gateway_status \<Rightarrow> ('g, 'z) core_scheme \<Rightarrow> oms \<Rightarrow> oms res" where
  "on_gateway_status X flag e u c s =
     get_books X (c_markets c) (\<lambda>_ (b, s).
       let b1 = (if mi_source_name e = b_trade_gateway_name b
                 then b\<lparr>b_trade_gateway_id := mi_source e\<rparr> else b) in
       Inr (if gs_account u \<noteq> [] \<and> b_account b1 = gs_account u \<and> flag \<and>
               \<not> {ST_CREATE_ORDER, ST_CANCEL_ORDER} \<subseteq> gs_available u
            then erase_all_orders X (b1, s) else (b1, s))) s"

text \<open>
  The reply to a request.  The code keeps a reference to the order across the reject handlers,
  so the assignment that follows a rejected \<open>CREATE_ORDER\<close>, whose order has been erased, is undefined.
\<close>

definition too_late_order :: "oms_order \<Rightarrow> oms_order" where
  "too_late_order ord =
     ord\<lparr>o_confirmed :=
       (o_confirmed ord)\<lparr>ov_status := CANCELED, ov_price := ov_price (o_pending ord),
          ov_quantity := Fin 0, ov_type := RT_UNDEFINED\<rparr>\<rparr>"

definition order_too_late :: "order_ack \<Rightarrow> book \<times> oms \<Rightarrow> (book \<times> oms) res" where
  "order_too_late u = (\<lambda>(b, s).
     if oa_error u = TOO_LATE_TO_MODIFY_OR_CANCEL then
       (case hfind (b_orders b) (oa_order_id u) of
          None \<Rightarrow> Inl Undefined_Behaviour
        | Some ord \<Rightarrow> Inr (put_order (oa_order_id u) (too_late_order ord) b, s))
     else Inr (b, s))"

definition ban_or_process ::
  "'g ext \<Rightarrow> 'g gateways \<Rightarrow> info \<Rightarrow> order_ack \<Rightarrow> book \<times> oms \<Rightarrow> (book \<times> oms) res" where
  "ban_or_process X gws info u = (\<lambda>(b, s).
     if oa_error u = REQUEST_RATE_LIMIT_REACHED \<or> oa_error u = GATEWAY_NOT_READY
     then Inr (b\<lparr>b_ban_until := max (b_ban_until b) (oms_now s + reject_timeout s)\<rparr>, s)
     else process X gws info (b, s))"

definition apply_order_ack ::
  "'g ext \<Rightarrow> 'g gateways \<Rightarrow> info \<Rightarrow> oms_order \<Rightarrow> order_ack \<Rightarrow> book \<times> oms \<Rightarrow>
   (book \<times> oms) res" where
  "apply_order_ack X gws info ord u r =
     ensure (o_order_id ord = oa_order_id u)
      (if oa_request_status u = REJECTED then
         rbind
           (rbind
             (case oa_request_type u of
                CANCEL_ORDER \<Rightarrow> order_cancel_reject ord u r
              | CREATE_ORDER \<Rightarrow> order_create_reject X ord u r
              | MODIFY_ORDER \<Rightarrow> order_modify_reject ord u r
              | RT_UNDEFINED \<Rightarrow> Inr r)
             (order_too_late u))
           (ban_or_process X gws info u)
       else if oa_request_status u = ACCEPTED then order_accept ord u r
       else if oa_request_status u = FORWARDED then order_fwd ord u r
       else Inr r)"

definition on_order_ack ::
  "'g ext \<Rightarrow> order_ack \<Rightarrow> ('g, 'z) core_scheme \<Rightarrow> oms \<Rightarrow> oms res" where
  "on_order_ack X u c s =
     (case hfind (market_by_order s) (oa_order_id u) of
        None \<Rightarrow> Inr s
      | Some key \<Rightarrow>
          (case get_book key (c_markets c) s of
             None \<Rightarrow> Inr s
           | Some (k, b, info) \<Rightarrow>
               (case hfind (b_orders b) (oa_order_id u) of
                  None \<Rightarrow> Inr s
                | Some ord \<Rightarrow>
                    rbind (apply_order_ack X (c_gateways c) info ord u (b, s))
                      (\<lambda>(b', s'). Inr (store_book (x_layout X) k b' s')))))"

text \<open>
  What an \<open>OrderUpdate\<close> does to the order and its book, up to the call of the trade handler.
\<close>

definition apply_order_update ::
  "'g ext \<Rightarrow> order_update \<Rightarrow> book \<times> oms \<Rightarrow> (trade option \<times> book \<times> oms) res" where
  "apply_order_update X u = (\<lambda>(b, s).
     let (ord, is_new, b1) = emplace_order (x_layout X) (ou_order_id u) b;
         silent = (\<lambda>r. Inr (None, r)) in
     ensure (o_order_id ord = ou_order_id u)
      (if ou_update_type u = STALE then rbind (erase_order X (ou_order_id u) (b1, s)) silent
       else if is_new then
         (let ord1 = downloaded_order ord u;
              b2 = put_order (ou_order_id u) ord1 b1;
              s1 = s\<lparr>market_by_order :=
                       hput (x_layout X) (o_order_id ord1) (book_key b2) (market_by_order s)\<rparr> in
          if ou_order_status u \<noteq> WORKING
          then rbind (erase_order X (o_order_id ord1) (b2, s1)) silent
          else silent (b2, s1))
       else
         (case ou_order_status u of
            WORKING \<Rightarrow> order_confirm X ord u (b1, s)
          | COMPLETED \<Rightarrow> order_complete X ord u (b1, s)
          | CANCELED \<Rightarrow> rbind (order_canceled X ord u (b1, s)) silent
          | OS_REJECTED \<Rightarrow> rbind (erase_order X (o_order_id ord) (b1, s)) silent
          | _ \<Rightarrow> silent (b1, s))))"

text \<open>
  The handler of trades, \<open>oms::Handler\<close>, is a function \<open>cb\<close> on the whole state: it may call back
  into the order manager.  The book and its market are references of the code, looked up again
  after the call.
\<close>

definition process_stored ::
  "'g ext \<Rightarrow> book_ident \<Rightarrow> info \<Rightarrow> ('g, 'z) core_scheme \<times> oms \<Rightarrow> (('g, 'z) core_scheme \<times> oms) res"
  where
  "process_stored X k info = (\<lambda>(c, s).
     case (hfind3 (books s) k, get_market (info_market info) (c_markets c)) of
       (Some b, Some info) \<Rightarrow>
         rbind (process X (c_gateways c) info (b, s)) (\<lambda>(b1, s1).
           Inr (c, store_book (x_layout X) k b1 s1))
     | _ \<Rightarrow> Inl Undefined_Behaviour)"

definition on_order_update ::
  "'g ext \<Rightarrow> (trade \<Rightarrow> ('g, 'z) core_scheme \<times> oms \<Rightarrow> (('g, 'z) core_scheme \<times> oms) res) \<Rightarrow>
     order_update \<Rightarrow> ('g, 'z) core_scheme \<times> oms \<Rightarrow> (('g, 'z) core_scheme \<times> oms) res" where
  "on_order_update X cb u = (\<lambda>(c, s).
     case get_book (no_oms_market\<lparr>om_symbol := ou_symbol u, om_exchange := ou_exchange u,
                                  om_account := ou_account u, om_strategy := ou_strategy_id u\<rparr>)
            (c_markets c) s of
       None \<Rightarrow> Inr (c, s)
     | Some (k, b, info) \<Rightarrow>
         rbind (apply_order_update X u (b, s)) (\<lambda>(t, b1, s1).
           let s2 = store_book (x_layout X) k b1 s1 in
           rbind (case t of None \<Rightarrow> Inr (c, s2) | Some t \<Rightarrow> cb t (c, s2))
             (process_stored X k info)))"

definition oms_on_position_update ::
  "'g ext \<Rightarrow> message_info \<Rightarrow> position_update \<Rightarrow> ('g, 'z) core_scheme \<times> oms \<Rightarrow> ('g, 'z) core_scheme \<times> oms"
  where
  "oms_on_position_update X e u = (\<lambda>(c, s).
     let (p, pm) = get_portfolio_by_account (x_layout X) (pu_account u) (pu_exchange u) (c_portfolios c);
         c1 = c\<lparr>c_portfolios := pm\<rparr> in
     case p of
       None \<Rightarrow> (c1, s)
     | Some p \<Rightarrow>
         (case get_book (no_oms_market\<lparr>om_symbol := pu_symbol u, om_exchange := pu_exchange u,
                                       om_account := pu_account u, om_strategy := p_portfolio p\<rparr>)
                 (c_markets c1) s of
            None \<Rightarrow> (c1, s)
          | Some (k, b, info) \<Rightarrow>
              (let new_position = pu_long_quantity u - pu_short_quantity u;
                   b1 = b\<lparr>b_position_by_account := new_position\<rparr>;
                   b2 = (if \<not> gw_is_downloading X (mi_source e) (c_gateways c1) \<and>
                            pm_position_source (c_portfolios c1) = PS_PORTFOLIO
                         then b1\<lparr>b_position_by_account := new_position,
                                 b_last_position_modify_time := oms_now s\<rparr>
                         else b1) in
               (c1, store_book (x_layout X) k b2 s))))"

definition on_download_begin ::
  "'g ext \<Rightarrow> string \<Rightarrow> ('g, 'z) core_scheme \<Rightarrow> oms \<Rightarrow> oms res" where
  "on_download_begin X account c s =
     (if account = [] then Inr s
      else
        get_books X (c_markets c) (\<lambda>_ (b, s).
          Inr (if b_account b = account
               then erase_all_orders X
                      (b\<lparr>b_position_by_orders := Fin 0, b_position_by_account := Fin 0\<rparr>, s)
               else (b, s))) s)"

definition on_download_end ::
  "'g ext \<Rightarrow> string \<Rightarrow> order_ident \<Rightarrow> ('g, 'z) core_scheme \<Rightarrow> oms \<Rightarrow> oms res" where
  "on_download_end X account max_id c s =
     (let s1 = s\<lparr>max_order_id := max (max_order_id s) max_id\<rparr> in
      if account \<noteq> [] then
        get_books X (c_markets c) (\<lambda>_ (b, s).
          Inr (if b_account b = account
               then b\<lparr>b_position_by_orders := b_position_by_account b,
                      b_last_position_modify_time := oms_now s\<rparr>
               else b, s)) s1
      else Inr s1)"

definition on_rate_limit ::
  "'g ext \<Rightarrow> message_info \<Rightarrow> buffer_capacity \<Rightarrow> time \<Rightarrow> ('g, 'z) core_scheme \<Rightarrow> oms \<Rightarrow> oms res" where
  "on_rate_limit X e capacity ban_expires c s =
     (case capacity of
        FULL \<Rightarrow>
          get_books X (c_markets c) (\<lambda>_ (b, s).
            Inr (if mi_source_name e = b_exchange b
                 then b\<lparr>b_ban_until := max (oms_now s) ban_expires\<rparr> else b, s)) s
      | _ \<Rightarrow> Inr s)"

definition oms_on_parameters ::
  "'g ext \<Rightarrow> parameter list \<Rightarrow> ('g, 'z) core_scheme \<times> oms \<Rightarrow> (('g, 'z) core_scheme \<times> oms) res" where
  "oms_on_parameters X =
     rfold (\<lambda>p (c, s).
       if fst (split_prefix (par_label p) (CHR '':'')) \<noteq> ''oms'' then Inr (c, s)
       else
         (let key =
            \<lparr>om_market = get_market_ident (par_symbol p) (par_exchange p) (c_markets c),
             om_symbol = par_symbol p, om_exchange = par_exchange p, om_account = par_account p,
             om_portfolio = par_strategy_id p, om_portfolio_name = [],
             om_strategy = par_strategy_id p, om_trade_gateway_name = []\<rparr> in
          rbind (emplace_book (x_layout X) key (c_markets c, s)) (\<lambda>(k, b, _, ms1, s1).
          rbind (book_parameter p b) (\<lambda>b1.
            Inr (c\<lparr>c_markets := ms1\<rparr>, store_book (x_layout X) k b1 s1)))))"

definition clear_targets :: "side \<Rightarrow> book \<Rightarrow> book" where
  "clear_targets side b =
     (case get_levels side b of
        Inl _ \<Rightarrow> b
      | Inr ls \<Rightarrow>
          put_levels side
            (map (\<lambda>(i, l). (i, l\<lparr>lv_target_quantity := Fin 0, lv_exec_inst := {}\<rparr>)) ls) b)"

definition set_targets :: "'g ext \<Rightarrow> side \<Rightarrow> exec_quote list \<Rightarrow> book \<Rightarrow> book res" where
  "set_targets X side =
     rfold (\<lambda>q b.
       if exec_quote_empty q then Inr b
       else
         rbind (emplace_level X side (eq_price q) b) (\<lambda>(i, l, _, b1).
           Inr (put_level side i
             (l\<lparr>lv_target_quantity := eq_volume q, lv_exec_inst := eq_exec_inst q\<rparr>) b1)))"

definition on_target_quotes ::
  "'g ext \<Rightarrow> quotes \<Rightarrow> ('g, 'z) core_scheme \<times> oms \<Rightarrow> (('g, 'z) core_scheme \<times> oms) res" where
  "on_target_quotes X tq = (\<lambda>(c, s).
     ensure (qs_account tq \<noteq> [])
      (rbind (emplace_market (x_layout X)
                \<lparr>m_market = qs_market tq, m_symbol = qs_symbol tq, m_exchange = qs_exchange tq,
                 m_account = [], m_strategy_id = 0\<rparr> (c_markets c)) (\<lambda>(info, _, ms1).
        let c1 = c\<lparr>c_markets := ms1\<rparr> in
        if isnan (info_tick_size info) then Inr (c1, s)
        else
          (let key = oms_market_merge info
                 (no_oms_market\<lparr>om_account := qs_account tq, om_portfolio := qs_portfolio tq,
                                om_strategy := qs_strategy tq\<rparr>) in
           rbind (emplace_book (x_layout X) key (ms1, s)) (\<lambda>(k, b, _, ms2, s1).
           rbind (set_tick_size (info_tick_size info) b) (\<lambda>b1.
             ensure (b_exchange b1 = qs_exchange tq)
              (ensure (b_symbol b1 = qs_symbol tq)
                (rbind (set_targets X BUY (qs_buy tq) (clear_targets BUY b1)) (\<lambda>b2.
                 rbind (set_targets X SELL (qs_sell tq) (clear_targets SELL b2)) (\<lambda>b3.
                 rbind (get_books X ms2 (process X (c_gateways c1)) (store_book (x_layout X) k b3 s1))
                   (\<lambda>s2. Inr (c1\<lparr>c_markets := ms2\<rparr>, s2)))))))))))) "

lemma reply_order_id [simp]:
  "o_order_id (create_rejected ord u) = o_order_id ord"
  "o_order_id (modify_rejected ord u) = o_order_id ord"
  "o_order_id (cancel_rejected ord) = o_order_id ord"
  "o_order_id (confirmed_order ord v) = o_order_id ord"
  "o_order_id (completed_order ord v) = o_order_id ord"
  "o_order_id (canceled_order ord v) = o_order_id ord"
  "o_order_id (downloaded_order ord v) = ou_order_id v"
  by (simp_all add: create_rejected_def modify_rejected_def cancel_rejected_def confirmed_order_def
      completed_order_def canceled_order_def downloaded_order_def Let_def)

end
