(* ===== verification/Examples.thy ===== *)
theory Examples
  imports Oms_Manager
begin

text \<open>
  A concrete environment and small concrete states, at which the properties of the other theories
  are evaluated: hash containers that keep their order, an exact comparison of doubles, a gateway
  that is always ready and a dispatcher that accepts every request; one gateway, one market with
  tick size 1, and a book with two working buy orders.
\<close>

definition plain_ext :: "unit ext" where
  "plain_ext =
     \<lparr>x_layout = (\<lambda>n. [0..<n]), x_send = (\<lambda>_. None),
      x_compare = (\<lambda>x y. if x < y then Less else if y < x then Greater else Equal),
      x_gw_new = (), x_gw_ready = (\<lambda>_ _. True), x_gw_ready_account = (\<lambda>_ _ _. True),
      x_gw_downloading = (\<lambda>_. False), x_gw_account_downloading = (\<lambda>_ _. Some False)\<rparr>"

lemma plain_simps [simp]:
  "x_layout plain_ext n = [0..<n]" "x_send plain_ext r = None"
  "x_compare plain_ext x y = (if x < y then Less else if y < x then Greater else Equal)"
  "x_gw_ready plain_ext g m = True" "x_gw_ready_account plain_ext g m a = True"
  "x_gw_downloading plain_ext g = False" "x_gw_account_downloading plain_ext g a = Some False"
  by (simp_all add: plain_ext_def)

lemma plain_compare_ok: "compare_ok plain_ext"
  by (simp add: compare_ok_def)

definition demo_gateways :: "unit gateways" where
  "demo_gateways =
     \<lparr>gateway_by_id = [(0, \<lparr>gw_cache = (), gw_name = ''g'', gw_id = 0\<rparr>)],
      gateway_id_by_name = [(''g'', 0)]\<rparr>"

definition live_order :: "order_ident \<Rightarrow> side \<Rightarrow> double \<Rightarrow> double \<Rightarrow> oms_order" where
  "live_order i d p q =
     (let v = \<lparr>ov_type = CREATE_ORDER, ov_status = WORKING, ov_version = 1, ov_price = p,
               ov_quantity = q, ov_created_time = 0\<rparr> in
      default_order\<lparr>o_order_id := i, o_side := d, o_traded_quantity := Fin 0,
        o_remaining_quantity := q, o_pending := v\<lparr>ov_type := RT_UNDEFINED\<rparr>, o_confirmed := v,
        o_expected := v\<rparr>)"

text \<open>Orders 1 and 2 buy 5 at 100 and 5 at 101; the target is 5 at 101 only.\<close>

definition demo_book :: book where
  "demo_book =
     default_book\<lparr>b_market := 1, b_symbol := ''s'', b_exchange := ''e'', b_account := ''a'',
       b_strategy := 1, b_trade_gateway_id := 0, b_trade_gateway_name := ''g'',
       b_orders := [(1, live_order 1 BUY (Fin 100) (Fin 5)), (2, live_order 2 BUY (Fin 101) (Fin 5))],
       b_bids := [(101, default_level\<lparr>lv_price := Fin 101, lv_target_quantity := Fin 5\<rparr>)],
       b_tick_size := Fin 1\<rparr>"

definition demo_info :: info where
  "demo_info =
     default_info\<lparr>info_market := 1, info_symbol := ''s'', info_exchange := ''e'',
       info_tick_size := Fin 1\<rparr>"

definition demo_oms :: oms where
  "demo_oms =
     \<lparr>reject_timeout = 2000000000, max_order_id = 2,
      market_by_order = [(1, book_key demo_book), (2, book_key demo_book)],
      books = [(1, [(''a'', [(1, demo_book)])])],
      trade_gateway_by_account_by_exchange = [(''e'', [(''a'', ''g'')])], oms_now = 10,
      last_process = 0, sent_requests = []\<rparr>"

definition demo_markets :: markets where
  "demo_markets =
     \<lparr>last_market_id = 1, market_by_symbol_by_exchange = [(''e'', [(''s'', 1)])],
      market_by_id = [(1, demo_info)]\<rparr>"

definition demo_portfolios :: portfolios where
  "demo_portfolios =
     \<lparr>pm_position_source = PS_ORDERS, last_portfolio_id = 1,
      portfolios_by_id = [(1, \<lparr>p_portfolio = 1, p_portfolio_name = ''p'', p_positions = []\<rparr>)],
      portfolio_by_name = [(''p'', 1)], portfolio_by_account = [(''e'', [(''a'', 1)])]\<rparr>"

definition demo_core :: "unit core" where
  "demo_core =
     \<lparr>c_gateways = demo_gateways, c_markets = demo_markets, c_portfolios = demo_portfolios,
      c_best_quotes = []\<rparr>"


section \<open>Evaluation\<close>

lemmas hash_eval =
  hfind_def hkeys_def hset_def hput_def herase_def reorder_def hwf_def hfind3_def hput3_def
  hfind2_def hput2_def hget_or_def hentries3_def hentries2_def

lemmas demo_eval =
  demo_book_def live_order_def default_order_def default_book_def demo_oms_def demo_info_def
  default_info_def default_level_def demo_gateways_def demo_markets_def demo_portfolios_def
  demo_core_def no_version_def minus_double_def Let_def

lemmas process_eval =
  process_def resolve_trade_gateway_def gw_is_ready_account_def set_tick_size_def double_empty_def
  deq_def reset_levels_def process_again.simps accumulate_orders_def accumulate_order_def
  is_done_def is_pending_def bump_pending_def emplace_level_def level_index_def get_levels_def
  put_levels_def put_level_def can_modify_def can_cancel_def modify_order_def cancel_order_def
  send_request_def put_order_def create_orders_def create_on_level_def create_order_def
  erase_empty_levels_def level_is_empty_def can_create_def pending_of_def is_throttled_def dlt_def

end
