(* ===== verification/Oms_Safety.thy ===== *)
theory Oms_Safety
  imports Examples
begin

text \<open>
  When \<open>Manager::process\<close> returns: on a well-formed book whose prices lie on the tick grid no
  assertion of \<open>core/oms\<close> can fail, no conversion is undefined, the loop through \<open>again\<close> ends, and
  the book stays well-formed.
\<close>

section \<open>Well-formed books\<close>

definition price_grid :: "'g ext \<Rightarrow> double \<Rightarrow> double list \<Rightarrow> bool" where
  "price_grid X tick ps \<longleftrightarrow>
     \<not> isnan tick \<and> (\<forall>p\<in>set ps. \<not> isnan p \<and> level_index p tick \<noteq> None) \<and>
     (\<forall>p\<in>set ps. \<forall>q\<in>set ps. level_index p tick = level_index q tick \<longrightarrow> x_compare X p q = Equal)"

lemma price_grid_equal:
  "price_grid X tick ps \<Longrightarrow> p \<in> set ps \<Longrightarrow> q \<in> set ps \<Longrightarrow> level_index p tick = level_index q tick \<Longrightarrow>
     x_compare X p q = Equal"
  unfolding price_grid_def by blast

definition level_ok :: "double \<Rightarrow> double list \<Rightarrow> level_ident \<times> level \<Rightarrow> bool" where
  "level_ok tick ps = (\<lambda>(i, l).
     lv_price l \<in> set ps \<and> level_index (lv_price l) tick = Some i \<and>
     0 \<le> lv_target_quantity l \<and> 0 \<le> lv_expected_quantity l)"

definition order_ok :: "double list \<Rightarrow> order_ident \<times> oms_order \<Rightarrow> bool" where
  "order_ok ps = (\<lambda>(k, ord).
     o_order_id ord = k \<and> o_side ord \<noteq> SIDE_UNDEFINED \<and> ov_price (o_expected ord) \<in> set ps \<and>
     0 \<le> ov_quantity (o_expected ord) \<and>
     (ov_version (o_confirmed ord) \<noteq> 0 \<longrightarrow> \<not> isnan (ov_quantity (o_confirmed ord))))"

definition book_ok :: "'g ext \<Rightarrow> double \<Rightarrow> double list \<Rightarrow> book \<Rightarrow> bool" where
  "book_ok X tick ps b \<longleftrightarrow>
     price_grid X tick ps \<and>
     hwf (b_orders b) \<and> list_all (order_ok ps) (b_orders b) \<and>
     hwf (b_bids b) \<and> list_all (level_ok tick ps) (b_bids b) \<and>
     hwf (b_asks b) \<and> list_all (level_ok tick ps) (b_asks b)"

text \<open>What the passes over the orders and the levels leave alone.\<close>

definition same_frame :: "book \<Rightarrow> book \<Rightarrow> bool" where
  "same_frame b b' \<longleftrightarrow>
     b_market b' = b_market b \<and> b_symbol b' = b_symbol b \<and> b_exchange b' = b_exchange b \<and>
     b_account b' = b_account b \<and> b_strategy b' = b_strategy b \<and>
     b_trade_gateway_id b' = b_trade_gateway_id b \<and>
     b_trade_gateway_name b' = b_trade_gateway_name b \<and>
     b_tick_size b' = b_tick_size b \<and> b_ban_modify b' = b_ban_modify b \<and>
     b_ban_until b' = b_ban_until b \<and> b_post_cancel_timeout b' = b_post_cancel_timeout b \<and>
     b_post_fill_timeout b' = b_post_fill_timeout b \<and> b_position_by_orders b' = b_position_by_orders b"

lemma same_frame_refl [simp]: "same_frame b b"
  by (simp add: same_frame_def)

lemma same_frame_trans [trans]: "same_frame a b \<Longrightarrow> same_frame b c \<Longrightarrow> same_frame a c"
  by (simp add: same_frame_def)

lemma same_frame_put_levels [simp]: "same_frame b (put_levels s ls b') = same_frame b b'"
  by (cases s) (simp_all add: same_frame_def put_levels_def)

lemma same_frame_put_level [simp]: "same_frame b (put_level s i l b') = same_frame b b'"
  by (cases s) (simp_all add: same_frame_def put_level_def)

lemma same_frame_put_order [simp]: "same_frame b (put_order k ord b') = same_frame b b'"
  by (simp add: same_frame_def put_order_def)

lemma same_frame_bump [simp]: "same_frame b (bump_pending s b') = same_frame b b'"
  by (simp add: same_frame_def bump_pending_def)

lemma same_frame_pend [simp]: "same_frame b (b'\<lparr>b_pending := p\<rparr>) = same_frame b b'"
  by (simp add: same_frame_def )

lemma same_frame_ords [simp]: "same_frame b (b'\<lparr>b_orders := os\<rparr>) = same_frame b b'"
  by (simp add: same_frame_def )

lemma same_frame_reset [simp]: "same_frame b (reset_levels b') = same_frame b b'"
  by (simp add: same_frame_def reset_levels_def Let_def)

definition side_levels :: "side \<Rightarrow> book \<Rightarrow> levels" where
  "side_levels s b = (case s of BUY \<Rightarrow> b_bids b | SELL \<Rightarrow> b_asks b | _ \<Rightarrow> [])"

lemma get_levels_side: "s \<noteq> SIDE_UNDEFINED \<Longrightarrow> get_levels s b = Inr (side_levels s b)"
  by (cases s) (simp_all add: get_levels_def side_levels_def)

lemma book_ok_side:
  "book_ok X tick ps b \<Longrightarrow> hwf (side_levels s b) \<and> list_all (level_ok tick ps) (side_levels s b)"
  by (cases s) (simp_all add: book_ok_def side_levels_def hd.wf_empty)

lemma book_ok_put_levels:
  "book_ok X tick ps b \<Longrightarrow> hwf ls \<Longrightarrow> list_all (level_ok tick ps) ls \<Longrightarrow>
     book_ok X tick ps (put_levels s ls b)"
  by (cases s) (simp_all add: book_ok_def put_levels_def)

lemma put_level_levels: "put_level s i l b = put_levels s (hset i l (side_levels s b)) b"
  by (cases s) (simp_all add: put_level_def put_levels_def side_levels_def)

lemma list_all_hset: "list_all P m \<Longrightarrow> P (i, l) \<Longrightarrow> list_all P (hset i l m)"
  by (auto simp: list_all_iff hset_def)

lemma list_all_hput: "list_all P m \<Longrightarrow> P (i, l) \<Longrightarrow> list_all P (hput L i l m)"
  by (simp add: hput_def list_all_hset) (simp add: list_all_iff)

lemma list_all_hfind: "list_all P m \<Longrightarrow> hfind m i = Some l \<Longrightarrow> P (i, l)"
  by (auto simp: list_all_iff hfind_eq dest: map_of_SomeD)

lemma book_ok_put_level:
  assumes "book_ok X tick ps b" "level_ok tick ps (i, l)"
  shows "book_ok X tick ps (put_level s i l b)"
  unfolding put_level_levels using assms book_ok_side [OF assms(1), of s]
  by (intro book_ok_put_levels) (simp_all add: list_all_hset)

lemma side_levels_put [simp]: "s \<noteq> SIDE_UNDEFINED \<Longrightarrow> side_levels s (put_levels s ls b) = ls"
  by (cases s) (simp_all add: side_levels_def put_levels_def)

text \<open>A level for a price of the grid is always found or made.\<close>

lemma emplace_level_total:
  assumes ok: "book_ok X tick ps b" and tick: "b_tick_size b = tick"
    and s: "s \<noteq> SIDE_UNDEFINED" and p: "p \<in> set ps"
  obtains i l new b' where "emplace_level X s p b = Inr (i, l, new, b')" "book_ok X tick ps b'"
    "same_frame b b'" "b_orders b' = b_orders b" "level_ok tick ps (i, l)" "b_pending b' = b_pending b"
proof -
  have grid: "price_grid X tick ps" using ok by (simp add: book_ok_def)
  then have nn: "\<not> isnan p" "\<not> isnan tick" and "level_index p tick \<noteq> None"
    using p unfolding price_grid_def by blast+
  then obtain j where "level_index p tick = Some j" by blast
  with nn obtain i where i: "level_index p tick = Some i" "\<not> isnan p" "\<not> isnan tick" by simp
  note lv = book_ok_side [OF ok, of s]
  show thesis
  proof (cases "hfind (side_levels s b) i")
    case (Some l)
    then have lok: "level_ok tick ps (i, l)" using list_all_hfind [OF conjunct2 [OF lv]] by simp
    then have "x_compare X (lv_price l) p = Equal"
      by (intro price_grid_equal [OF grid _ p]) (simp_all add: level_ok_def i)
    then have "emplace_level X s p b = Inr (i, l, False, b)"
      unfolding emplace_level_def get_levels_side [OF s] double_empty_def tick i(1)
      by (simp add: Some i)
    with that [of i l False b] lok ok show thesis by simp
  next
    case None
    let ?l = "default_level\<lparr>lv_price := p\<rparr>"
    have lok: "level_ok tick ps (i, ?l)"
      using p i by (simp add: level_ok_def default_level_def zero_double_def)
    have "emplace_level X s p b = Inr (i, ?l, True, put_levels s (hput (x_layout X) i ?l (side_levels s b)) b)"
      unfolding emplace_level_def get_levels_side [OF s] double_empty_def tick i(1)
      by (simp add: None i Let_def)
    moreover have "book_ok X tick ps (put_levels s (hput (x_layout X) i ?l (side_levels s b)) b)"
      using ok lv lok by (intro book_ok_put_levels) (simp_all add: hd.wf_put list_all_hput)
    moreover have "b_pending (put_levels s ls b) = b_pending b" for ls
      by (cases s) (simp_all add: put_levels_def)
    ultimately show thesis using that lok by simp
  qed
qed


section \<open>Each pass returns\<close>

lemma book_ok_pending [simp]:
  "book_ok X tick ps (b\<lparr>b_pending := p\<rparr>) = book_ok X tick ps b"
  "book_ok X tick ps (bump_pending s b) = book_ok X tick ps b"
  by (simp_all add: book_ok_def bump_pending_def)

lemma b_orders_pending [simp]: "b_orders (bump_pending s b) = b_orders b"
  by (simp add: bump_pending_def)

lemma same_frame_tick: "same_frame b b' \<Longrightarrow> b_tick_size b' = b_tick_size b"
  by (simp add: same_frame_def)

lemma accumulate_order_total:
  assumes ok: "book_ok X tick ps b" and tick: "b_tick_size b = tick" and ord: "order_ok ps (k, ord)"
  obtains b' where "accumulate_order X ord b = Inr b'" "book_ok X tick ps b'" "same_frame b b'"
    "b_orders b' = b_orders b"
proof (cases "is_done ord")
  case True
  with that [of b] ok show thesis by (simp add: accumulate_order_def)
next
  case False
  have o: "o_side ord \<noteq> SIDE_UNDEFINED" "ov_price (o_expected ord) \<in> set ps"
    "0 \<le> ov_quantity (o_expected ord)"
    using ord by (simp_all add: order_ok_def)
  let ?b1 = "if is_pending ord then bump_pending (o_side ord) b else b"
  have 1: "book_ok X tick ps ?b1" "b_tick_size ?b1 = tick" "same_frame b ?b1" "b_orders ?b1 = b_orders b"
    using ok tick by (simp_all add: bump_pending_def) 
  obtain i l new b2 where
    e: "emplace_level X (o_side ord) (ov_price (o_expected ord)) ?b1 = Inr (i, l, new, b2)"
      "book_ok X tick ps b2" "same_frame ?b1 b2" "b_orders b2 = b_orders ?b1" "level_ok tick ps (i, l)"
    using emplace_level_total [OF 1(1,2) o(1,2)] by metis
  let ?l = "l\<lparr>lv_expected_quantity := lv_expected_quantity l + ov_quantity (o_expected ord),
              lv_confirmed_quantity := lv_confirmed_quantity l + ov_quantity (o_confirmed ord)\<rparr>"
  have "level_ok tick ps (i, ?l)"
    using e(5) o(3) by (simp add: level_ok_def double_add_nonneg)
  moreover have "\<not> isnan (lv_expected_quantity l)"
    using e(5) by (simp add: level_ok_def nonneg_not_nan)
  moreover have "same_frame b b2" using same_frame_trans [OF 1(3) e(3)] .
  ultimately show thesis
    using that [of "put_level (o_side ord) i ?l b2"] e 1 o(3) False
    by (simp add: accumulate_order_def Let_def nonneg_not_nan book_ok_put_level)
qed

lemma accumulate_orders_total:
  assumes ok: "book_ok X tick ps b" and tick: "b_tick_size b = tick"
  obtains b' where "accumulate_orders X b = Inr b'" "book_ok X tick ps b'" "same_frame b b'"
    "b_orders b' = b_orders b"
proof -
  let ?I = "\<lambda>b'. book_ok X tick ps b' \<and> same_frame b b' \<and> b_orders b' = b_orders b"
  have "\<exists>b'. accumulate_orders X b = Inr b' \<and> ?I b'"
    unfolding accumulate_orders_def
  proof (rule rfold_total [where I = ?I])
    show "?I (b\<lparr>b_pending := (0, 0)\<rparr>)" using ok by simp
  next
    fix e b'
    assume e: "e \<in> set (b_orders b)" and I: "?I b'"
    obtain k ord where eq: "e = (k, ord)" by (cases e)
    have "order_ok ps (k, ord)" using ok e eq by (auto simp: book_ok_def list_all_iff)
    moreover have "b_tick_size b' = tick" using I tick same_frame_tick by metis
    ultimately obtain b'' where "accumulate_order X ord b' = Inr b''" "book_ok X tick ps b''"
      "same_frame b' b''" "b_orders b'' = b_orders b'"
      using I accumulate_order_total by metis
    then show "\<exists>b''. (case e of (_, ord) \<Rightarrow> accumulate_order X ord) b' = Inr b'' \<and> ?I b''"
      using I eq same_frame_trans by auto
  qed
  then show thesis using that by blast
qed

lemma find_new_level_total:
  assumes cmp: "compare_ok X" and lv: "list_all (level_ok tick ps) ls" "\<not> isnan (ov_quantity (o_confirmed ord))"
  shows "\<exists>r. find_new_level X True True ord ls = Inr r \<and>
     (\<forall>q p. r = Some (q, p) \<longrightarrow> 0 \<le> q \<and> p \<in> set ps)"
  using lv
proof (induction ls)
  case Nil
  then show ?case by simp
next
  case (Cons e ls)
  obtain i l where e: "e = (i, l)" by (cases e)
  have l: "0 \<le> lv_target_quantity l" "0 \<le> lv_expected_quantity l" "lv_price l \<in> set ps"
    using Cons.prems e by (simp_all add: level_ok_def)
  show ?case
  proof (cases "x_compare X (lv_target_quantity l) (lv_expected_quantity l) = Greater")
    case True
    then have "0 \<le> lv_target_quantity l - lv_expected_quantity l"
      using compare_greater [OF cmp] double_diff_nonneg l by blast
    with True l e Cons.prems show ?thesis by (simp add: nonneg_not_nan)
  next
    case False
    with Cons e l show ?thesis by (simp add: nonneg_not_nan)
  qed
qed


text \<open>What the gateway must support once it accepts new orders, and that sending does not throw.\<close>

definition can_request :: "'g ext \<Rightarrow> 'g gateways \<Rightarrow> book \<Rightarrow> bool" where
  "can_request X gws b \<longleftrightarrow>
     gw_is_ready_account X {ST_MODIFY_ORDER} (b_trade_gateway_id b) (b_account b) gws \<and>
     gw_is_ready_account X {ST_CANCEL_ORDER} (b_trade_gateway_id b) (b_account b) gws"

definition sends_ok :: "'g ext \<Rightarrow> bool" where
  "sends_ok X \<longleftrightarrow> (\<forall>r. x_send X r = None)"

lemma can_request_frame: "same_frame b b' \<Longrightarrow> can_request X gws b' = can_request X gws b"
  by (simp add: same_frame_def can_request_def)

lemma send_request_ok: "sends_ok X \<Longrightarrow> send_request X r g s = Inr (s\<lparr>sent_requests := sent_requests s @ [(r, g)]\<rparr>)"
  by (simp add: send_request_def sends_ok_def)

lemma book_ok_put_order:
  "book_ok X tick ps b \<Longrightarrow> order_ok ps (k, ord) \<Longrightarrow> book_ok X tick ps (put_order k ord b)"
  by (simp add: book_ok_def put_order_def list_all_hset)

text \<open>What a pass that returns guarantees of the book and the state it leaves.\<close>

definition pass_ok :: "'g ext \<Rightarrow> double \<Rightarrow> double list \<Rightarrow> book \<times> oms \<Rightarrow> book \<times> oms \<Rightarrow> bool" where
  "pass_ok X tick ps = (\<lambda>(b, s) (b', s').
     book_ok X tick ps b' \<and> same_frame b b' \<and> max_order_id s' = max_order_id s \<and>
     hkeys (b_orders b') = hkeys (b_orders b) \<and> oms_now s' = oms_now s)"

lemma pass_ok_trans: "pass_ok X tick ps r1 r2 \<Longrightarrow> pass_ok X tick ps r2 r3 \<Longrightarrow> pass_ok X tick ps r1 r3"
  by (cases r1, cases r2, cases r3) (auto simp: pass_ok_def intro: same_frame_trans)

definition runs_ok :: "'g ext \<Rightarrow> double \<Rightarrow> double list \<Rightarrow> book \<times> oms \<Rightarrow> (bool \<times> book \<times> oms) res \<Rightarrow> bool" where
  "runs_ok X tick ps r m = (\<exists>again r'. m = Inr (again, r') \<and> pass_ok X tick ps r r')"

lemma runs_ok_trans: "pass_ok X tick ps r1 r2 \<Longrightarrow> runs_ok X tick ps r2 m \<Longrightarrow> runs_ok X tick ps r1 m"
  unfolding runs_ok_def by (elim exE conjE, intro exI conjI, assumption, rule pass_ok_trans)

lemma runs_ok_Inr [simp]: "runs_ok X tick ps r (Inr (again, r')) = pass_ok X tick ps r r'"
  by (simp add: runs_ok_def)

lemma modify_order_total:
  assumes "book_ok X tick ps b" "can_request X gws b" "sends_ok X" "order_ok ps (k, ord)" "0 \<le> q" "p \<in> set ps"
  shows "runs_ok X tick ps (b, s) (rbind (modify_order X gws k ord q p (b, s)) (\<lambda>r. Inr (True, r)))"
proof -
  let ?p = "(o_pending ord)\<lparr>ov_version := ov_version (o_pending ord) + 1, ov_type := MODIFY_ORDER,
              ov_price := p, ov_quantity := q\<rparr>"
  let ?b = "put_order k (ord\<lparr>o_pending := ?p, o_expected := ?p\<rparr>) b"
  have "order_ok ps (k, ord\<lparr>o_pending := ?p, o_expected := ?p\<rparr>)"
    using assms(4-6) by (simp add: order_ok_def)
  then have "book_ok X tick ps ?b" by (rule book_ok_put_order [OF assms(1)])
  moreover have "hkeys (b_orders ?b) = hkeys (b_orders b)" by (simp add: put_order_def)
  ultimately show ?thesis
    using assms(2)
    by (simp add: modify_order_def Let_def can_request_def send_request_ok [OF assms(3)] pass_ok_def)
qed

lemma cancel_order_total:
  assumes "book_ok X tick ps b" "can_request X gws b" "sends_ok X" "order_ok ps (k, ord)"
    "(k, ord) \<in> set (b_orders b)"
  shows "runs_ok X tick ps (b, s) (rbind (cancel_order X gws k ord (b, s)) (\<lambda>r. Inr (True, r)))"
proof -
  let ?p = "(o_pending ord)\<lparr>ov_version := ov_version (o_pending ord) + 1, ov_type := CANCEL_ORDER,
              ov_price := ov_price (o_expected ord), ov_quantity := Fin 0\<rparr>"
  let ?b = "put_order k (ord\<lparr>o_pending := ?p, o_expected := ?p\<rparr>) b"
  have "order_ok ps (k, ord\<lparr>o_pending := ?p, o_expected := ?p\<rparr>)"
    using assms(4) by (simp add: order_ok_def zero_double_def)
  then have "book_ok X tick ps ?b" by (rule book_ok_put_order [OF assms(1)])
  moreover have "hkeys (b_orders ?b) = hkeys (b_orders b)" by (simp add: put_order_def)
  moreover have "\<exists>w. hfind (b_orders b) (o_order_id ord) = Some w"
    using assms(1,4,5) hd.in_entries [of "b_orders b" k ord] by (auto simp: book_ok_def order_ok_def)
  ultimately show ?thesis
    using assms(2)
    by (auto simp: cancel_order_def Let_def can_request_def send_request_ok [OF assms(3)] pass_ok_def)
qed

lemma can_modify_both: "can_modify X gws b ord = (cp, cv) \<Longrightarrow> cp = cv"
  by (auto simp: can_modify_def split: if_splits)

lemma can_modify_confirmed:
  "can_modify X gws b ord = (cp, cv) \<Longrightarrow> cp \<or> cv \<Longrightarrow> ov_version (o_confirmed ord) \<noteq> 0"
  by (auto simp: can_modify_def split: if_splits)

lemma scan_orders_total:
  assumes "book_ok X tick ps b" "b_tick_size b = tick" "can_request X gws b" "sends_ok X" "compare_ok X"
    "set os \<subseteq> set (b_orders b)"
  shows "runs_ok X tick ps (b, s) (scan_orders X gws os (b, s))"
  using assms
proof (induction os arbitrary: b)
  case Nil
  then show ?case by (simp add: pass_ok_def)
next
  case (Cons e os)
  obtain k ord where e: "e = (k, ord)" by (cases e)
  have ord: "order_ok ps (k, ord)" "o_side ord \<noteq> SIDE_UNDEFINED" "ov_price (o_expected ord) \<in> set ps"
    using Cons.prems(1,6) e by (auto simp: book_ok_def list_all_iff order_ok_def)
  obtain i l new b1 where lev: "emplace_level X (o_side ord) (ov_price (o_expected ord)) b = Inr (i, l, new, b1)"
    "book_ok X tick ps b1" "same_frame b b1" "b_orders b1 = b_orders b"
    using emplace_level_total [OF Cons.prems(1,2) ord(2,3)] by metis
  have b1: "b_tick_size b1 = tick" "can_request X gws b1" "set os \<subseteq> set (b_orders b1)" "(k, ord) \<in> set (b_orders b1)"
    using lev(3,4) Cons.prems e by (auto simp: same_frame_tick can_request_frame)
  have p1: "pass_ok X tick ps (b, s) (b1, s)" using lev by (simp add: pass_ok_def)
  note rest = runs_ok_trans [OF p1 Cons.IH [OF lev(2) b1(1,2) Cons.prems(4,5) b1(3)]]
  note cancel = runs_ok_trans [OF p1 cancel_order_total [OF lev(2) b1(2) Cons.prems(4) ord(1) b1(4)]]
  note modify = runs_ok_trans [OF p1 modify_order_total [OF lev(2) b1(2) Cons.prems(4) ord(1)]]
  obtain cp cv where cm: "can_modify X gws b1 ord = (cp, cv)" by (cases "can_modify X gws b1 ord")
  have "runs_ok X tick ps (b, s) (scan_orders X gws ((k, ord) # os) (b, s))"
  proof (cases "x_compare X (lv_expected_quantity l) (lv_target_quantity l) = Greater")
    case False
    with lev(1) rest show ?thesis by simp
  next
    case True
    show ?thesis
    proof (cases "cp \<or> cv")
      case False
      with True lev(1) rest cancel cm show ?thesis by simp
    next
      case t: True
      have cc: "cp" "cv" using t can_modify_both [OF cm] by auto
      have "\<not> isnan (ov_quantity (o_confirmed ord))"
        using can_modify_confirmed [OF cm t] ord(1) by (simp add: order_ok_def)
      then obtain r where r: "find_new_level X True True ord (side_levels (o_side ord) b1) = Inr r"
        "\<forall>q p. r = Some (q, p) \<longrightarrow> 0 \<le> q \<and> p \<in> set ps"
        using find_new_level_total [OF Cons.prems(5) conjunct2 [OF book_ok_side [OF lev(2)]]] by blast
      show ?thesis
      proof (cases r)
        case None
        with True lev(1) rest cancel cm cc r(1) show ?thesis by (simp add: get_levels_side [OF ord(2)])
      next
        case (Some qp)
        obtain q p where qp: "qp = (q, p)" by (cases qp)
        with Some r(2) have "0 \<le> q" "p \<in> set ps" by simp_all
        from modify [OF this] Some qp True lev(1) cm cc r(1) show ?thesis
          by (simp add: get_levels_side [OF ord(2)])
      qed
    qed
  qed
  then show ?case unfolding e .
qed

lemma process_again_total:
  assumes "book_ok X tick ps b" "b_tick_size b = tick" "can_request X gws b" "sends_ok X" "compare_ok X"
  shows "\<exists>r. process_again X gws (b, s) = Inr r \<and> pass_ok X tick ps (b, s) r"
  using assms
proof (induction X gws "(b, s)" arbitrary: b s rule: process_again.induct)
  case (1 X gws b s)
  obtain b1 where acc: "accumulate_orders X b = Inr b1" "book_ok X tick ps b1" "same_frame b b1"
    "b_orders b1 = b_orders b"
    using accumulate_orders_total [OF "1.prems"(1,2)] by metis
  have b1: "b_tick_size b1 = tick" "can_request X gws b1"
    using acc(3) "1.prems" by (auto simp: same_frame_tick can_request_frame)
  have p1: "pass_ok X tick ps (b, s) (b1, s)" using acc by (simp add: pass_ok_def)
  obtain again b2 s2 where sc: "scan_orders X gws (b_orders b1) (b1, s) = Inr (again, b2, s2)"
    "pass_ok X tick ps (b1, s) (b2, s2)"
    using scan_orders_total [OF acc(2) b1 "1.prems"(4,5) order_refl, of s] unfolding runs_ok_def by auto
  have p2: "pass_ok X tick ps (b, s) (b2, s2)" by (rule pass_ok_trans [OF p1 sc(2)])
  then have b2: "book_ok X tick ps b2" "b_tick_size b2 = tick" "can_request X gws b2"
    using "1.prems" by (auto simp: pass_ok_def same_frame_tick can_request_frame)
  show ?case
  proof (cases again)
    case False
    with acc sc p2 show ?thesis by (simp add: process_again.simps [of X gws b s])
  next
    case True
    from "1.hyps" [OF acc(1) sc(1) refl True b2 "1.prems"(4,5)] obtain r where
      "process_again X gws (b2, s2) = Inr r" "pass_ok X tick ps (b2, s2) r" by blast
    with True acc sc pass_ok_trans [OF p2] show ?thesis by (simp add: process_again.simps [of X gws b s])
  qed
qed


text \<open>
  Creating orders: at most one for each level, so the counter of identifiers has room if it has
  room for as many identifiers as there are levels.
\<close>

definition ids_ok :: "book \<times> oms \<Rightarrow> bool" where
  "ids_ok = (\<lambda>(b, s). \<forall>i\<in>set (hkeys (b_orders b)). i \<le> max_order_id s)"

lemma word_room: "unat (w :: 64 word) + 1 < 2 ^ 64 \<Longrightarrow> w < w + 1 \<and> unat (w + 1) = unat w + 1 \<and> w + 1 \<noteq> 0"
proof -
  assume room: "unat w + 1 < 2 ^ 64"
  have u: "unat (w + 1) = unat w + 1" using room by (simp add: unat_word_ariths)
  then have "w \<noteq> - 1" by (metis add.left_inverse add_is_0 one_neq_zero unat_0)
  then have lt: "w < w + 1" by (rule word_succ_less)
  with u show ?thesis by auto
qed

lemma created_order_ok:
  "to_side t \<noteq> SIDE_UNDEFINED \<Longrightarrow> to_price t \<in> set ps \<Longrightarrow> 0 \<le> to_quantity t \<Longrightarrow>
     order_ok ps (i, created_order i t)"
  by (simp add: order_ok_def created_order_def Let_def default_order_def no_version_def)

lemma created_order_simps [simp]:
  "o_order_id (created_order i t) = i"
  "ov_version (o_pending (created_order i t)) = 1"
  "ov_quantity (o_expected (created_order i t)) = to_quantity t"
  by (simp_all add: created_order_def Let_def)

definition create_ok :: "'g ext \<Rightarrow> double \<Rightarrow> double list \<Rightarrow> nat \<Rightarrow> book \<times> oms \<Rightarrow> book \<times> oms \<Rightarrow> bool" where
  "create_ok X tick ps n = (\<lambda>(b, s) (b', s').
     book_ok X tick ps b' \<and> same_frame b b' \<and> ids_ok (b', s') \<and>
     side_levels BUY b' = side_levels BUY b \<and> side_levels SELL b' = side_levels SELL b \<and>
     unat (max_order_id s') \<le> unat (max_order_id s) + n)"

lemma create_ok_trans:
  "create_ok X tick ps m r1 r2 \<Longrightarrow> create_ok X tick ps n r2 r3 \<Longrightarrow> create_ok X tick ps (m + n) r1 r3"
  by (cases r1, cases r2, cases r3) (auto simp: create_ok_def intro: same_frame_trans)

lemma create_order_total:
  assumes ok: "book_ok X tick ps b" "can_request X gws b" "sends_ok X" "ids_ok (b, s)"
    and room: "unat (max_order_id s) + 1 < 2 ^ 64"
    and t: "to_market t = b_market b" "to_side t \<noteq> SIDE_UNDEFINED" "to_price t \<in> set ps" "0 \<le> to_quantity t"
  shows "\<exists>r. create_order X gws t (b, s) = Inr r \<and> create_ok X tick ps 1 (b, s) r"
proof -
  let ?i = "max_order_id s + 1"
  let ?b = "b\<lparr>b_orders := hput (x_layout X) ?i (created_order ?i t) (b_orders b)\<rparr>"
  let ?s1 = "s\<lparr>max_order_id := ?i\<rparr>"
  let ?s2 = "?s1\<lparr>market_by_order := hput (x_layout X) ?i (book_key ?b) (market_by_order ?s1)\<rparr>"
  let ?s3 = "?s2\<lparr>sent_requests := sent_requests ?s2 @
    [(Create (create_request_of ?b ?i t), b_trade_gateway_id ?b)]\<rparr>"
  note w = word_room [OF room]
  have fresh: "?i \<notin> set (hkeys (b_orders b))" using ok(4) w by (auto simp: ids_ok_def)
  have hw: "hwf (b_orders b)" using ok(1) by (simp add: book_ok_def)
  have "book_ok X tick ps ?b"
    using ok(1) created_order_ok [OF t(2-4), of ?i] by (simp add: book_ok_def hd.wf_put list_all_hput)
  moreover have "set (hkeys (b_orders ?b)) = insert ?i (set (hkeys (b_orders b)))"
    using fresh by (simp add: hput_def hkeys_def)
  then have "ids_ok (?b, ?s3)" using ok(4) w by (auto simp: ids_ok_def)
  ultimately have "create_ok X tick ps 1 (b, s) (?b, ?s3)"
    using w by (simp add: create_ok_def side_levels_def)
  moreover have "create_order X gws t (b, s) = Inr (?b, ?s3)"
    using ok(2) t(1,4) w fresh
    by (simp add: create_order_def Let_def can_request_def send_request_ok [OF ok(3)] hfind_None nonneg_not_nan)
  ultimately show ?thesis by blast
qed

lemma create_levels_total:
  assumes "book_ok X tick ps b" "can_request X gws b" "sends_ok X" "ids_ok (b, s)" "compare_ok X"
    and "unat (max_order_id s) + length ls < 2 ^ 64" "list_all (level_ok tick ps) ls" "side \<noteq> SIDE_UNDEFINED"
  shows "\<exists>r. rfold (create_on_level X gws info side) ls (b, s) = Inr r \<and>
    create_ok X tick ps (length ls) (b, s) r"
  using assms
proof (induction ls arbitrary: b s)
  case Nil
  then show ?case by (simp add: create_ok_def)
next
  case (Cons e ls)
  obtain i l where e: "e = (i, l)" by (cases e)
  have l: "0 \<le> lv_target_quantity l" "0 \<le> lv_expected_quantity l" "lv_price l \<in> set ps"
    using Cons.prems(7) e by (simp_all add: level_ok_def)
  let ?t = "\<lparr>to_market = b_market b, to_side = side,
     to_quantity = lv_target_quantity l - lv_expected_quantity l,
     to_price = lv_price l, to_exec_inst = lv_exec_inst l\<rparr>"
  have "\<exists>r. create_on_level X gws info side e (b, s) = Inr r \<and> create_ok X tick ps 1 (b, s) r"
  proof (cases "x_compare X (lv_target_quantity l) (lv_expected_quantity l) = Greater \<and> can_create b info ?t")
    case True
    then have "0 \<le> lv_target_quantity l - lv_expected_quantity l"
      using compare_greater [OF Cons.prems(5)] double_diff_nonneg l by blast
    then have "\<exists>r. create_order X gws ?t (b, s) = Inr r \<and> create_ok X tick ps 1 (b, s) r"
      using create_order_total [OF Cons.prems(1-4), of ?t] Cons.prems(6,8) l by simp
    with True e l show ?thesis by (simp add: create_on_level_def nonneg_not_nan Let_def)
  next
    case False
    with e l Cons.prems(1,4) show ?thesis
      by (auto simp: create_on_level_def nonneg_not_nan Let_def create_ok_def)
  qed
  then obtain b1 s1 where 1: "create_on_level X gws info side e (b, s) = Inr (b1, s1)"
    "create_ok X tick ps 1 (b, s) (b1, s1)" by auto
  then have "\<exists>r. rfold (create_on_level X gws info side) ls (b1, s1) = Inr r \<and>
    create_ok X tick ps (length ls) (b1, s1) r"
    using Cons.prems by (intro Cons.IH) (auto simp: create_ok_def can_request_frame)
  then obtain r where "rfold (create_on_level X gws info side) ls (b1, s1) = Inr r"
    "create_ok X tick ps (length ls) (b1, s1) r" by blast
  with 1 create_ok_trans [OF 1(2)] show ?case by simp
qed

text \<open>Distinct levels have distinct indices, one for each price of the grid at most.\<close>

lemma level_count:
  assumes "hwf ls" "list_all (level_ok tick ps) ls"
  shows "length ls \<le> length ps"
proof -
  let ?f = "\<lambda>p. the (level_index p tick)"
  have "set (hkeys ls) \<subseteq> ?f ` set ps"
  proof
    fix i assume "i \<in> set (hkeys ls)"
    then obtain l where "(i, l) \<in> set ls" by (auto simp: hkeys_def)
    with assms(2) have "lv_price l \<in> set ps" "level_index (lv_price l) tick = Some i"
      by (auto simp: list_all_iff level_ok_def)
    then show "i \<in> ?f ` set ps" by force
  qed
  then have "card (set (hkeys ls)) \<le> card (?f ` set ps)" by (simp add: card_mono)
  also have "\<dots> \<le> card (set ps)" by (simp add: card_image_le)
  also have "\<dots> \<le> length ps" by (rule card_length)
  finally show ?thesis
    using assms(1) by (simp add: hwf_def distinct_card) (simp add: hkeys_def)
qed

lemma create_orders_total:
  assumes ok: "book_ok X tick ps b" "can_request X gws b" "sends_ok X" "ids_ok (b, s)" "compare_ok X"
    and room: "unat (max_order_id s) + 2 * length ps < 2 ^ 64"
  shows "\<exists>r n. create_orders X gws info (b, s) = Inr r \<and> create_ok X tick ps n (b, s) r"
proof -
  note buy = book_ok_side [OF ok(1), of BUY] and sell = book_ok_side [OF ok(1), of SELL]
  have "length (side_levels BUY b) \<le> length ps" "length (side_levels SELL b) \<le> length ps"
    using level_count buy sell by blast+
  with room have room1: "unat (max_order_id s) + length (side_levels BUY b) + length (side_levels SELL b) < 2 ^ 64"
    by simp
  obtain b1 s1 where 1: "rfold (create_on_level X gws info BUY) (side_levels BUY b) (b, s) = Inr (b1, s1)"
    "create_ok X tick ps (length (side_levels BUY b)) (b, s) (b1, s1)"
    using create_levels_total [OF ok, of "side_levels BUY b" BUY info] room1 buy by auto
  have "\<exists>r. rfold (create_on_level X gws info SELL) (side_levels SELL b) (b1, s1) = Inr r \<and>
    create_ok X tick ps (length (side_levels SELL b)) (b1, s1) r"
    using 1(2) room1 sell ok by (intro create_levels_total) (auto simp: create_ok_def can_request_frame)
  then obtain b2 s2 where 2: "rfold (create_on_level X gws info SELL) (side_levels SELL b) (b1, s1) = Inr (b2, s2)"
    "create_ok X tick ps (length (side_levels SELL b)) (b1, s1) (b2, s2)" by auto
  have "side_levels SELL b1 = side_levels SELL b" using 1(2) by (simp add: create_ok_def)
  with 1 2 have "create_orders X gws info (b, s) = Inr (b2, s2)"
    by (simp add: create_orders_def get_levels_side)
  with create_ok_trans [OF 1(2) 2(2)] show ?thesis by blast
qed

lemma list_all_herase: "list_all P m \<Longrightarrow> list_all P (herase L i m)"
  by (auto simp: herase_def list_all_iff)

lemma erase_side_total:
  assumes "hwf ls" "list_all (level_ok tick ps) ls" "list_all (level_ok tick ps) es"
    "price_grid X tick ps"
  shows "\<exists>ls'. rfold (\<lambda>(i, l) ls'.
      ensure (\<not> isnan (lv_price l))
       (ensure (\<not> isnan (lv_target_quantity l))
         (ensure (\<not> isnan (lv_expected_quantity l))
           (Inr (if level_is_empty X l then herase (x_layout X) i ls' else ls'))))) es ls = Inr ls' \<and>
     (hwf ls' \<and> list_all (level_ok tick ps) ls')"
proof (rule rfold_total)
  show "hwf ls \<and> list_all (level_ok tick ps) ls" using assms by simp
next
  fix e ls' assume e: "e \<in> set es" and ls': "hwf ls' \<and> list_all (level_ok tick ps) ls'"
  obtain i l where il: "e = (i, l)" by (cases e)
  with e assms(3) have l: "level_ok tick ps (i, l)" by (auto simp: list_all_iff)
  then have "\<not> isnan (lv_price l)" using assms(4) by (simp add: level_ok_def price_grid_def)
  with l ls' il show "\<exists>s'. (case e of (i, l) \<Rightarrow> (\<lambda>ls'.
      ensure (\<not> isnan (lv_price l))
       (ensure (\<not> isnan (lv_target_quantity l))
         (ensure (\<not> isnan (lv_expected_quantity l))
           (Inr (if level_is_empty X l then herase (x_layout X) i ls' else ls')))))) ls' = Inr s' \<and>
      (hwf s' \<and> list_all (level_ok tick ps) s')"
    by (simp add: level_ok_def nonneg_not_nan hd.wf_erase list_all_herase)
qed

lemma erase_empty_levels_total:
  assumes ok: "book_ok X tick ps b"
  shows "\<exists>b'. erase_empty_levels X b = Inr b' \<and> book_ok X tick ps b' \<and> same_frame b b' \<and> b_orders b' = b_orders b"
  unfolding erase_empty_levels_def
proof (rule rfold_total)
  show "book_ok X tick ps b \<and> same_frame b b \<and> b_orders b = b_orders b" using ok by simp
next
  fix side b' assume "side \<in> set [BUY, SELL]" and I: "book_ok X tick ps b' \<and> same_frame b b' \<and> b_orders b' = b_orders b"
  then have s: "side \<noteq> SIDE_UNDEFINED" by auto
  have grid: "price_grid X tick ps" using ok by (simp add: book_ok_def)
  note lv = book_ok_side [OF conjunct1 [OF I], of side]
  from erase_side_total [OF conjunct1 [OF lv] conjunct2 [OF lv] conjunct2 [OF lv] grid]
  show "\<exists>b''. rbind (get_levels side b') (\<lambda>ls.
       rbind (rfold (\<lambda>(i, l) ls'.
           ensure (\<not> isnan (lv_price l))
            (ensure (\<not> isnan (lv_target_quantity l))
              (ensure (\<not> isnan (lv_expected_quantity l))
                (Inr (if level_is_empty X l then herase (x_layout X) i ls' else ls'))))) ls ls)
         (\<lambda>ls'. Inr (put_levels side ls' b'))) = Inr b'' \<and>
      (book_ok X tick ps b'' \<and> same_frame b b'' \<and> b_orders b'' = b_orders b)"
    using I by (auto simp: get_levels_side [OF s] book_ok_put_levels)
qed



section \<open>The whole step returns\<close>

text \<open>A gateway that takes new orders and cancellations also takes modifications.\<close>

definition requests_supported :: "'g ext \<Rightarrow> 'g gateways \<Rightarrow> string \<Rightarrow> bool" where
  "requests_supported X gws account \<longleftrightarrow>
     (\<forall>g. gw_is_ready_account X {ST_CREATE_ORDER, ST_CANCEL_ORDER} g account gws \<longrightarrow>
        gw_is_ready_account X {ST_MODIFY_ORDER} g account gws \<and>
        gw_is_ready_account X {ST_CANCEL_ORDER} g account gws)"

lemma book_ok_reset:
  "book_ok X tick ps b \<Longrightarrow> book_ok X tick ps (reset_levels b)"
  by (auto simp: book_ok_def reset_levels_def Let_def list_all_iff level_ok_def zero_double_def
      hwf_def hkeys_def comp_def case_prod_unfold)

lemma book_ok_update [simp]:
  "book_ok X tick ps (b\<lparr>b_ban_until := t\<rparr>) = book_ok X tick ps b"
  "book_ok X tick ps (b\<lparr>b_tick_size := d\<rparr>) = book_ok X tick ps b"
  "book_ok X tick ps (b\<lparr>b_trade_gateway_id := g\<rparr>) = book_ok X tick ps b"
  "book_ok X tick ps (b\<lparr>b_trade_gateway_name := n\<rparr>) = book_ok X tick ps b"
  by (simp_all add: book_ok_def)

lemma resolve_trade_gateway_keeps:
  assumes "resolve_trade_gateway gws s b = (r, b')"
  shows "book_ok X tick ps b' = book_ok X tick ps b" "b_account b' = b_account b"
    "b_tick_size b' = b_tick_size b" "b_orders b' = b_orders b" "b_ban_until b' = b_ban_until b"
    "b_market b' = b_market b"
  using assms by (auto simp: resolve_trade_gateway_def Let_def split: if_splits)

lemma set_tick_size_total:
  assumes "b_tick_size b = tick \<or> isnan (b_tick_size b)"
  obtains b' where "set_tick_size tick b = Inr b'" "b' = b\<lparr>b_tick_size := tick\<rparr>"
proof -
  have "deq tick tick" by (simp add: deq_def)
  then show thesis using assms that [of "b\<lparr>b_tick_size := tick\<rparr>"]
    by (cases "isnan (b_tick_size b)") (auto simp: set_tick_size_def Let_def double_empty_def)
qed

lemma process_total:
  assumes book: "book_ok X tick ps b" "b_tick_size b = tick \<or> isnan (b_tick_size b)"
    and info: "info_tick_size info = tick"
    and world: "requests_supported X gws (b_account b)" "sends_ok X" "compare_ok X"
    and ids: "ids_ok (b, s)" "unat (max_order_id s) + 2 * length ps < 2 ^ 64"
  shows "\<exists>b' s'. process X gws info (b, s) = Inr (b', s') \<and> book_ok X tick ps b' \<and> ids_ok (b', s')"
proof (cases "b_account b = []")
  case True
  with book ids show ?thesis by (simp add: process_def)
next
  case acc: False
  obtain resolved b1 where r: "resolve_trade_gateway gws s b = (resolved, b1)"
    by (cases "resolve_trade_gateway gws s b")
  note keep = resolve_trade_gateway_keeps [OF r]
  let ?ready = "gw_is_ready_account X {ST_CREATE_ORDER, ST_CANCEL_ORDER} (b_trade_gateway_id b1) (b_account b1) gws \<and> resolved"
  have b1: "book_ok X tick ps b1" "ids_ok (b1, s)"
    using book ids by (simp_all add: ids_ok_def keep)
  show ?thesis
  proof (cases "?ready \<and> \<not> isnan tick")
    case False
    with acc r b1 info show ?thesis by (auto simp: process_def)
  next
    case ready: True
    obtain b2 where b2: "set_tick_size tick b1 = Inr b2" "b2 = b1\<lparr>b_tick_size := tick\<rparr>"
      using set_tick_size_total [of b1 tick] book(2) keep(3) by metis
    show ?thesis
    proof (cases "oms_now s < b_ban_until b2")
      case True
      with acc r b1 b2 info ready show ?thesis by (simp add: process_def ids_ok_def)
    next
      case nban: False
      let ?b = "reset_levels (b2\<lparr>b_ban_until := 0\<rparr>)"
      have fr: "b_trade_gateway_id ?b = b_trade_gateway_id b1" "b_account ?b = b_account b1" "b_tick_size ?b = tick"
        "b_orders ?b = b_orders b1"
        by (simp_all add: reset_levels_def Let_def b2(2))
      have "book_ok X tick ps ?b" using b1(1) by (intro book_ok_reset) (simp add: b2(2))
      moreover have req: "can_request X gws ?b"
        using ready world(1) keep(2) by (simp add: can_request_def requests_supported_def fr)
      ultimately have "\<exists>r. process_again X gws (?b, s) = Inr r \<and> pass_ok X tick ps (?b, s) r"
        using fr(3) world(2,3) by (intro process_again_total)
      then obtain b3 s3 where pa: "process_again X gws (?b, s) = Inr (b3, s3)"
        "pass_ok X tick ps (?b, s) (b3, s3)"
        by auto
      have b3: "book_ok X tick ps b3" "can_request X gws b3" "ids_ok (b3, s3)" "max_order_id s3 = max_order_id s"
        using pa(2) req b1(2) fr(4) by (auto simp: pass_ok_def can_request_frame ids_ok_def)
      then obtain b4 s4 n where cr: "create_orders X gws info (b3, s3) = Inr (b4, s4)"
        "create_ok X tick ps n (b3, s3) (b4, s4)"
        using create_orders_total [OF b3(1,2) world(2) b3(3) world(3), of info] ids(2) by auto
      then have "book_ok X tick ps b4" by (simp add: create_ok_def)
      from erase_empty_levels_total [OF this] obtain b5 where er: "erase_empty_levels X b4 = Inr b5"
        "book_ok X tick ps b5" "b_orders b5 = b_orders b4" by blast
      have "process X gws info (b, s) = Inr (b5, s4)"
        using acc r ready info nban b2(1) pa(1) cr(1) er(1) by (simp add: process_def)
      moreover have "ids_ok (b5, s4)" using cr(2) er(3) by (simp add: create_ok_def ids_ok_def)
      ultimately show ?thesis using er(2) by blast
    qed
  qed
qed

text \<open>
  C1: \<open>Manager::process\<close> returns on every well-formed book: no assertion fails, no price converts
  to an undefined level index, the \<open>again\<close> loop ends, and the resulting book is well-formed again.
  The hypotheses are what the code relies on: prices on the tick grid (\<open>book_ok\<close>), the tick size of
  the book being that of the market or not yet set, a gateway that supports modifications whenever
  it supports creations and cancellations, a dispatcher that does not throw, a comparison that
  reports "greater" only for greater numbers, and room in the counter of order identifiers.
\<close>

theorem process_returns:
  assumes book: "book_ok X tick ps b" "b_tick_size b = tick \<or> isnan (b_tick_size b)"
    and info: "info_tick_size info = tick"
    and world: "requests_supported X gws (b_account b)" "sends_ok X" "compare_ok X"
    and ids: "ids_ok (b, s)" "unat (max_order_id s) + 2 * length ps < 2 ^ 64"
  shows "\<exists>b' s'. process X gws info (b, s) = Inr (b', s') \<and> book_ok X tick ps b' \<and> ids_ok (b', s')"
  by (rule process_total [OF assms])

lemma demo_book_ok: "book_ok plain_ext (Fin 1) [Fin 100, Fin 101] demo_book"
  by (simp add: book_ok_def price_grid_def order_ok_def level_ok_def hash_eval demo_eval level_index_def
      zero_double_def)

lemma process_returns_witness:
  "\<exists>b' s'. process plain_ext demo_gateways demo_info (demo_book, demo_oms) = Inr (b', s') \<and>
     book_ok plain_ext (Fin 1) [Fin 100, Fin 101] b' \<and> ids_ok (b', s')"
  by (rule process_returns [OF demo_book_ok])
    (simp_all add: demo_eval requests_supported_def gw_is_ready_account_def hash_eval sends_ok_def
      plain_compare_ok ids_ok_def)

end
