(* ===== verification/Oms_Requests.thy ===== *)
theory Oms_Requests
  imports Oms_Safety
begin

text \<open>
  Which requests \<open>Manager::process\<close> sends: to whom, for which orders, with which versions, and
  when it sends none.
\<close>

section \<open>Vocabulary\<close>

fun request_account :: "request \<Rightarrow> string" where
  "request_account (Create c) = cr_account c"
| "request_account (Modify m) = mr_account m"
| "request_account (Cancel c) = ca_account c"

text \<open>A request that may be sent for a live order: nothing in flight, and based on what is confirmed.\<close>

definition request_for :: "oms_order \<Rightarrow> request \<Rightarrow> bool" where
  "request_for ord r \<longleftrightarrow>
     \<not> is_pending ord \<and> ov_version (o_confirmed ord) \<noteq> 0 \<and>
     (case r of
        Create _ \<Rightarrow> False
      | Modify m \<Rightarrow> mr_order_id m = o_order_id ord \<and> mr_version m = ov_version (o_pending ord) + 1 \<and>
                    mr_conditional_on_version m = ov_version (o_confirmed ord)
      | Cancel c \<Rightarrow> ca_order_id c = o_order_id ord \<and> ca_version c = ov_version (o_pending ord) + 1 \<and>
                    ca_conditional_on_version c = ov_version (o_confirmed ord))"

definition keys_ok :: "book \<Rightarrow> bool" where
  "keys_ok b \<longleftrightarrow> hwf (b_orders b) \<and> list_all (\<lambda>(k, ord). o_order_id ord = k) (b_orders b)"

abbreviation rid :: "request \<times> ident \<Rightarrow> order_ident" where
  "rid e \<equiv> request_order_id (fst e)"

lemma keys_okD: "keys_ok b \<Longrightarrow> hfind (b_orders b) k = Some ord \<Longrightarrow> o_order_id ord = k"
  unfolding keys_ok_def using list_all_hfind by fastforce

lemma request_for_id: "request_for ord r \<Longrightarrow> request_order_id r = o_order_id ord"
  by (cases r) (simp_all add: request_for_def)

text \<open>Modifications and cancellations sent between two states of a book.\<close>

definition updates_sent ::
  "book \<times> oms \<Rightarrow> book \<times> oms \<Rightarrow> (request \<times> ident) list \<Rightarrow> bool" where
  "updates_sent = (\<lambda>(b, s) (b', s') reqs.
     s' = s\<lparr>sent_requests := sent_requests s @ reqs\<rparr> \<and> same_frame b b' \<and>
     hkeys (b_orders b') = hkeys (b_orders b) \<and> distinct (map rid reqs) \<and>
     (\<forall>e\<in>set reqs. snd e = b_trade_gateway_id b \<and> request_account (fst e) = b_account b \<and>
        (\<exists>ord. hfind (b_orders b) (rid e) = Some ord \<and> request_for ord (fst e)) \<and>
        (\<exists>ord. hfind (b_orders b') (rid e) = Some ord \<and> is_pending ord)) \<and>
     (\<forall>k. k \<notin> rid ` set reqs \<longrightarrow> hfind (b_orders b') k = hfind (b_orders b) k))"

lemma updates_sent_refl [simp]: "updates_sent (b, s) (b, s) []"
  by (simp add: updates_sent_def)

lemma updates_sent_orders:
  "updates_sent (b, s) (b', s') reqs \<Longrightarrow> b_orders b'' = b_orders b' \<Longrightarrow> same_frame b' b'' \<Longrightarrow>
     updates_sent (b, s) (b'', s') reqs"
  unfolding updates_sent_def by (auto intro: same_frame_trans)

lemma hkeys_put_order [simp]: "hkeys (b_orders (put_order k ord b)) = hkeys (b_orders b)"
  by (simp add: put_order_def)

text \<open>One more request, for an order that is not in flight.\<close>

lemma updates_sent_step:
  assumes sent: "updates_sent (b, s) (b1, s1) reqs"
    and ord: "hfind (b_orders b1) k = Some ord" "request_for ord r" "o_order_id ord = k"
    and new: "is_pending ord'" "request_account r = b_account b1"
  shows "updates_sent (b, s) (put_order k ord' b1,
      s1\<lparr>sent_requests := sent_requests s1 @ [(r, b_trade_gateway_id b1)]\<rparr>)
      (reqs @ [(r, b_trade_gateway_id b1)])"
proof -
  have idle: "\<not> is_pending ord" using ord(2) by (simp add: request_for_def)
  have fresh: "k \<notin> rid ` set reqs"
    using sent ord(1) idle by (auto simp: updates_sent_def)
  then have old: "hfind (b_orders b) k = Some ord"
    using sent ord(1) by (auto simp: updates_sent_def)
  have rk: "request_order_id r = k" using request_for_id [OF ord(2)] ord(3) by simp
  have upd: "hfind (b_orders (put_order k ord' b1)) = (hfind (b_orders b1))(k \<mapsto> ord')"
    using hfind_hset_Some [OF ord(1)] by (simp add: put_order_def)
  show ?thesis
    unfolding updates_sent_def prod.case
    apply (intro conjI)
    subgoal using sent by (simp add: updates_sent_def)
    subgoal using sent by (simp add: updates_sent_def)
    subgoal using sent by (simp add: updates_sent_def)
    subgoal using sent fresh rk by (auto simp: updates_sent_def)
    subgoal
      using sent old rk ord(2) new upd fresh
      by (auto simp: updates_sent_def same_frame_def)
    subgoal using sent rk upd by (auto simp: updates_sent_def)
    done
qed

lemma modify_order_sent:
  assumes run: "modify_order X gws k ord q p (b1, s1) = Inr (b2, s2)"
    and sent: "updates_sent (b, s) (b1, s1) reqs"
    and ord: "hfind (b_orders b1) k = Some ord" "o_order_id ord = k" "\<not> is_pending ord" "ov_version (o_confirmed ord) \<noteq> 0"
  shows "\<exists>reqs. updates_sent (b, s) (b2, s2) reqs"
proof -
  let ?p = "(o_pending ord)\<lparr>ov_version := ov_version (o_pending ord) + 1, ov_type := MODIFY_ORDER,
              ov_price := p, ov_quantity := q\<rparr>"
  let ?r = "Modify \<lparr>mr_account = b_account b1, mr_order_id = o_order_id ord, mr_quantity = q,
                mr_price = p, mr_version = ov_version ?p, mr_conditional_on_version = ov_version (o_confirmed ord)\<rparr>"
  have rf: "request_for ord ?r" using ord by (simp add: request_for_def)
  have "is_pending (ord\<lparr>o_pending := ?p, o_expected := ?p\<rparr>)" by (simp add: is_pending_def)
  from updates_sent_step [OF sent ord(1) rf ord(2) this] run show ?thesis
    by (auto simp: modify_order_def Let_def res_simps send_request_def put_order_def split: option.splits)
qed

lemma cancel_order_sent:
  assumes run: "cancel_order X gws k ord (b1, s1) = Inr (b2, s2)"
    and sent: "updates_sent (b, s) (b1, s1) reqs"
    and ord: "hfind (b_orders b1) k = Some ord" "o_order_id ord = k" "\<not> is_pending ord" "ov_version (o_confirmed ord) \<noteq> 0"
  shows "\<exists>reqs. updates_sent (b, s) (b2, s2) reqs"
proof -
  let ?p = "(o_pending ord)\<lparr>ov_version := ov_version (o_pending ord) + 1, ov_type := CANCEL_ORDER,
              ov_price := ov_price (o_expected ord), ov_quantity := Fin 0\<rparr>"
  let ?r = "Cancel \<lparr>ca_account = b_account b1, ca_order_id = o_order_id ord,
                ca_version = ov_version ?p, ca_conditional_on_version = ov_version (o_confirmed ord)\<rparr>"
  have rf: "request_for ord ?r" using ord by (simp add: request_for_def)
  have "is_pending (ord\<lparr>o_pending := ?p, o_expected := ?p\<rparr>)" by (simp add: is_pending_def)
  from updates_sent_step [OF sent ord(1) rf ord(2) this] run show ?thesis
    by (auto simp: cancel_order_def Let_def res_simps send_request_def put_order_def split: option.splits)
qed

lemma emplace_level_frame:
  "emplace_level X sd p b = Inr (i, l, new, b') \<Longrightarrow> same_frame b b'"
  by (auto simp: emplace_level_def res_simps Let_def split: option.splits)

lemma can_cancel_confirmed: "can_cancel ord \<Longrightarrow> ov_version (o_confirmed ord) \<noteq> 0"
  by (simp add: can_cancel_def split: if_splits)


lemma keys_ok_put_order: "keys_ok b \<Longrightarrow> o_order_id ord = k \<Longrightarrow> keys_ok (put_order k ord b)"
  by (simp add: keys_ok_def put_order_def list_all_hset)

lemma keys_ok_orders: "b_orders b' = b_orders b \<Longrightarrow> keys_ok b' = keys_ok b"
  by (simp add: keys_ok_def)

lemma modify_order_keys:
  "modify_order X gws k ord q p (b, s) = Inr (b', s') \<Longrightarrow> keys_ok b \<Longrightarrow> o_order_id ord = k \<Longrightarrow> keys_ok b'"
  by (auto simp: modify_order_def Let_def res_simps intro!: keys_ok_put_order)

lemma cancel_order_keys:
  "cancel_order X gws k ord (b, s) = Inr (b', s') \<Longrightarrow> keys_ok b \<Longrightarrow> o_order_id ord = k \<Longrightarrow> keys_ok b'"
  by (auto simp: cancel_order_def Let_def res_simps intro!: keys_ok_put_order)

text \<open>A property kept by every request of a pass is kept by the pass, whether it jumps or not.\<close>

definition step_ok :: "(book \<times> oms \<Rightarrow> bool) \<Rightarrow> 'g ext \<Rightarrow> 'g gateways \<Rightarrow> bool" where
  "step_ok I X gws \<longleftrightarrow>
     (\<forall>b b' s. I (b, s) \<longrightarrow> b_orders b' = b_orders b \<longrightarrow> same_frame b b' \<longrightarrow> I (b', s)) \<and>
     (\<forall>b s k ord q p r. I (b, s) \<longrightarrow> (k, ord) \<in> set (b_orders b) \<longrightarrow> \<not> is_pending ord \<longrightarrow>
        ov_version (o_confirmed ord) \<noteq> 0 \<longrightarrow>
        (o_rejects_count ord = 0 \<and> modify_order X gws k ord q p (b, s) = Inr r \<or> cancel_order X gws k ord (b, s) = Inr r) \<longrightarrow>
        I r)"

lemma step_ok_frame:
  "step_ok I X gws \<Longrightarrow> I (b, s) \<Longrightarrow> b_orders b' = b_orders b \<Longrightarrow> same_frame b b' \<Longrightarrow> I (b', s)"
  unfolding step_ok_def by blast

lemma step_ok_request:
  "step_ok I X gws \<Longrightarrow> I (b, s) \<Longrightarrow> (k, ord) \<in> set (b_orders b) \<Longrightarrow> \<not> is_pending ord \<Longrightarrow>
     ov_version (o_confirmed ord) \<noteq> 0 \<Longrightarrow>
     o_rejects_count ord = 0 \<and> modify_order X gws k ord q p (b, s) = Inr r \<or> cancel_order X gws k ord (b, s) = Inr r \<Longrightarrow> I r"
  unfolding step_ok_def by blast

lemma can_modify_unrejected: "can_modify X gws b ord = (cp, cv) \<Longrightarrow> cp \<or> cv \<Longrightarrow> o_rejects_count ord = 0"
  by (auto simp: can_modify_def split: if_splits)

lemma accumulate_order_frame: "accumulate_order X ord b = Inr b' \<Longrightarrow> same_frame b b'"
  by (auto simp: accumulate_order_def res_simps Let_def dest!: emplace_level_frame split: if_splits)
    (metis same_frame_trans same_frame_refl same_frame_bump)+

lemma accumulate_orders_frame:
  assumes "accumulate_orders X b = Inr b'"
  shows "same_frame b b'"
  using assms unfolding accumulate_orders_def
  by (rule rfold_invariant) (auto dest: accumulate_order_frame intro: same_frame_trans)

lemma scan_orders_invariant:
  assumes I: "step_ok I X gws" and run: "scan_orders X gws os (b, s) = Inr (again, r)"
    and b: "I (b, s)" "set os \<subseteq> set (b_orders b)"
  shows "I r"
  using run b
proof (induction os arbitrary: b)
  case Nil
  then show ?case by simp
next
  case (Cons e os)
  obtain k ord where e: "e = (k, ord)" by (cases e)
  from Cons.prems(1) e obtain i l new b1 where
    lev: "emplace_level X (o_side ord) (ov_price (o_expected ord)) b = Inr (i, l, new, b1)"
    by (auto simp: res_simps)
  note same = emplace_level_orders [OF lev]
  have I1: "I (b1, s)" by (rule step_ok_frame [OF I Cons.prems(2) same emplace_level_frame [OF lev]])
  have mem: "(k, ord) \<in> set (b_orders b1)" and sub: "set os \<subseteq> set (b_orders b1)"
    using Cons.prems(3) e same by auto
  have rest: "I r" if "scan_orders X gws os (b1, s) = Inr (again, r)"
    using Cons.IH [OF that I1 sub] .
  obtain cp cv where cm: "can_modify X gws b1 ord = (cp, cv)" by (cases "can_modify X gws b1 ord")
  note m = step_ok_request [OF I I1 mem can_modify_idle [OF cm] can_modify_confirmed [OF cm]
      disjI1 [OF conjI [OF can_modify_unrejected [OF cm]]]]
  note c = step_ok_request [OF I I1 mem can_cancel_idle can_cancel_confirmed disjI2]
  from Cons.prems(1) e lev cm rest m c show ?case
    by (auto simp: res_simps Let_def split: if_splits option.splits)
qed

lemma process_again_invariant:
  assumes "step_ok I X gws" "process_again X gws (b, s) = Inr r" "I (b, s)"
  shows "I r"
  using assms
proof (induction X gws "(b, s)" arbitrary: b s rule: process_again.induct)
  case (1 X gws b s)
  from "1.prems"(2) obtain b1 again r' where
    acc: "accumulate_orders X b = Inr b1" and sc: "scan_orders X gws (b_orders b1) (b1, s) = Inr (again, r')"
    and rest: "(if again then process_again X gws r' else Inr r') = Inr r"
    unfolding process_again.simps [of X gws b s] by (auto simp: res_simps)
  have I1: "I (b1, s)"
    by (rule step_ok_frame [OF "1.prems"(1,3) accumulate_orders_orders [OF acc] accumulate_orders_frame [OF acc]])
  have I2: "I r'" by (rule scan_orders_invariant [OF "1.prems"(1) sc I1 order_refl])
  show ?case
  proof (cases again)
    case False
    with rest I2 show ?thesis by simp
  next
    case True
    obtain b2 s2 where r': "r' = (b2, s2)" by (cases r')
    with rest True have run: "process_again X gws (b2, s2) = Inr r" by simp
    show ?thesis
      by (rule "1.hyps" [OF acc sc [unfolded r'] refl True "1.prems"(1) run I2 [unfolded r']])
  qed
qed

lemma updates_sent_step_ok:
  fixes b :: book and s :: oms
  shows "step_ok (\<lambda>r. keys_ok (fst r) \<and> (\<exists>reqs. updates_sent (b, s) r reqs)) X gws"
  unfolding step_ok_def
proof (intro conjI allI impI)
  fix b1 b' s1
  assume "keys_ok (fst (b1, s1)) \<and> (\<exists>reqs. updates_sent (b, s) (b1, s1) reqs)" "b_orders b' = b_orders b1" "same_frame b1 b'"
  then show "keys_ok (fst (b', s1))" "\<exists>reqs. updates_sent (b, s) (b', s1) reqs"
    using keys_ok_orders [of b' b1] updates_sent_orders [of b s b1 s1 _ b'] by auto
next
  fix b1 s1 k ord q p r
  assume I: "keys_ok (fst (b1, s1)) \<and> (\<exists>reqs. updates_sent (b, s) (b1, s1) reqs)"
    and mem: "(k, ord) \<in> set (b_orders b1)" and ok: "\<not> is_pending ord" "ov_version (o_confirmed ord) \<noteq> 0"
    and run': "o_rejects_count ord = 0 \<and> modify_order X gws k ord q p (b1, s1) = Inr r \<or> cancel_order X gws k ord (b1, s1) = Inr r"
  then have run: "modify_order X gws k ord q p (b1, s1) = Inr r \<or> cancel_order X gws k ord (b1, s1) = Inr r" by blast
  obtain b2 s2 where r: "r = (b2, s2)" by (cases r)
  obtain reqs where sent: "updates_sent (b, s) (b1, s1) reqs" using I by blast
  have kb: "keys_ok b1" using I by simp
  then have f: "hfind (b_orders b1) k = Some ord" using mem by (simp add: keys_ok_def hd.in_entries)
  have id: "o_order_id ord = k" by (rule keys_okD [OF kb f])
  show "keys_ok (fst r)" using run kb id r modify_order_keys cancel_order_keys by fastforce
  show "\<exists>reqs. updates_sent (b, s) r reqs"
    using run modify_order_sent [OF _ sent f id ok] cancel_order_sent [OF _ sent f id ok] unfolding r by blast
qed



section \<open>New orders\<close>

text \<open>The orders missing on one side, and the requests that create them, with their identifiers.\<close>

definition level_target :: "book \<Rightarrow> side \<Rightarrow> level \<Rightarrow> target_order" where
  "level_target b side l =
     \<lparr>to_market = b_market b, to_side = side,
      to_quantity = lv_target_quantity l - lv_expected_quantity l,
      to_price = lv_price l, to_exec_inst = lv_exec_inst l\<rparr>"

definition missing_on :: "'g ext \<Rightarrow> info \<Rightarrow> book \<Rightarrow> side \<Rightarrow> levels \<Rightarrow> target_order list" where
  "missing_on X info b side ls =
     map (\<lambda>(_, l). level_target b side l)
       (filter (\<lambda>(_, l). x_compare X (lv_target_quantity l) (lv_expected_quantity l) = Greater \<and>
                          can_create b info (level_target b side l)) ls)"

definition missing :: "'g ext \<Rightarrow> info \<Rightarrow> book \<Rightarrow> target_order list" where
  "missing X info b = missing_on X info b BUY (b_bids b) @ missing_on X info b SELL (b_asks b)"

fun numbered_creates :: "book \<Rightarrow> order_ident \<Rightarrow> target_order list \<Rightarrow> (request \<times> ident) list" where
  "numbered_creates b n [] = []"
| "numbered_creates b n (t # ts) =
     (Create (create_request_of b (n + 1) t), b_trade_gateway_id b) # numbered_creates b (n + 1) ts"

definition creates_sent :: "target_order list \<Rightarrow> book \<times> oms \<Rightarrow> book \<times> oms \<Rightarrow> bool" where
  "creates_sent ts = (\<lambda>(b, s) (b', s').
     let reqs = numbered_creates b (max_order_id s) ts in
     sent_requests s' = sent_requests s @ reqs \<and> same_frame b b' \<and> b_pending b' = b_pending b \<and>
     b_bids b' = b_bids b \<and> b_asks b' = b_asks b \<and>
     max_order_id s \<le> max_order_id s' \<and> max_order_id s' = max_order_id s + of_nat (length ts) \<and>
     distinct (map rid reqs) \<and>
     (\<forall>e\<in>set reqs. max_order_id s < rid e \<and> rid e \<le> max_order_id s' \<and>
        (\<exists>ord. hfind (b_orders b') (rid e) = Some ord \<and> is_pending ord)) \<and>
     (\<forall>k. k \<notin> rid ` set reqs \<longrightarrow> hfind (b_orders b') k = hfind (b_orders b) k) \<and>
     (hwf (b_orders b) \<longrightarrow> hwf (b_orders b')))"

lemma numbered_creates_frame: "same_frame b b' \<Longrightarrow> numbered_creates b' n ts = numbered_creates b n ts"
  by (induction ts arbitrary: n) (simp_all add: same_frame_def create_request_of_def)

lemma numbered_creates_append:
  "numbered_creates b n (ts @ us) = numbered_creates b n ts @ numbered_creates b (n + of_nat (length ts)) us"
  by (induction ts arbitrary: n) (simp_all add: algebra_simps)

lemma creates_sent_refl: "creates_sent [] (b, s) (b, s)"
  by (simp add: creates_sent_def)

lemma creates_sent_trans:
  assumes 1: "creates_sent ts (b1, s1) (b2, s2)" and 2: "creates_sent us (b2, s2) (b3, s3)"
  shows "creates_sent (ts @ us) (b1, s1) (b3, s3)"
proof -
  let ?r = "numbered_creates b1 (max_order_id s1) ts" and ?q = "numbered_creates b2 (max_order_id s2) us"
  have r: "numbered_creates b1 (max_order_id s1) (ts @ us) = ?r @ ?q"
    using 1 numbered_creates_frame [of b1 b2] by (simp add: creates_sent_def Let_def numbered_creates_append)
  have A: "\<And>e. e \<in> set ?r \<Longrightarrow> max_order_id s1 < rid e \<and> rid e \<le> max_order_id s2"
    and B: "\<And>e. e \<in> set ?q \<Longrightarrow> max_order_id s2 < rid e \<and> rid e \<le> max_order_id s3"
    and C: "\<And>k. k \<notin> rid ` set ?r \<Longrightarrow> hfind (b_orders b2) k = hfind (b_orders b1) k"
    and D: "\<And>k. k \<notin> rid ` set ?q \<Longrightarrow> hfind (b_orders b3) k = hfind (b_orders b2) k"
    and le: "max_order_id s1 \<le> max_order_id s2" "max_order_id s2 \<le> max_order_id s3"
    using 1 2 unfolding creates_sent_def Let_def prod.case by blast+
  have disj: "rid ` set ?r \<inter> rid ` set ?q = {}" using A B by fastforce
  have pend: "\<exists>ord. hfind (b_orders b3) (rid e) = Some ord \<and> is_pending ord" if "e \<in> set (?r @ ?q)" for e
  proof (cases "e \<in> set ?q")
    case True
    with 2 show ?thesis by (simp add: creates_sent_def Let_def)
  next
    case False
    with that have e: "e \<in> set ?r" by simp
    with disj have "rid e \<notin> rid ` set ?q" by blast
    with 2 have "hfind (b_orders b3) (rid e) = hfind (b_orders b2) (rid e)" by (simp add: creates_sent_def Let_def)
    with 1 e show ?thesis by (simp add: creates_sent_def Let_def)
  qed
  show ?thesis
    unfolding creates_sent_def prod.case Let_def r
    apply (intro conjI)
    subgoal using 1 2 by (simp add: creates_sent_def Let_def)
    subgoal using 1 2 same_frame_trans by (simp add: creates_sent_def Let_def) blast
    subgoal using 1 2 by (simp add: creates_sent_def Let_def)
    subgoal using 1 2 by (simp add: creates_sent_def Let_def)
    subgoal using 1 2 by (simp add: creates_sent_def Let_def)
    subgoal using le by simp
    subgoal using 1 2 by (simp add: creates_sent_def Let_def algebra_simps)
    subgoal using 1 2 disj by (simp add: creates_sent_def Let_def)
    subgoal using A B le pend by (auto intro: less_le_trans le_less_trans order_trans)
    subgoal using C D by (simp add: image_Un)
    subgoal using 1 2 by (simp add: creates_sent_def Let_def)
    done
qed

lemma created_order_pending: "is_pending (created_order i t)"
  by (simp add: is_pending_def created_order_def Let_def)

lemma create_order_sent:
  assumes run: "create_order X gws t (b, s) = Inr (b', s')"  and hw: "hwf (b_orders b)"
  shows "creates_sent [t] (b, s) (b', s')"
proof -
  let ?i = "max_order_id s + 1"
  have i: "?i \<noteq> 0" and fresh: "hfind (b_orders b) ?i = None"
    and b': "b' = b\<lparr>b_orders := hput (x_layout X) ?i (created_order ?i t) (b_orders b)\<rparr>"
    and s': "max_order_id s' = ?i" "sent_requests s' = sent_requests s @ [(Create (create_request_of b ?i t), b_trade_gateway_id b)]"
    using run by (auto simp: create_order_def Let_def res_simps send_request_def create_request_of_def split: option.splits)
  have lt: "max_order_id s < ?i" using i by (intro word_succ_less) (metis add.left_inverse)
  show ?thesis
    unfolding creates_sent_def prod.case Let_def
    using hw lt s' b' by (auto simp: hd.find_put hd.wf_put create_request_of_def created_order_pending)
qed

lemma can_create_frame: "b_pending b' = b_pending b \<Longrightarrow> can_create b' info t = can_create b info t"
  by (simp add: can_create_def pending_of_def is_throttled_def)

lemma create_levels_sent:
  assumes "rfold (create_on_level X gws info side) ls (b, s) = Inr r" "hwf (b_orders b)"
  shows "creates_sent (missing_on X info b side ls) (b, s) r"
  using assms
proof (induction ls arbitrary: b s)
  case Nil
  then show ?case by (auto simp: missing_on_def creates_sent_refl)
next
  case (Cons e ls)
  obtain i l where e: "e = (i, l)" by (cases e)
  from Cons.prems(1) obtain b1 s1 where
    1: "create_on_level X gws info side e (b, s) = Inr (b1, s1)" and
    2: "rfold (create_on_level X gws info side) ls (b1, s1) = Inr r" by (auto simp: res_simps)
  let ?c = "x_compare X (lv_target_quantity l) (lv_expected_quantity l) = Greater \<and>
     can_create b info (level_target b side l)"
  have step: "creates_sent (if ?c then [level_target b side l] else []) (b, s) (b1, s1)"
    using 1 e create_order_sent [OF _ Cons.prems(2)]
    by (auto simp: create_on_level_def res_simps Let_def level_target_def creates_sent_refl split: if_splits)
  then have fr: "hwf (b_orders b1)" "same_frame b b1" "b_pending b1 = b_pending b"
    using Cons.prems(2) by (simp_all add: creates_sent_def Let_def)
  have "level_target b1 side l' = level_target b side l'" for l'
    using fr(2) by (simp add: level_target_def same_frame_def)
  then have same: "missing_on X info b1 side ls = missing_on X info b side ls"
    using can_create_frame [OF fr(3)] by (simp add: missing_on_def)
  obtain b2 s2 where r: "r = (b2, s2)" by (cases r)
  have "missing_on X info b side (e # ls) =
      (if ?c then [level_target b side l] else []) @ missing_on X info b side ls"
    by (simp add: missing_on_def e)
  with creates_sent_trans [OF step Cons.IH [OF 2 fr(1), unfolded same r]] r show ?case by simp
qed

lemma create_orders_sent:
  assumes "create_orders X gws info (b, s) = Inr r" "hwf (b_orders b)"
  shows "creates_sent (missing X info b) (b, s) r"
proof -
  from assms(1) obtain b1 s1 where
    1: "rfold (create_on_level X gws info BUY) (b_bids b) (b, s) = Inr (b1, s1)" and
    2: "rfold (create_on_level X gws info SELL) (b_asks b1) (b1, s1) = Inr r"
    by (auto simp: create_orders_def get_levels_def res_simps)
  note c1 = create_levels_sent [OF 1 assms(2)]
  then have fr: "hwf (b_orders b1)" "same_frame b b1" "b_pending b1 = b_pending b" "b_asks b1 = b_asks b"
    using assms(2) by (simp_all add: creates_sent_def Let_def)
  have "level_target b1 SELL l' = level_target b SELL l'" for l'
    using fr(2) by (simp add: level_target_def same_frame_def)
  then have same: "missing_on X info b1 SELL (b_asks b1) = missing_on X info b SELL (b_asks b)"
    using can_create_frame [OF fr(3)] by (simp add: missing_on_def fr(4))
  obtain b2 s2 where r: "r = (b2, s2)" by (cases r)
  from creates_sent_trans [OF c1 create_levels_sent [OF 2 fr(1), unfolded same r]] r show ?thesis
    by (simp add: missing_def)
qed



section \<open>The whole step\<close>

lemma erase_empty_levels_orders:
  assumes "erase_empty_levels X b = Inr b'"
  shows "b_orders b' = b_orders b \<and> same_frame b b'"
  using assms unfolding erase_empty_levels_def
  by (rule rfold_invariant) (auto simp: res_simps)

definition book_ident :: "book \<Rightarrow> book_ident" where
  "book_ident b = (b_strategy b, b_account b, b_market b)"

lemma book_ident_frame: "same_frame b b' \<Longrightarrow> book_ident b' = book_ident b"
  by (simp add: same_frame_def book_ident_def)

lemma resolve_trade_gateway_ident: "resolve_trade_gateway gws s b = (r, b') \<Longrightarrow> book_ident b' = book_ident b"
  by (auto simp: resolve_trade_gateway_def Let_def book_ident_def split: if_splits)

lemma set_tick_size_keeps:
  "set_tick_size t b = Inr b' \<Longrightarrow>
     book_ident b' = book_ident b \<and> b_orders b' = b_orders b \<and> b_account b' = b_account b \<and> b_ban_until b' = b_ban_until b \<and>
     b_trade_gateway_id b' = b_trade_gateway_id b"
  by (auto simp: set_tick_size_def Let_def res_simps book_ident_def split: if_splits)

lemma reset_levels_keeps:
  "b_orders (reset_levels b) = b_orders b" "b_account (reset_levels b) = b_account b"
  "b_trade_gateway_id (reset_levels b) = b_trade_gateway_id b" "b_tick_size (reset_levels b) = b_tick_size b"
  "book_ident (reset_levels b) = book_ident b"
  by (simp_all add: reset_levels_def Let_def book_ident_def)

text \<open>Either nothing happens beyond the resolution of the gateway, or the four passes run.\<close>

lemma process_cases:
  assumes run: "process X gws info (b, s) = Inr (b', s')"
  obtains
    (quiet) "s' = s" "b_orders b' = b_orders b" "book_ident b' = book_ident b"
  | (active) b0 b1 s1 b2 where
      "b_account b \<noteq> []" "\<not> isnan (info_tick_size info)" "b_ban_until b \<le> oms_now s"
      "gw_is_ready_account X {ST_CREATE_ORDER, ST_CANCEL_ORDER} (b_trade_gateway_id b0) (b_account b) gws"
      "b_orders b0 = b_orders b" "b_account b0 = b_account b" "\<exists>b00. b0 = reset_levels b00"
      "process_again X gws (b0, s) = Inr (b1, s1)" "create_orders X gws info (b1, s1) = Inr (b2, s')"
      "erase_empty_levels X b2 = Inr b'" "book_ident b0 = book_ident b"
proof (cases "b_account b = []")
  case True
  with run quiet show thesis by (simp add: process_def)
next
  case acc: False
  obtain resolved b1 where r: "resolve_trade_gateway gws s b = (resolved, b1)"
    by (cases "resolve_trade_gateway gws s b")
  note keep = resolve_trade_gateway_keeps [OF r] and id = resolve_trade_gateway_ident [OF r]
  show thesis
  proof (cases "gw_is_ready_account X {ST_CREATE_ORDER, ST_CANCEL_ORDER} (b_trade_gateway_id b1) (b_account b1) gws \<and>
      resolved \<and> \<not> isnan (info_tick_size info)")
    case False
    then have "s' = s" "b' = b1" using run acc r by (auto simp: process_def split: if_splits)
    with quiet keep(4) id show thesis by simp
  next
    case ready: True
    with run acc r obtain b2 where b2: "set_tick_size (info_tick_size info) b1 = Inr b2" and
      rest: "(if oms_now s < b_ban_until b2 then Inr (b2, s)
           else
             rbind (process_again X gws (reset_levels (b2\<lparr>b_ban_until := 0\<rparr>), s)) (\<lambda>r.
             rbind (create_orders X gws info r) (\<lambda>(b3, s3).
             rbind (erase_empty_levels X b3) (\<lambda>b4. Inr (b4, s3))))) = Inr (b', s')"
      by (auto simp: process_def res_simps)
    note keep2 = set_tick_size_keeps [OF b2]
    show thesis
    proof (cases "oms_now s < b_ban_until b2")
      case True
      with rest have "s' = s" "b' = b2" by auto
      with quiet keep(4) keep2 id show thesis by simp
    next
      case False
      with rest obtain b3 s3 b4 where passes:
        "process_again X gws (reset_levels (b2\<lparr>b_ban_until := 0\<rparr>), s) = Inr (b3, s3)"
        "create_orders X gws info (b3, s3) = Inr (b4, s')" "erase_empty_levels X b4 = Inr b'"
        by (auto simp: res_simps)
      have "book_ident (reset_levels (b2\<lparr>b_ban_until := 0\<rparr>)) = book_ident b"
        using keep2 id by (simp add: reset_levels_keeps) (simp add: book_ident_def)
      from active [OF acc _ _ _ _ _ _ passes this] ready keep keep2 False show thesis
        by (auto simp: reset_levels_keeps)
    qed
  qed
qed

text \<open>
  C21: \<open>Manager::process\<close> sends nothing and touches no order of a book that has no account, whose
  market has no tick size, that is banned, or whose account no gateway can serve.
\<close>

theorem process_quiet:
  assumes "process X gws info (b, s) = Inr (b', s')"
    and "b_account b = [] \<or> isnan (info_tick_size info) \<or> oms_now s < b_ban_until b \<or>
         (\<forall>g. \<not> gw_is_ready_account X {ST_CREATE_ORDER, ST_CANCEL_ORDER} g (b_account b) gws)"
  shows "s' = s \<and> b_orders b' = b_orders b"
  using assms(1)
proof (cases rule: process_cases)
  case quiet
  then show ?thesis by simp
next
  case (active b0 b1 s1 b2)
  with assms(2) show ?thesis by auto
qed

lemma process_again_sent:
  assumes "process_again X gws (b, s) = Inr (b1, s1)" "keys_ok b"
  shows "keys_ok b1 \<and> (\<exists>reqs. updates_sent (b, s) (b1, s1) reqs)"
  using process_again_invariant [OF updates_sent_step_ok assms(1), of b s] assms(2) updates_sent_refl
  by fastforce

lemma numbered_creates_request:
  "e \<in> set (numbered_creates b n ts) \<Longrightarrow>
     is_create (fst e) \<and> snd e = b_trade_gateway_id b \<and> request_account (fst e) = b_account b"
  by (induction ts arbitrary: n) (auto simp: create_request_of_def)

text \<open>
  C8: every call of \<open>Manager::process\<close> sends at most one request for an order, all of them to
  the gateway and for the account of the book.  Modifications and cancellations concern orders that
  have a confirmed version and nothing in flight, carry the next version and are conditional on the
  confirmed one; creations have identifiers that are new and larger than any used before.  After
  the call every order a request was sent for is in flight.
\<close>

theorem process_requests:
  assumes run: "process X gws info (b, s) = Inr (b', s')" and ok: "keys_ok b" "ids_ok (b, s)"
  shows "\<exists>updates creates.
    sent_requests s' = sent_requests s @ updates @ creates \<and>
    distinct (map rid (updates @ creates)) \<and>
    (\<forall>e\<in>set (updates @ creates). snd e = b_trade_gateway_id b' \<and> request_account (fst e) = b_account b \<and>
       (\<exists>ord. hfind (b_orders b') (rid e) = Some ord \<and> is_pending ord)) \<and>
    (\<forall>e\<in>set updates. \<exists>ord. hfind (b_orders b) (rid e) = Some ord \<and> request_for ord (fst e)) \<and>
    (\<forall>e\<in>set creates. is_create (fst e) \<and> hfind (b_orders b) (rid e) = None \<and>
       max_order_id s < rid e \<and> rid e \<le> max_order_id s')"
  using run
proof (cases rule: process_cases)
  case quiet
  then show ?thesis by (intro exI [of _ "[]"]) simp
next
  case (active b0 b1 s1 b2)
  have k0: "keys_ok b0" using ok(1) active(5) by (simp add: keys_ok_def)
  obtain us where us: "keys_ok b1" "updates_sent (b0, s) (b1, s1) us"
    using process_again_sent [OF active(8) k0] by blast
  let ?ts = "missing X info b1" and ?cs = "numbered_creates b1 (max_order_id s1) (missing X info b1)"
  have cr: "creates_sent ?ts (b1, s1) (b2, s')"
    using create_orders_sent [OF active(9)] us(1) by (simp add: keys_ok_def)
  note er = erase_empty_levels_orders [OF active(10)]
  have s1: "max_order_id s1 = max_order_id s" "sent_requests s1 = sent_requests s @ us"
    and fr: "same_frame b0 b1" "same_frame b1 b2" "same_frame b2 b'"
    using us(2) cr er by (simp_all add: updates_sent_def creates_sent_def Let_def)
  have old: "i \<le> max_order_id s" if "hfind (b_orders b) i \<noteq> None" for i
    using that ok(2) hfind_None [of "b_orders b" i] by (auto simp: ids_ok_def)
  have U: "rid e \<le> max_order_id s" if "e \<in> set us" for e
    using us(2) that old active(5) by (auto simp: updates_sent_def)
  have Cr: "max_order_id s < rid e \<and> rid e \<le> max_order_id s'" if "e \<in> set ?cs" for e
    using cr that s1 unfolding creates_sent_def Let_def prod.case by metis
  have disj: "rid ` set us \<inter> rid ` set ?cs = {}" using U Cr by fastforce
  have dist: "distinct (map rid (us @ ?cs))"
    using us(2) cr disj by (simp add: updates_sent_def creates_sent_def Let_def)
  have pend: "\<exists>ord. hfind (b_orders b') (rid e) = Some ord \<and> is_pending ord" if "e \<in> set (us @ ?cs)" for e
  proof (cases "e \<in> set ?cs")
    case True
    with cr er show ?thesis unfolding creates_sent_def Let_def prod.case by metis
  next
    case False
    with that have e: "e \<in> set us" by simp
    with disj have "rid e \<notin> rid ` set ?cs" by blast
    with cr have "hfind (b_orders b2) (rid e) = hfind (b_orders b1) (rid e)"
      unfolding creates_sent_def Let_def prod.case by metis
    with us(2) e er show ?thesis by (auto simp: updates_sent_def)
  qed
  have gw: "snd e = b_trade_gateway_id b' \<and> request_account (fst e) = b_account b" if "e \<in> set (us @ ?cs)" for e
  proof -
    have "b_trade_gateway_id b' = b_trade_gateway_id b0" "b_trade_gateway_id b1 = b_trade_gateway_id b0"
      "b_account b1 = b_account b0"
      using fr by (simp_all add: same_frame_def)
    then show ?thesis
      using that us(2) numbered_creates_request [of e b1] active(6) by (auto simp: updates_sent_def)
  qed
  show ?thesis
  proof (intro exI conjI)
    show "sent_requests s' = sent_requests s @ us @ ?cs"
      using cr s1 by (simp add: creates_sent_def Let_def)
    show "\<forall>e\<in>set us. \<exists>ord. hfind (b_orders b) (rid e) = Some ord \<and> request_for ord (fst e)"
      using us(2) active(5) by (auto simp: updates_sent_def)
    show "\<forall>e\<in>set ?cs. is_create (fst e) \<and> hfind (b_orders b) (rid e) = None \<and>
       max_order_id s < rid e \<and> rid e \<le> max_order_id s'"
      using Cr numbered_creates_request [of _ b1] old by (metis leD)
  qed (use dist pend gw in blast)+
qed



section \<open>What the counting pass computes\<close>

text \<open>The reference: orders in flight on a side, and the quantity expected at a level.\<close>

definition in_flight :: "side \<Rightarrow> (order_ident, oms_order) hash \<Rightarrow> nat" where
  "in_flight side os =
     length (filter (\<lambda>(_, ord). is_pending ord \<and> \<not> is_done ord \<and> (o_side ord = SELL) = (side = SELL)) os)"

definition expected_on :: "double \<Rightarrow> side \<Rightarrow> level_ident \<Rightarrow> (order_ident, oms_order) hash \<Rightarrow> double \<Rightarrow> double" where
  "expected_on tick side i os q0 =
     foldl (\<lambda>q (_, ord). q + ov_quantity (o_expected ord)) q0
       (filter (\<lambda>(_, ord). \<not> is_done ord \<and> o_side ord = side \<and>
          level_index (ov_price (o_expected ord)) tick = Some i) os)"

definition level_quantity :: "side \<Rightarrow> level_ident \<Rightarrow> book \<Rightarrow> double" where
  "level_quantity side i b =
     (case hfind (side_levels side b) i of None \<Rightarrow> Fin 0 | Some l \<Rightarrow> lv_expected_quantity l)"

lemma pending_of_bump:
  "pending_of sd (bump_pending s b) = pending_of sd b + (if (s = SELL) = (sd = SELL) then 1 else 0)"
  by (auto simp: pending_of_def bump_pending_def)

lemma b_pending_put [simp]: "b_pending (put_levels s ls b) = b_pending b" "b_pending (put_level s i l b) = b_pending b"
  by (cases s; simp add: put_levels_def put_level_def)+

lemma emplace_level_pending: "emplace_level X sd p b = Inr (i, l, new, b') \<Longrightarrow> b_pending b' = b_pending b"
  by (auto simp: emplace_level_def res_simps Let_def split: option.splits)

lemma pending_of_cong: "b_pending b' = b_pending b \<Longrightarrow> pending_of sd b' = pending_of sd b"
  by (simp add: pending_of_def)

lemma accumulate_order_pending:
  assumes "accumulate_order X ord b = Inr b'"
  shows "pending_of sd b' = pending_of sd b + of_nat (in_flight sd [(k, ord)])"
  using assms
  by (auto simp: accumulate_order_def res_simps Let_def in_flight_def pending_of_bump
      dest!: emplace_level_pending pending_of_cong [where sd = sd] split: if_splits
      cong: pending_of_cong)

lemma in_flight_Cons: "in_flight sd (e # os) = in_flight sd [e] + in_flight sd os"
  by (simp add: in_flight_def)

lemma accumulate_loop_pending:
  assumes "rfold (\<lambda>(_, ord). accumulate_order X ord) os b = Inr b'"
  shows "pending_of sd b' = pending_of sd b + of_nat (in_flight sd os)"
  using assms
proof (induction os arbitrary: b)
  case Nil
  then show ?case by (simp add: in_flight_def)
next
  case (Cons e os)
  obtain k ord where e: "e = (k, ord)" by (cases e)
  from Cons.prems e obtain b1 where 1: "accumulate_order X ord b = Inr b1"
    and 2: "rfold (\<lambda>(_, ord). accumulate_order X ord) os b1 = Inr b'" by (auto simp: res_simps)
  from Cons.IH [OF 2] accumulate_order_pending [OF 1, of sd k] show ?case
    by (simp add: in_flight_Cons [of sd "(k, ord)" os] e)
qed

lemma accumulate_orders_pending:
  "accumulate_orders X b = Inr b' \<Longrightarrow> pending_of sd b' = of_nat (in_flight sd (b_orders b))"
  unfolding accumulate_orders_def by (drule accumulate_loop_pending [where sd = sd]) (simp add: pending_of_def)

text \<open>A level's expected quantity grows by the orders on it.\<close>

lemma side_levels_put_levels:
  "side \<noteq> SIDE_UNDEFINED \<Longrightarrow>
     side_levels sd (put_levels side ls b) = (if sd = side then ls else side_levels sd b)"
  by (cases side; cases sd) (simp_all add: side_levels_def put_levels_def)

lemma level_quantity_bump [simp]: "level_quantity sd i (bump_pending s b) = level_quantity sd i b"
  by (cases sd) (simp_all add: level_quantity_def side_levels_def bump_pending_def)

lemma get_levels_Inr: "get_levels s b = Inr ls \<longleftrightarrow> s \<noteq> SIDE_UNDEFINED \<and> ls = side_levels s b"
  by (cases s) (auto simp: get_levels_def side_levels_def)

definition levels_wf :: "book \<Rightarrow> bool" where
  "levels_wf b \<longleftrightarrow> hwf (b_bids b) \<and> hwf (b_asks b)"

lemma levels_wf_side: "levels_wf b \<Longrightarrow> hwf (side_levels s b)"
  by (cases s) (simp_all add: levels_wf_def side_levels_def hd.wf_empty)

lemma levels_wf_put: "levels_wf b \<Longrightarrow> hwf ls \<Longrightarrow> levels_wf (put_levels s ls b)"
  by (cases s) (simp_all add: levels_wf_def put_levels_def)

lemma emplace_level_quantity:
  assumes run: "emplace_level X s p b = Inr (i, l, new, b')" and wf: "levels_wf b"
  shows "s \<noteq> SIDE_UNDEFINED" "level_index p (b_tick_size b) = Some i" "hfind (side_levels s b') i = Some l"
    "level_quantity sd j b' = level_quantity sd j b" "levels_wf b'"
    "lv_expected_quantity l = level_quantity s i b"
proof -
  have s: "s \<noteq> SIDE_UNDEFINED" and i: "level_index p (b_tick_size b) = Some i"
    using run by (auto simp: emplace_level_def res_simps get_levels_Inr Let_def split: option.splits)
  note hw = levels_wf_side [OF wf, of s]
  have cases: "hfind (side_levels s b) i = Some l \<and> b' = b \<or>
    hfind (side_levels s b) i = None \<and> l = default_level\<lparr>lv_price := p\<rparr> \<and>
    b' = put_levels s (hput (x_layout X) i l (side_levels s b)) b"
    using run i by (auto simp: emplace_level_def res_simps get_levels_Inr Let_def split: option.splits)
  show "s \<noteq> SIDE_UNDEFINED" "level_index p (b_tick_size b) = Some i" by fact+
  show "hfind (side_levels s b') i = Some l" "levels_wf b'" "level_quantity sd j b' = level_quantity sd j b"
    "lv_expected_quantity l = level_quantity s i b"
    using cases hw wf
    by (auto simp: hd.find_put side_levels_put_levels [OF s] levels_wf_put hd.wf_put level_quantity_def
        default_level_def)
qed

lemma level_quantity_put_level:
  assumes "s \<noteq> SIDE_UNDEFINED" "hfind (side_levels s b) i = Some l0"
  shows "level_quantity sd j (put_level s i l b) =
     (if sd = s \<and> j = i then lv_expected_quantity l else level_quantity sd j b)"
  unfolding put_level_levels level_quantity_def
  using assms(2) by (simp add: side_levels_put_levels [OF assms(1)] hfind_hset_Some)

lemma levels_wf_put_level: "levels_wf b \<Longrightarrow> levels_wf (put_level s i l b)"
  unfolding put_level_levels by (rule levels_wf_put) (simp_all add: levels_wf_side)

lemma accumulate_order_quantity:
  assumes run: "accumulate_order X ord b = Inr b'" and wf: "levels_wf b"
  shows "level_quantity sd i b' = expected_on (b_tick_size b) sd i [(k, ord)] (level_quantity sd i b) \<and> levels_wf b'"
proof (cases "is_done ord")
  case True
  with run wf show ?thesis by (simp add: accumulate_order_def expected_on_def)
next
  case False
  let ?b1 = "if is_pending ord then bump_pending (o_side ord) b else b"
  from run False obtain j l new b2 where
    lev: "emplace_level X (o_side ord) (ov_price (o_expected ord)) ?b1 = Inr (j, l, new, b2)" and
    b': "b' = put_level (o_side ord) j
      (l\<lparr>lv_expected_quantity := lv_expected_quantity l + ov_quantity (o_expected ord),
         lv_confirmed_quantity := lv_confirmed_quantity l + ov_quantity (o_confirmed ord)\<rparr>) b2"
    by (auto simp: accumulate_order_def res_simps Let_def)
  have wf1: "levels_wf ?b1" using wf by (simp add: levels_wf_def bump_pending_def)
  note e = emplace_level_quantity [OF lev wf1]
  have t: "b_tick_size ?b1 = b_tick_size b" "level_quantity sd' i' ?b1 = level_quantity sd' i' b" for sd' i'
    by simp_all (simp add: bump_pending_def)
  show ?thesis
    using e t False unfolding b'
    by (auto simp: level_quantity_put_level [OF e(1,3)] levels_wf_put_level expected_on_def)
qed

lemma expected_on_Cons:
  "expected_on t sd i (e # os) q = expected_on t sd i os (expected_on t sd i [e] q)"
  by (simp add: expected_on_def)

lemma accumulate_loop_quantity:
  assumes "rfold (\<lambda>(_, ord). accumulate_order X ord) os b = Inr b'" "levels_wf b"
  shows "level_quantity sd i b' = expected_on (b_tick_size b) sd i os (level_quantity sd i b)"
  using assms
proof (induction os arbitrary: b)
  case Nil
  then show ?case by (simp add: expected_on_def)
next
  case (Cons e os)
  obtain k ord where e: "e = (k, ord)" by (cases e)
  from Cons.prems e obtain b1 where 1: "accumulate_order X ord b = Inr b1"
    and 2: "rfold (\<lambda>(_, ord). accumulate_order X ord) os b1 = Inr b'" by (auto simp: res_simps)
  from Cons.IH [OF 2] accumulate_order_quantity [OF 1 Cons.prems(2), of sd i k]
    same_frame_tick [OF accumulate_order_frame [OF 1]]
  show ?case by (simp add: expected_on_Cons [of _ sd i "(k, ord)" os] e)
qed


lemma reset_level_quantity: "level_quantity sd i (reset_levels b) = Fin 0"
proof -
  have "hfind (map (\<lambda>(i, l). (i, l\<lparr>lv_expected_quantity := Fin 0, lv_confirmed_quantity := Fin 0\<rparr>)) ls) i =
      map_option (\<lambda>l. l\<lparr>lv_expected_quantity := Fin 0, lv_confirmed_quantity := Fin 0\<rparr>) (hfind ls i)" for ls :: levels
    by (induction ls) (auto simp: hfind_def)
  then show ?thesis
    by (cases sd) (auto simp: level_quantity_def side_levels_def reset_levels_def Let_def hd.find_empty split: option.splits)
qed

lemma levels_wf_reset: "levels_wf b \<Longrightarrow> levels_wf (reset_levels b)"
  by (simp add: levels_wf_def reset_levels_def Let_def hwf_def hkeys_def comp_def case_prod_unfold)

lemma accumulate_orders_quantity:
  assumes run: "accumulate_orders X b = Inr b'" and wf: "levels_wf b"
  shows "level_quantity sd i b' = expected_on (b_tick_size b) sd i (b_orders b) (level_quantity sd i b)"
proof -
  let ?b = "b\<lparr>b_pending := (0, 0)\<rparr>"
  have "levels_wf ?b" using wf by (simp add: levels_wf_def)
  moreover have "level_quantity sd i ?b = level_quantity sd i b"
    by (cases sd) (simp_all add: level_quantity_def side_levels_def)
  ultimately show ?thesis using accumulate_loop_quantity [OF run [unfolded accumulate_orders_def]] by simp
qed

lemma accumulate_reset_quantity:
  "accumulate_orders X (reset_levels b) = Inr b' \<Longrightarrow> levels_wf b \<Longrightarrow>
     level_quantity sd i b' = expected_on (b_tick_size b) sd i (b_orders b) (Fin 0)"
  by (simp add: accumulate_orders_quantity [OF _ levels_wf_reset] reset_level_quantity reset_levels_keeps)

text \<open>
  C11: every counting pass of \<open>Manager::process\<close>, the first as well as those after a jump to
  \<open>again\<close>, adds to the expected quantity a level has before the pass, in iteration order, the
  expected quantities of the orders on that side at that price index which are not completed or
  canceled, and makes the counter of pending requests of a side the number of its orders in flight,
  modulo 2^16.  The levels are reset to zero, so the first pass gives the sums themselves; a later
  one, which nothing resets, adds to them.
\<close>

theorem accumulate_orders_sums:
  assumes run: "accumulate_orders X b = Inr b'" and wf: "levels_wf b"
  shows "level_quantity side i b' = expected_on (b_tick_size b) side i (b_orders b) (level_quantity side i b) \<and>
    (\<forall>b0. b = reset_levels b0 \<longrightarrow>
       level_quantity side i b' = expected_on (b_tick_size b0) side i (b_orders b0) (Fin 0)) \<and>
    pending_of side b' = of_nat (in_flight side (b_orders b))"
  using accumulate_orders_quantity [OF run wf] accumulate_orders_pending [OF run]
  by (simp add: reset_level_quantity reset_levels_keeps)

lemma scan_orders_end:
  assumes "scan_orders X gws os (b, s) = Inr (False, b', s')"
  shows "b_orders b' = b_orders b \<and> b_pending b' = b_pending b \<and> s' = s"
  using assms
proof (induction os arbitrary: b)
  case Nil
  then show ?case by simp
next
  case (Cons e os)
  obtain k ord where e: "e = (k, ord)" by (cases e)
  from Cons.prems e obtain i l new b1 where
    lev: "emplace_level X (o_side ord) (ov_price (o_expected ord)) b = Inr (i, l, new, b1)"
    by (auto simp: res_simps)
  from Cons.prems lev e have "scan_orders X gws os (b1, s) = Inr (False, b', s')"
    by (auto simp: res_simps Let_def split: if_splits option.splits prod.splits)
  from Cons.IH [OF this] emplace_level_orders [OF lev] emplace_level_pending [OF lev] show ?case by simp
qed

lemma process_again_pending:
  assumes "process_again X gws (b, s) = Inr (b', s')"
  shows "pending_of sd b' = of_nat (in_flight sd (b_orders b'))"
  using assms
proof (induction X gws "(b, s)" arbitrary: b s rule: process_again.induct)
  case (1 X gws b s)
  from "1.prems" obtain b1 again b2 s2 where
    acc: "accumulate_orders X b = Inr b1" and sc: "scan_orders X gws (b_orders b1) (b1, s) = Inr (again, b2, s2)"
    and rest: "(if again then process_again X gws (b2, s2) else Inr (b2, s2)) = Inr (b', s')"
    unfolding process_again.simps [of X gws b s] by (auto simp: res_simps)
  show ?case
  proof (cases again)
    case True
    with "1.hyps" [OF acc sc refl] rest show ?thesis by simp
  next
    case False
    with sc rest have "scan_orders X gws (b_orders b1) (b1, s) = Inr (False, b', s')" by simp
    from scan_orders_end [OF this] accumulate_orders_pending [OF acc, of sd] accumulate_orders_orders [OF acc]
    show ?thesis by (metis pending_of_cong)
  qed
qed

lemma missing_can_create: "t \<in> set (missing X info b) \<Longrightarrow> can_create b info t"
  by (auto simp: missing_def missing_on_def)

lemma numbered_creates_target:
  "(Create c, g) \<in> set (numbered_creates b n ts) \<Longrightarrow> \<exists>t\<in>set ts. cr_side c = to_side t \<and> cr_quantity c = to_quantity t"
  by (induction ts arbitrary: n) (auto simp: create_request_of_def)

lemma in_flight_0: "in_flight sd os = 0 \<Longrightarrow> (k, ord) \<in> set os \<Longrightarrow> is_pending ord \<Longrightarrow> \<not> is_done ord \<Longrightarrow>
    (o_side ord = SELL) \<noteq> (sd = SELL)"
  by (auto simp: in_flight_def filter_empty_conv)

lemma small_word_0: "(of_nat n :: 16 word) = 0 \<Longrightarrow> n < 2 ^ 16 \<Longrightarrow> n = 0"
  by (simp add: word_of_nat_eq_0_iff) (metis gr0I nat_dvd_not_less)




section \<open>Instances\<close>

lemma demo_keys: "keys_ok demo_book" "ids_ok (demo_book, demo_oms)" "levels_wf demo_book"
  by (simp_all add: keys_ok_def ids_ok_def levels_wf_def demo_eval hash_eval)

lemma demo_process: "\<exists>b' s'. process plain_ext demo_gateways demo_info (demo_book, demo_oms) = Inr (b', s')"
  by (simp add: process_eval hash_eval demo_eval)

lemma process_requests_witness:
  "\<exists>b' s' updates creates. process plain_ext demo_gateways demo_info (demo_book, demo_oms) = Inr (b', s') \<and>
     sent_requests s' = sent_requests demo_oms @ updates @ creates \<and> distinct (map rid (updates @ creates))"
  using demo_process process_requests [OF _ demo_keys(1,2)] by blast

lemma process_quiet_witness:
  "\<exists>b' s'. process plain_ext demo_gateways demo_info (demo_book\<lparr>b_ban_until := 100\<rparr>, demo_oms) = Inr (b', s') \<and>
     s' = demo_oms \<and> b_orders b' = b_orders demo_book"
proof -
  let ?b = "demo_book\<lparr>b_ban_until := 100\<rparr>"
  have run: "process plain_ext demo_gateways demo_info (?b, demo_oms) = Inr (?b, demo_oms)"
    by (simp add: process_eval hash_eval demo_eval)
  have "oms_now demo_oms < b_ban_until ?b" by (simp add: demo_oms_def)
  with process_quiet [OF run] run show ?thesis by simp
qed

text \<open>The first pass and one more.\<close>

lemma accumulate_orders_sums_witness:
  "\<exists>b1 b2. accumulate_orders plain_ext (reset_levels demo_book) = Inr b1 \<and> accumulate_orders plain_ext b1 = Inr b2 \<and>
     level_quantity BUY 101 b1 = Fin 5 \<and> level_quantity BUY 101 b2 = Fin 10 \<and> pending_of BUY b2 = 0"
proof -
  have "\<exists>b1 b2. accumulate_orders plain_ext (reset_levels demo_book) = Inr b1 \<and> accumulate_orders plain_ext b1 = Inr b2 \<and>
      levels_wf b1 \<and> b_orders b1 = b_orders demo_book \<and> b_tick_size b1 = b_tick_size demo_book"
    by (simp add: process_eval hash_eval demo_eval levels_wf_def)
  then obtain b1 b2 where r: "accumulate_orders plain_ext (reset_levels demo_book) = Inr b1"
    "accumulate_orders plain_ext b1 = Inr b2" "levels_wf b1" "b_orders b1 = b_orders demo_book"
    "b_tick_size b1 = b_tick_size demo_book" by blast
  have e: "expected_on (b_tick_size demo_book) BUY 101 (b_orders demo_book) (Fin 0) = Fin 5"
    "expected_on (b_tick_size demo_book) BUY 101 (b_orders demo_book) (Fin 5) = Fin 10"
    by (simp_all add: expected_on_def demo_eval is_done_def level_index_def)
  have f: "in_flight BUY (b_orders demo_book) = 0" by (simp add: demo_eval in_flight_def is_pending_def)
  have "level_quantity BUY 101 b1 = expected_on (b_tick_size demo_book) BUY 101 (b_orders demo_book) (Fin 0)"
    using accumulate_orders_sums [OF r(1) levels_wf_reset [OF demo_keys(3)], of BUY 101] by blast
  then have "level_quantity BUY 101 b1 = Fin 5" by (simp only: e)
  with accumulate_orders_sums [OF r(2,3), of BUY 101] e f r(4,5) have "level_quantity BUY 101 b2 = Fin 10 \<and> pending_of BUY b2 = 0" by simp
  with \<open>level_quantity BUY 101 b1 = Fin 5\<close> r(1,2) show ?thesis by blast
qed

text \<open>A sell order in flight and a buy level to fill.\<close>

definition busy_sell :: oms_order where
  "busy_sell = (live_order 1 SELL (Fin 105) (Fin 5))
     \<lparr>o_pending := \<lparr>ov_type = CANCEL_ORDER, ov_status = WORKING, ov_version = 2, ov_price = Fin 105,
                   ov_quantity = Fin 0, ov_created_time = 0\<rparr>\<rparr>"

definition busy_book :: book where
  "busy_book = demo_book\<lparr>b_orders := [(1, busy_sell)]\<rparr>"


text \<open>A gateway that takes new orders and cancellations but no modifications.\<close>

definition no_modify_ext :: "unit ext" where
  "no_modify_ext = plain_ext\<lparr>x_gw_ready_account := (\<lambda>_ m _. ST_MODIFY_ORDER \<notin> m)\<rparr>"

text \<open>
   with a gateway that supports creations and cancellations but not modifications,
  \<open>Manager::process\<close>, whose own guard asks for the first two only, fails the assertion of
  \<open>create_order\<close>, which asks for support of modifications.
\<close>

theorem process_asserts_modify_support:
  "gw_is_ready_account no_modify_ext {ST_CREATE_ORDER, ST_CANCEL_ORDER} 0 ''a'' demo_gateways \<and>
   process no_modify_ext demo_gateways demo_info (demo_book\<lparr>b_orders := []\<rparr>, demo_oms) = Inl Assert_Failed"
  by (simp add: process_eval hash_eval demo_eval no_modify_ext_def plain_ext_def double_compare_nan)

end
