(* ===== verification/Oms_Index.thy ===== *)
theory Oms_Index
  imports Oms_Requests
begin

text \<open>
  The invariant of the order manager: the index \<open>market_by_order_\<close> holds exactly the live orders,
  each under the book it is in, so that a reply of the gateway finds its order.  The handlers are
  put together into a transition system on events, and the invariant holds in all its reachable
  states.
\<close>

section \<open>The invariant\<close>

definition key_ident :: "oms_market \<Rightarrow> book_ident" where
  "key_ident key = (om_strategy key, om_account key, om_market key)"

definition index_ok :: "book_ident \<Rightarrow> book \<Rightarrow> (order_ident, oms_market) hash \<Rightarrow> bool" where
  "index_ok k b idx \<longleftrightarrow>
     keys_ok b \<and>
     (\<forall>i. (\<exists>ord. hfind (b_orders b) i = Some ord) \<longleftrightarrow> (\<exists>key. hfind idx i = Some key \<and> key_ident key = k))"

definition oms_wf :: "oms \<Rightarrow> bool" where
  "oms_wf s \<longleftrightarrow>
     hwf3 (books s) \<and> hwf (market_by_order s) \<and>
     (\<forall>k b. hfind3 (books s) k = Some b \<longrightarrow> book_ident b = k \<and> index_ok k b (market_by_order s)) \<and>
     (\<forall>i key. hfind (market_by_order s) i = Some key \<longrightarrow> (\<exists>b. hfind3 (books s) (key_ident key) = Some b))"

lemma oms_wfD:
  assumes "oms_wf s"
  shows "hwf3 (books s)" "hwf (market_by_order s)"
    "hfind3 (books s) k = Some b \<Longrightarrow> book_ident b = k"
    "hfind3 (books s) k = Some b \<Longrightarrow> index_ok k b (market_by_order s)"
    "hfind (market_by_order s) i = Some key \<Longrightarrow> \<exists>b. hfind3 (books s) (key_ident key) = Some b"
  using assms unfolding oms_wf_def by blast+

lemma oms_wfI:
  assumes "hwf3 (books s)" "hwf (market_by_order s)"
    "\<And>k b. hfind3 (books s) k = Some b \<Longrightarrow> book_ident b = k \<and> index_ok k b (market_by_order s)"
    "\<And>i key. hfind (market_by_order s) i = Some key \<Longrightarrow> \<exists>b. hfind3 (books s) (key_ident key) = Some b"
  shows "oms_wf s"
  unfolding oms_wf_def using assms by blast

text \<open>What an operation on one book may do to the index.\<close>

definition idx_ok :: "book_ident \<Rightarrow> book \<times> oms \<Rightarrow> bool" where
  "idx_ok k = (\<lambda>(b, s). hwf (market_by_order s) \<and> index_ok k b (market_by_order s))"

definition same_elsewhere :: "book_ident \<Rightarrow> oms \<Rightarrow> oms \<Rightarrow> bool" where
  "same_elsewhere k s s' \<longleftrightarrow>
     (\<forall>i key. key_ident key \<noteq> k \<longrightarrow>
        (hfind (market_by_order s') i = Some key) = (hfind (market_by_order s) i = Some key))"

definition book_step :: "book_ident \<Rightarrow> book \<times> oms \<Rightarrow> book \<times> oms \<Rightarrow> bool" where
  "book_step k = (\<lambda>(b, s) (b', s').
     books s' = books s \<and> book_ident b' = book_ident b \<and>
     (idx_ok k (b, s) \<longrightarrow> idx_ok k (b', s') \<and> same_elsewhere k s s'))"

lemma same_elsewhere_refl [simp]: "same_elsewhere k s s"
  by (simp add: same_elsewhere_def)

lemma same_elsewhere_trans: "same_elsewhere k s1 s2 \<Longrightarrow> same_elsewhere k s2 s3 \<Longrightarrow> same_elsewhere k s1 s3"
  unfolding same_elsewhere_def by metis

lemma book_stepI:
  assumes "books s' = books s" "book_ident b' = book_ident b"
    "idx_ok k (b, s) \<Longrightarrow> idx_ok k (b', s') \<and> same_elsewhere k s s'"
  shows "book_step k (b, s) (b', s')"
  using assms by (simp add: book_step_def)

lemma book_stepD:
  assumes "book_step k (b, s) (b', s')"
  shows "books s' = books s" "book_ident b' = book_ident b"
    "idx_ok k (b, s) \<Longrightarrow> idx_ok k (b', s')" "idx_ok k (b, s) \<Longrightarrow> same_elsewhere k s s'"
  using assms unfolding book_step_def by blast+

lemma book_step_refl [simp]: "book_step k r r"
  by (cases r) (simp add: book_step_def)

lemma book_step_trans:
  assumes "book_step k r1 r2" "book_step k r2 r3"
  shows "book_step k r1 r3"
proof -
  obtain b1 s1 b2 s2 b3 s3 where r: "r1 = (b1, s1)" "r2 = (b2, s2)" "r3 = (b3, s3)"
    by (cases r1, cases r2, cases r3)
  show ?thesis
    unfolding r
    using book_stepD [OF assms(1) [unfolded r]] book_stepD [OF assms(2) [unfolded r]]
    by (intro book_stepI) (simp_all, blast intro: same_elsewhere_trans)
qed

text \<open>Operations that change neither the set of orders nor the index.\<close>

lemma book_step_orders:
  assumes "books s' = books s" "market_by_order s' = market_by_order s" "book_ident b' = book_ident b"
    "b_orders b' = b_orders b"
  shows "book_step k (b, s) (b', s')"
  using assms by (intro book_stepI) (simp_all add: idx_ok_def index_ok_def keys_ok_def same_elsewhere_def)

lemma book_ident_put_order [simp]: "book_ident (put_order i ord b) = book_ident b"
  by (simp add: book_ident_def put_order_def)

lemma index_ok_put_order:
  assumes "index_ok k b idx" "o_order_id ord = i" "hfind (b_orders b) i = Some old"
  shows "index_ok k (put_order i ord b) idx"
proof -
  have "hfind (b_orders (put_order i ord b)) = (hfind (b_orders b))(i \<mapsto> ord)"
    using hfind_hset_Some [OF assms(3)] by (simp add: put_order_def)
  then show ?thesis
    using assms keys_ok_put_order [of b ord i] unfolding index_ok_def by (auto split: if_splits)
qed

lemma book_step_put_order:
  "o_order_id ord = i \<Longrightarrow> hfind (b_orders b) i = Some old \<Longrightarrow> book_step k (b, s) (put_order i ord b, s)"
  by (rule book_stepI) (simp_all add: idx_ok_def index_ok_put_order)

lemma store_book_wf:
  assumes wf: "oms_wf s" and b: "hfind3 (books s) k = Some b" and step: "book_step k (b, s) (b', s')"
  shows "oms_wf (store_book L k b' s')"
proof -
  note hw = oms_wfD(1,2) [OF wf] and ib = oms_wfD(3,4) [OF wf b]
  have s: "books s' = books s" "book_ident b' = k" "hwf (market_by_order s')" "index_ok k b' (market_by_order s')"
    and fr: "\<And>i key. key_ident key \<noteq> k \<Longrightarrow>
      (hfind (market_by_order s') i = Some key) = (hfind (market_by_order s) i = Some key)"
    using book_stepD [OF step] hw(2) ib by (simp_all add: idx_ok_def same_elsewhere_def)
  have f: "hfind3 (hput3 L k b' (books s)) = (hfind3 (books s))(k \<mapsto> b')"
    by (rule hd3.pair.find_put [OF hw(1)])
  have other: "index_ok k' c (market_by_order s')" if "k' \<noteq> k" "hfind3 (books s) k' = Some c" for k' c
  proof -
    have "(\<exists>key. hfind (market_by_order s') i = Some key \<and> key_ident key = k') \<longleftrightarrow>
        (\<exists>key. hfind (market_by_order s) i = Some key \<and> key_ident key = k')" for i
      using fr that(1) by metis
    with oms_wfD(4) [OF wf that(2)] show ?thesis by (simp add: index_ok_def)
  qed
  show ?thesis
  proof (rule oms_wfI)
    fix k' c
    assume "hfind3 (books (store_book L k b' s')) k' = Some c"
    then have "((hfind3 (books s))(k \<mapsto> b')) k' = Some c" by (simp add: store_book_def s(1) f)
    then show "book_ident c = k' \<and> index_ok k' c (market_by_order (store_book L k b' s'))"
      using s(2,4) other oms_wfD(3) [OF wf] by (cases "k' = k") (simp_all add: store_book_def)
  next
    fix i key
    assume i: "hfind (market_by_order (store_book L k b' s')) i = Some key"
    show "\<exists>c. hfind3 (books (store_book L k b' s')) (key_ident key) = Some c"
    proof (cases "key_ident key = k")
      case True
      then show ?thesis by (simp add: store_book_def s(1) f)
    next
      case False
      with i fr have "hfind (market_by_order s) i = Some key" by (simp add: store_book_def)
      with oms_wfD(5) [OF wf] False show ?thesis by (simp add: store_book_def s(1) f)
    qed
  qed (simp_all add: store_book_def s hd3.pair.wf_put [OF hw(1)])
qed

section \<open>Requests\<close>

definition ids_below :: "oms \<Rightarrow> bool" where
  "ids_below s \<longleftrightarrow> (\<forall>i key. hfind (market_by_order s) i = Some key \<longrightarrow> i \<le> max_order_id s)"

definition nobody_ready :: "'g ext \<Rightarrow> 'g gateways \<Rightarrow> bool" where
  "nobody_ready X gws \<longleftrightarrow>
     (\<forall>g a. \<not> gw_is_ready_account X {ST_CREATE_ORDER, ST_CANCEL_ORDER} g a gws)"

lemma key_ident_book_key [simp]: "key_ident (book_key b) = book_ident b"
  by (simp add: key_ident_def book_key_def book_ident_def)

lemma create_order_step:
  assumes run: "create_order X gws t (b, s) = Inr (b', s')" and k: "book_ident b = k" and below: "ids_below s"
  shows "book_step k (b, s) (b', s') \<and> (idx_ok k (b, s) \<longrightarrow> ids_below s')"
proof -
  let ?i = "max_order_id s + 1"
  let ?b = "b\<lparr>b_orders := hput (x_layout X) ?i (created_order ?i t) (b_orders b)\<rparr>"
  have i: "?i \<noteq> 0" and fresh: "hfind (b_orders b) ?i = None" and b': "b' = ?b"
    and s': "max_order_id s' = ?i" "books s' = books s"
      "market_by_order s' = hput (x_layout X) ?i (book_key ?b) (market_by_order s)"
    using run by (auto simp: create_order_def Let_def res_simps send_request_def split: option.splits)
  have lt: "max_order_id s < ?i" using i by (intro word_succ_less) (metis add.left_inverse)
  have free: "hfind (market_by_order s) ?i = None"
    using below lt by (metis ids_below_def leD option.exhaust)
  have bk: "key_ident (book_key ?b) = k" using k by (simp add: book_ident_def)
  have f: "hwf (market_by_order s) \<Longrightarrow> hfind (market_by_order s') = (hfind (market_by_order s))(?i \<mapsto> book_key ?b)"
    by (simp add: s' hd.find_put)
  have "index_ok k b' (market_by_order s')" if hw: "hwf (market_by_order s)" and ok: "index_ok k b (market_by_order s)"
  proof -
    have kb: "keys_ok b" using ok by (simp add: index_ok_def)
    then have fb: "hfind (b_orders b') = (hfind (b_orders b))(?i \<mapsto> created_order ?i t)"
      by (simp add: b' keys_ok_def hd.find_put)
    have "keys_ok b'" using kb by (simp add: keys_ok_def b' hd.wf_put list_all_hput)
    with ok fresh free bk show ?thesis unfolding index_ok_def fb f [OF hw] by auto
  qed
  moreover have "hwf (market_by_order s')" if "hwf (market_by_order s)" using that by (simp add: s' hd.wf_put)
  moreover have "same_elsewhere k s s'" if "hwf (market_by_order s)"
    using that bk free by (auto simp: f same_elsewhere_def)
  ultimately have "book_step k (b, s) (b', s')"
    using s'(2) by (intro book_stepI) (simp_all add: b' book_ident_def idx_ok_def)
  moreover have "ids_below s'" if "hwf (market_by_order s)"
    unfolding ids_below_def s'(1) f [OF that] using below lt
    by (auto simp: ids_below_def intro: order_trans less_imp_le)
  ultimately show ?thesis by (simp add: idx_ok_def)
qed

lemma hfind_in_keys: "(\<exists>v. hfind m i = Some v) \<longleftrightarrow> i \<in> set (hkeys m)"
  using hfind_None [of m i] by auto

lemma index_ok_keys:
  "index_ok k b idx \<Longrightarrow> keys_ok b' \<Longrightarrow> set (hkeys (b_orders b')) = set (hkeys (b_orders b)) \<Longrightarrow> index_ok k b' idx"
  by (simp add: index_ok_def hfind_in_keys)

lemma book_step_keys:
  assumes "books s' = books s" "market_by_order s' = market_by_order s" "book_ident b' = book_ident b"
    "keys_ok b \<Longrightarrow> keys_ok b'" "set (hkeys (b_orders b')) = set (hkeys (b_orders b))"
  shows "book_step k (b, s) (b', s')"
  using assms index_ok_keys [of k b "market_by_order s" b']
  by (intro book_stepI) (simp_all add: idx_ok_def index_ok_def same_elsewhere_def)

text \<open>Steps from books of the same strategy, account and market, with the bound on identifiers.\<close>

definition live_step :: "book_ident \<Rightarrow> book \<times> oms \<Rightarrow> book \<times> oms \<Rightarrow> bool" where
  "live_step k r r' \<longleftrightarrow>
     book_step k r r' \<and> (idx_ok k r \<and> ids_below (snd r) \<longrightarrow> ids_below (snd r'))"

lemma live_step_refl [simp]: "live_step k r r"
  by (simp add: live_step_def)

lemma book_step_idx: "book_step k r r' \<Longrightarrow> idx_ok k r \<Longrightarrow> idx_ok k r'"
  by (cases r, cases r') (simp add: book_stepD(3))

lemma live_step_trans:
  assumes "live_step k r1 r2" "live_step k r2 r3"
  shows "live_step k r1 r3"
  using assms book_step_trans [of k r1 r2 r3] book_step_idx [of k r1 r2] by (simp add: live_step_def)

lemma live_step_ident: "live_step k (b, s) (b', s') \<Longrightarrow> book_ident b' = book_ident b"
  unfolding live_step_def by (drule conjunct1) (rule book_stepD(2))

lemma live_step_idx: "live_step k r r' \<Longrightarrow> idx_ok k r \<Longrightarrow> idx_ok k r'"
  unfolding live_step_def by (drule conjunct1) (rule book_step_idx)

lemma live_step_below: "live_step k (b, s) (b', s') \<Longrightarrow> idx_ok k (b, s) \<Longrightarrow> ids_below s \<Longrightarrow> ids_below s'"
  by (simp add: live_step_def)

lemma live_step_same:
  "book_step k (b, s) (b', s') \<Longrightarrow> market_by_order s' = market_by_order s \<Longrightarrow> max_order_id s \<le> max_order_id s' \<Longrightarrow>
     live_step k (b, s) (b', s')"
  by (auto simp: live_step_def ids_below_def intro: order_trans)

lemma create_on_level_step:
  assumes "create_on_level X gws info side e (b, s) = Inr (b', s')" "book_ident b = k" "ids_below s"
  shows "live_step k (b, s) (b', s')"
  using assms create_order_step [of X gws _ b s b' s' k]
  by (cases e) (auto simp: create_on_level_def res_simps Let_def live_step_def split: if_splits)

lemma create_levels_step:
  assumes "rfold (create_on_level X gws info side) ls (b, s) = Inr (b', s')" "book_ident b = k" "ids_below s"
    "idx_ok k (b, s)"
  shows "live_step k (b, s) (b', s')"
  using assms
proof (induction ls arbitrary: b s)
  case Nil
  then show ?case by simp
next
  case (Cons e ls)
  from Cons.prems(1) obtain b1 s1 where
    1: "create_on_level X gws info side e (b, s) = Inr (b1, s1)" and
    2: "rfold (create_on_level X gws info side) ls (b1, s1) = Inr (b', s')" by (auto simp: res_simps)
  note st = create_on_level_step [OF 1 Cons.prems(2,3)]
  have "live_step k (b1, s1) (b', s')"
    using Cons.IH [OF 2] live_step_ident [OF st] live_step_idx [OF st] live_step_below [OF st] Cons.prems
    by simp
  with st show ?case by (rule live_step_trans)
qed

lemma create_orders_step:
  assumes "create_orders X gws info (b, s) = Inr (b', s')" "book_ident b = k" "ids_below s"
    "idx_ok k (b, s)"
  shows "live_step k (b, s) (b', s')"
proof -
  from assms(1) obtain b1 s1 where
    1: "rfold (create_on_level X gws info BUY) (b_bids b) (b, s) = Inr (b1, s1)" and
    2: "rfold (create_on_level X gws info SELL) (b_asks b1) (b1, s1) = Inr (b', s')"
    by (auto simp: create_orders_def get_levels_def res_simps)
  note st = create_levels_step [OF 1 assms(2-4)]
  have "live_step k (b1, s1) (b', s')"
    using create_levels_step [OF 2] live_step_ident [OF st] live_step_idx [OF st] live_step_below [OF st] assms
    by simp
  with st show ?thesis by (rule live_step_trans)
qed

lemma process_step:
  assumes run: "process X gws info (b, s) = Inr (b', s')" and k: "book_ident b = k"
    and safe: "ids_below s \<or> nobody_ready X gws" and idx: "idx_ok k (b, s)"
  shows "live_step k (b, s) (b', s')"
  using run
proof (cases rule: process_cases)
  case quiet
  then show ?thesis
    by (intro live_step_same book_step_orders) simp_all
next
  case (active b0 b1 s1 b2)
  have below: "ids_below s" using safe active(4) by (auto simp: nobody_ready_def)
  have k0: "keys_ok b0" using idx active(5) by (simp add: keys_ok_def idx_ok_def index_ok_def)
  obtain us where us: "keys_ok b1" "updates_sent (b0, s) (b1, s1) us"
    using process_again_sent [OF active(8) k0] by blast
  note er = erase_empty_levels_orders [OF active(10)]
  have k1: "book_ident b1 = k"
    using us(2) active(11) k book_ident_frame [of b0 b1] by (simp add: updates_sent_def)
  have 1: "live_step k (b, s) (b1, s1)"
    using us active(5) k k1 by (intro live_step_same book_step_keys) (simp_all add: updates_sent_def)
  have 2: "live_step k (b1, s1) (b2, s')"
    using create_orders_step [OF active(9) k1] live_step_below [OF 1 idx below] live_step_idx [OF 1 idx]
    by simp
  have 3: "live_step k (b2, s') (b', s')"
    using er by (intro live_step_same book_step_orders) (simp_all add: book_ident_frame)
  show ?thesis using live_step_trans [OF live_step_trans [OF 1 2] 3] .
qed

section \<open>All books\<close>

lemma get_books_wf:
  assumes run: "get_books X ms f s = Inr s'" and wf: "oms_wf s" and P: "P s"
    and store: "\<And>L k b s. P (store_book L k b s) = P s"
    and step: "\<And>info b s b' s' k. oms_wf s \<Longrightarrow> P s \<Longrightarrow> hfind3 (books s) k = Some b \<Longrightarrow> f info (b, s) = Inr (b', s') \<Longrightarrow>
      book_step k (b, s) (b', s') \<and> P s'"
  shows "oms_wf s' \<and> P s'"
  using run unfolding get_books_def
proof (rule rfold_invariant [where I = "\<lambda>s. oms_wf s \<and> P s"])
  show "oms_wf s \<and> P s" using wf P by simp
next
  fix k s1 s2
  assume I: "oms_wf s1 \<and> P s1"
    and run: "(case get_market (snd (snd k)) ms of None \<Rightarrow> Inr s1
       | Some info \<Rightarrow> (case hfind3 (books s1) k of None \<Rightarrow> Inr s1
            | Some b \<Rightarrow> rbind (f info (b, s1)) (\<lambda>(b', s'). Inr (store_book (x_layout X) k b' s')))) = Inr s2"
  show "oms_wf s2 \<and> P s2"
  proof (cases "get_market (snd (snd k)) ms")
    case None
    with run I show ?thesis by simp
  next
    case (Some info)
    show ?thesis
    proof (cases "hfind3 (books s1) k")
      case None
      with Some run I show ?thesis by simp
    next
      case b: (Some b)
      with Some run obtain b' s' where f: "f info (b, s1) = Inr (b', s')" and s2: "s2 = store_book (x_layout X) k b' s'"
        by (auto simp: res_simps)
      from step [OF _ _ b f] I have "book_step k (b, s1) (b', s') \<and> P s'" by simp
      with store_book_wf [OF _ b] I s2 store show ?thesis by simp
    qed
  qed
qed


section \<open>Replies\<close>

lemma erase_order_live:
  assumes "erase_order X i (b, s) = Inr (b', s')"
  shows "live_step k (b, s) (b', s')"
proof -
  have i: "\<exists>ord. hfind (b_orders b) i = Some ord"
    and b': "b' = b\<lparr>b_orders := herase (x_layout X) i (b_orders b)\<rparr>"
    and s': "s' = s\<lparr>market_by_order := herase (x_layout X) i (market_by_order s)\<rparr>"
    using assms by (auto simp: erase_order_def res_simps)
  have f: "hwf (market_by_order s) \<Longrightarrow> hfind (market_by_order s') = (hfind (market_by_order s))(i := None)"
    by (simp add: s' hd.find_erase)
  have "idx_ok k (b', s') \<and> same_elsewhere k s s'" if ok: "idx_ok k (b, s)"
  proof -
    have hw: "hwf (market_by_order s)" "hwf (b_orders b)" and io: "index_ok k b (market_by_order s)"
      using ok by (simp_all add: idx_ok_def index_ok_def keys_ok_def)
    have fb: "hfind (b_orders b') = (hfind (b_orders b))(i := None)"
      by (simp add: b' hd.find_erase hw(2))
    have "keys_ok b'" using io by (simp add: index_ok_def keys_ok_def b' hd.wf_erase list_all_herase)
    then have "index_ok k b' (market_by_order s')"
      using io unfolding index_ok_def fb f [OF hw(1)] by auto
    moreover obtain key where "hfind (market_by_order s) i = Some key" "key_ident key = k"
      using io i unfolding index_ok_def by blast
    then have "same_elsewhere k s s'" unfolding same_elsewhere_def f [OF hw(1)] by auto
    ultimately show ?thesis by (simp add: idx_ok_def s' hd.wf_erase hw(1))
  qed
  then have "book_step k (b, s) (b', s')"
    by (intro book_stepI) (simp_all add: b' s' book_ident_def)
  moreover have "ids_below s'" if "idx_ok k (b, s)" "ids_below s"
    using that f by (auto simp: idx_ok_def ids_below_def s' split: if_splits)
  ultimately show ?thesis by (simp add: live_step_def)
qed

lemma live_step_orders:
  assumes "books s' = books s" "market_by_order s' = market_by_order s" "book_ident b' = book_ident b"
    "b_orders b' = b_orders b" "max_order_id s' = max_order_id s"
  shows "live_step k (b, s) (b', s')"
  using assms by (intro live_step_same book_step_orders) simp_all

lemma put_order_live:
  "hfind (b_orders b) i = Some old \<Longrightarrow> o_order_id ord = i \<Longrightarrow> live_step k (b, s) (put_order i ord b, s)"
  by (intro live_step_same book_step_put_order) simp_all

lemma put_erase_order_live:
  assumes "erase_order X i (put_order i ord b, s) = Inr (b', s')" "hfind (b_orders b) i = Some old" "o_order_id ord = i"
  shows "live_step k (b, s) (b', s')"
  using live_step_trans [OF put_order_live [OF assms(2,3)] erase_order_live [OF assms(1)]] .

lemma order_fills_live:
  assumes "order_fills X side p q (b, s) = Inr (t, b', s')"
  shows "live_step k (b, s) (b', s')"
  using assms
  by (auto simp: order_fills_def res_simps Let_def split: if_splits side.splits intro!: live_step_orders)
    (simp_all add: book_ident_def)

lemma ack_live:
  assumes "hfind (b_orders b) (oa_order_id u) = Some old"
  shows "order_create_reject X ord u (b, s) = Inr (b', s') \<Longrightarrow> live_step k (b, s) (b', s')"
    "order_modify_reject ord u (b, s) = Inr (b', s') \<Longrightarrow> live_step k (b, s) (b', s')"
    "order_cancel_reject ord u (b, s) = Inr (b', s') \<Longrightarrow> live_step k (b, s) (b', s')"
    "order_accept ord u (b, s) = Inr (b', s') \<Longrightarrow> live_step k (b, s) (b', s')"
    "order_fwd ord u (b, s) = Inr (b', s') \<Longrightarrow> live_step k (b, s) (b', s')"
  using assms
  by (auto simp: order_create_reject_def order_modify_reject_def order_cancel_reject_def order_accept_def
      order_fwd_def res_simps Let_def intro!: put_order_live elim!: put_erase_order_live)

lemma update_live:
  assumes "hfind (b_orders b) (ou_order_id u) = Some old"
  shows "order_confirm X ord u (b, s) = Inr (t, b', s') \<Longrightarrow> live_step k (b, s) (b', s')"
    "order_complete X ord u (b, s) = Inr (t, b', s') \<Longrightarrow> live_step k (b, s) (b', s')"
    "order_canceled X ord u (b, s) = Inr (b', s') \<Longrightarrow> live_step k (b, s) (b', s')"
proof -
  assume "order_confirm X ord u (b, s) = Inr (t, b', s')"
  then have id: "o_order_id (confirmed_order ord u) = ou_order_id u"
    and f: "order_fills X (ou_side u) (ou_last_traded_price u) (ou_traded_quantity u - o_traded_quantity ord)
      (put_order (ou_order_id u) (confirmed_order ord u) b, s) = Inr (t, b', s')"
    by (auto simp: order_confirm_def res_simps Let_def)
  show "live_step k (b, s) (b', s')"
    by (rule live_step_trans [OF put_order_live [OF assms id] order_fills_live [OF f]])
next
  assume "order_complete X ord u (b, s) = Inr (t, b', s')"
  then obtain b1 s1 where id: "o_order_id (completed_order ord u) = ou_order_id u"
    and e: "erase_order X (ou_order_id u) (put_order (ou_order_id u) (completed_order ord u) b, s) = Inr (b1, s1)"
    and f: "order_fills X (ou_side u) (ou_last_traded_price u) (ou_traded_quantity u - o_traded_quantity ord) (b1, s1) = Inr (t, b', s')"
    by (auto simp: order_complete_def res_simps Let_def)
  show "live_step k (b, s) (b', s')"
    by (rule live_step_trans [OF put_erase_order_live [OF e assms id] order_fills_live [OF f]])
next
  assume "order_canceled X ord u (b, s) = Inr (b', s')"
  then obtain b1 where id: "o_order_id (canceled_order ord u) = ou_order_id u"
    and e: "erase_order X (ou_order_id u) (put_order (ou_order_id u) (canceled_order ord u) b, s) = Inr (b1, s')"
    and b': "b' = (if b_post_cancel_timeout b1 \<noteq> 0 then b1\<lparr>b_ban_until := oms_now s' + b_post_cancel_timeout b1\<rparr> else b1)"
    by (auto simp: order_canceled_def res_simps Let_def)
  have "live_step k (b1, s') (b', s')"
    by (rule live_step_orders) (simp_all add: b' book_ident_def)
  with put_erase_order_live [OF e assms id] show "live_step k (b, s) (b', s')"
    by (rule live_step_trans)
qed


text \<open>An order enters the book and the index together.\<close>

lemma insert_order_step:
  assumes k: "book_ident b = k" and idx: "idx_ok k (b, s)"
    and fresh: "hfind (b_orders b) i = None" "hfind (market_by_order s) i = None"
    and ord: "o_order_id ord = i"
    and b': "b' = b\<lparr>b_orders := os\<rparr>" "hwf os" "hfind os = (hfind (b_orders b))(i \<mapsto> ord)"
      "list_all (\<lambda>(k, ord). o_order_id ord = k) os"
    and s': "s' = s\<lparr>market_by_order := hput L i (book_key b') (market_by_order s)\<rparr>"
  shows "book_step k (b, s) (b', s')" "ids_below s \<Longrightarrow> i \<le> max_order_id s \<Longrightarrow> ids_below s'"
proof -
  have hw: "hwf (market_by_order s)" and io: "index_ok k b (market_by_order s)" using idx by (simp_all add: idx_ok_def)
  have bk: "key_ident (book_key b') = k" using k by (simp add: b' book_ident_def)
  have f: "hfind (market_by_order s') = (hfind (market_by_order s))(i \<mapsto> book_key b')"
    by (simp add: s' hd.find_put hw)
  have "keys_ok b'" using b' by (simp add: keys_ok_def)
  then have "index_ok k b' (market_by_order s')"
    using io fresh bk unfolding index_ok_def f b'(1) by (auto simp: b'(3))
  moreover have "same_elsewhere k s s'" unfolding same_elsewhere_def f using bk fresh by auto
  ultimately show "book_step k (b, s) (b', s')"
    by (intro book_stepI) (simp_all add: b'(1) s' idx_ok_def hd.wf_put hw book_ident_def)
  show "ids_below s \<Longrightarrow> i \<le> max_order_id s \<Longrightarrow> ids_below s'"
    unfolding ids_below_def f by (auto simp: s')
qed

lemma apply_order_update_step:
  assumes run: "apply_order_update X u (b, s) = Inr (t, b', s')"
    and k: "book_ident b = k" and idx: "idx_ok k (b, s)"
    and place: "\<And>key. hfind (market_by_order s) (ou_order_id u) = Some key \<Longrightarrow> key_ident key = k"
  shows "book_step k (b, s) (b', s')"
    "ids_below s \<Longrightarrow> hfind (market_by_order s) (ou_order_id u) \<noteq> None \<or> ou_order_id u \<le> max_order_id s \<Longrightarrow> ids_below s'"
proof -
  let ?i = "ou_order_id u" and ?L = "x_layout X"
  have kb: "keys_ok b" and hw: "hwf (market_by_order s)"
    and io: "index_ok k b (market_by_order s)" using idx by (simp_all add: idx_ok_def index_ok_def)
  have "book_step k (b, s) (b', s') \<and>
    (ids_below s \<and> (hfind (market_by_order s) ?i \<noteq> None \<or> ?i \<le> max_order_id s) \<longrightarrow> ids_below s')"
  proof (cases "hfind (b_orders b) ?i")
    case (Some ord)
    have e: "emplace_order ?L ?i b = (ord, False, b)" using Some by (simp add: emplace_order_def)
    have "live_step k (b, s) (b', s')"
      using run
      by (auto simp: apply_order_update_def e Let_def res_simps split: if_splits order_status.splits
          intro: update_live [OF Some] erase_order_live)
    then show ?thesis using idx by (simp add: live_step_def)
  next
    case None
    let ?o = "default_order\<lparr>o_order_id := ?i\<rparr>"
    let ?b1 = "b\<lparr>b_orders := hput ?L ?i ?o (b_orders b)\<rparr>"
    have fresh: "hfind (market_by_order s) ?i = None"
      using place None io unfolding index_ok_def by (metis option.exhaust option.distinct(1))
    have e: "emplace_order ?L ?i b = (?o, True, ?b1)" using None by (simp add: emplace_order_def Let_def)
    have hb: "hwf (b_orders b)" using kb by (simp add: keys_ok_def)
    show ?thesis
    proof (cases "ou_update_type u = STALE")
      case True
      with run have b': "b' = b\<lparr>b_orders := herase ?L ?i (hput ?L ?i ?o (b_orders b))\<rparr>"
        and s': "s' = s\<lparr>market_by_order := herase ?L ?i (market_by_order s)\<rparr>"
        by (auto simp: apply_order_update_def e Let_def res_simps erase_order_def)
      have "hfind (b_orders b') = hfind (b_orders b)"
        using None hb by (simp add: b' hd.erase_put)
      moreover have "keys_ok b'"
        using kb by (simp add: keys_ok_def b' hd.wf_put hd.wf_erase list_all_herase list_all_hput)
      moreover have "market_by_order s' = market_by_order s"
        using fresh by (simp add: s' herase_def hfind_None)
      ultimately have "idx_ok k (b', s')" "same_elsewhere k s s'" "ids_below s' = ids_below s"
        using idx by (simp_all add: idx_ok_def index_ok_def same_elsewhere_def ids_below_def s')
      then show ?thesis by (auto intro!: book_stepI simp: b' s' book_ident_def)
    next
      case False
      let ?ord = "downloaded_order ?o u"
      let ?b2 = "put_order ?i ?ord ?b1"
      let ?s1 = "s\<lparr>market_by_order := hput ?L ?i (book_key ?b2) (market_by_order s)\<rparr>"
      have b2: "?b2 = b\<lparr>b_orders := b_orders ?b2\<rparr>" by (simp add: put_order_def)
      have f1: "hfind (b_orders ?b1) = (hfind (b_orders b))(?i \<mapsto> ?o)" by (simp add: hd.find_put hb)
      have "hfind (b_orders ?b1) ?i = Some ?o" unfolding f1 by simp
      from hfind_hset_Some [OF this, of ?ord]
      have f2: "hfind (b_orders ?b2) = (hfind (b_orders b))(?i \<mapsto> ?ord)"
        unfolding f1 by (simp add: put_order_def)
      have w2: "hwf (b_orders ?b2)" "list_all (\<lambda>(k, ord). o_order_id ord = k) (b_orders ?b2)"
        using kb by (simp_all add: put_order_def keys_ok_def hd.wf_put list_all_hput list_all_hset)
      have id: "o_order_id ?ord = ?i" by simp
      note ins = insert_order_step [OF k idx None fresh id b2 w2(1) f2 w2(2) refl, of ?L]
      have "live_step k (?b2, ?s1) (b', s')"
        using run False
        by (auto simp: apply_order_update_def e Let_def res_simps split: if_splits intro: erase_order_live)
      then show ?thesis
        using ins fresh book_step_trans [of k "(b, s)" "(?b2, ?s1)" "(b', s')"] book_step_idx [OF ins(1) idx]
        by (simp add: live_step_def)
    qed
  qed
  then show "book_step k (b, s) (b', s')"
    "ids_below s \<Longrightarrow> hfind (market_by_order s) (ou_order_id u) \<noteq> None \<or> ou_order_id u \<le> max_order_id s \<Longrightarrow> ids_below s'"
    by blast+
qed


section \<open>Handlers\<close>

text \<open>
  New identifiers are above all that are in use, or nothing can be created because no gateway is
  ready: while orders are downloaded the counter may still be behind.
\<close>

definition safe :: "'g ext \<Rightarrow> 'g gateways \<Rightarrow> oms \<Rightarrow> bool" where
  "safe X gws s \<longleftrightarrow> ids_below s \<or> nobody_ready X gws"

lemma safe_store [simp]: "safe X gws (store_book L k b s) = safe X gws s"
  by (simp add: safe_def ids_below_def store_book_def)

lemma oms_wf_cong:
  "books s' = books s \<Longrightarrow> market_by_order s' = market_by_order s \<Longrightarrow> oms_wf s' = oms_wf s"
  by (simp add: oms_wf_def)

lemma oms_wf_idx: "oms_wf s \<Longrightarrow> hfind3 (books s) k = Some b \<Longrightarrow> idx_ok k (b, s) \<and> book_ident b = k"
  using oms_wfD(2-4) by (simp add: idx_ok_def)

lemma live_step_safe:
  "live_step k (b, s) (b', s') \<Longrightarrow> idx_ok k (b, s) \<Longrightarrow> safe X gws s \<Longrightarrow> safe X gws s'"
  unfolding safe_def using live_step_below by blast

lemma live_step_book: "live_step k r r' \<Longrightarrow> book_step k r r'"
  by (simp add: live_step_def)

lemma store_live:
  assumes "oms_wf s" "safe X gws s" "hfind3 (books s) k = Some b" "live_step k (b, s) (b', s')"
  shows "oms_wf (store_book L k b' s') \<and> safe X gws (store_book L k b' s')"
  using store_book_wf [OF assms(1,3) live_step_book [OF assms(4)]]
    live_step_safe [OF assms(4) conjunct1 [OF oms_wf_idx [OF assms(1,3)]] assms(2)] by simp

lemma get_books_live:
  assumes run: "get_books X ms f s = Inr s'" and wf: "oms_wf s" "safe X gws s"
    and step: "\<And>info b s b' s' k. idx_ok k (b, s) \<Longrightarrow> book_ident b = k \<Longrightarrow> safe X gws s \<Longrightarrow>
      f info (b, s) = Inr (b', s') \<Longrightarrow> live_step k (b, s) (b', s')"
  shows "oms_wf s' \<and> safe X gws s'"
proof (rule get_books_wf [where P = "safe X gws", OF run wf])
  fix info b s1 b' s2 k
  assume a: "oms_wf s1" "safe X gws s1" "hfind3 (books s1) k = Some b" "f info (b, s1) = Inr (b', s2)"
  note i = oms_wf_idx [OF a(1,3)]
  have "live_step k (b, s1) (b', s2)" by (rule step [OF conjunct1 [OF i] conjunct2 [OF i] a(2,4)])
  then show "book_step k (b, s1) (b', s2) \<and> safe X gws s2"
    using live_step_book live_step_safe i a(2) by blast
qed simp

lemma get_book_found: "get_book key ms s = Some (k, b, info) \<Longrightarrow> hfind3 (books s) k = Some b"
  by (auto simp: get_book_def hfind3_def hfind2_def Let_def split: option.splits if_splits)

lemma on_timer_wf:
  assumes "on_timer X now c s = Inr s'" "oms_wf s" "safe X (c_gateways c) s"
  shows "oms_wf s' \<and> safe X (c_gateways c) s'"
proof -
  let ?s1 = "s\<lparr>oms_now := now\<rparr>"
  have 1: "oms_wf ?s1" "safe X (c_gateways c) ?s1"
    using assms oms_wf_cong [of ?s1 s] by (simp_all add: safe_def ids_below_def)
  have "oms_wf s2 \<and> safe X (c_gateways c) s2"
    if "get_books X (c_markets c) (process X (c_gateways c)) ?s1 = Inr s2" for s2
    by (rule get_books_live [OF that 1]) (auto simp: safe_def intro: process_step)
  moreover have "oms_wf (s2\<lparr>last_process := n\<rparr>) = oms_wf s2" "safe X g (s2\<lparr>last_process := n\<rparr>) = safe X g s2" for s2 n g
    by (simp_all add: oms_wf_def safe_def ids_below_def)
  ultimately show ?thesis
    using assms(1) 1 by (auto simp: on_timer_def Let_def res_simps split: if_splits)
qed

lemma fold_herase:
  "hwf m \<Longrightarrow> hwf (fold (herase L) ks m) \<and> hfind (fold (herase L) ks m) = (\<lambda>i. if i \<in> set ks then None else hfind m i)"
  by (induction ks arbitrary: m) (auto simp: hd.wf_erase hd.find_erase fun_eq_iff)

lemma erase_all_orders_live:
  assumes "erase_all_orders X (b, s) = (b', s')"
  shows "live_step k (b, s) (b', s')"
proof -
  let ?ks = "hkeys (b_orders b)"
  have b': "b' = b\<lparr>b_orders := []\<rparr>"
    and s': "s' = s\<lparr>market_by_order := fold (herase (x_layout X)) ?ks (market_by_order s)\<rparr>"
    using assms by (auto simp: erase_all_orders_def)
  have f: "hwf (market_by_order s) \<Longrightarrow> hwf (market_by_order s') \<and>
      hfind (market_by_order s') = (\<lambda>i. if i \<in> set ?ks then None else hfind (market_by_order s) i)"
    unfolding s' using fold_herase by simp
  have "idx_ok k (b', s') \<and> same_elsewhere k s s'" if ok: "idx_ok k (b, s)"
  proof -
    have hw: "hwf (market_by_order s)" and io: "index_ok k b (market_by_order s)" using ok by (simp_all add: idx_ok_def)
    have mem: "(\<exists>key. hfind (market_by_order s) i = Some key \<and> key_ident key = k) \<longleftrightarrow> i \<in> set ?ks" for i
      using io hfind_in_keys [of "b_orders b" i] unfolding index_ok_def by blast
    have "keys_ok b'" by (simp add: keys_ok_def b' hd.wf_empty)
    then have "index_ok k b' (market_by_order s')"
      using mem f [OF hw] unfolding index_ok_def by (auto simp: b' hd.find_empty)
    moreover have "key_ident key = k" if "i \<in> set ?ks" "hfind (market_by_order s) i = Some key" for i key
      using mem [of i] that by auto
    then have "same_elsewhere k s s'"
      using f [OF hw] unfolding same_elsewhere_def by auto
    ultimately show ?thesis using f [OF hw] by (simp add: idx_ok_def)
  qed
  then have "book_step k (b, s) (b', s')"
    by (intro book_stepI) (simp_all add: b' s' book_ident_def)
  moreover have "ids_below s'" if "idx_ok k (b, s)" "ids_below s"
    using that f by (auto simp: idx_ok_def ids_below_def s' split: if_splits)
  ultimately show ?thesis by (simp add: live_step_def)
qed

lemma on_gateway_status_wf:
  assumes "on_gateway_status X flag e u c s = Inr s'" "oms_wf s" "safe X gws s"
  shows "oms_wf s' \<and> safe X gws s'"
  using assms(1) unfolding on_gateway_status_def
proof (rule get_books_live [OF _ assms(2,3)])
  fix info b s1 b' s2 k
  assume run: "(case (b, s1) of (b, s) \<Rightarrow>
       let b1 = (if mi_source_name e = b_trade_gateway_name b
                 then b\<lparr>b_trade_gateway_id := mi_source e\<rparr> else b) in
       Inr (if gs_account u \<noteq> [] \<and> b_account b1 = gs_account u \<and> flag \<and>
               \<not> {ST_CREATE_ORDER, ST_CANCEL_ORDER} \<subseteq> gs_available u
            then erase_all_orders X (b1, s) else (b1, s))) = Inr (b', s2)"
  let ?b1 = "if mi_source_name e = b_trade_gateway_name b then b\<lparr>b_trade_gateway_id := mi_source e\<rparr> else b"
  have 1: "live_step k (b, s1) (?b1, s1)" by (rule live_step_orders) (simp_all add: book_ident_def)
  have "live_step k (?b1, s1) (b', s2)"
    using run by (auto simp: Let_def split: if_splits intro: erase_all_orders_live)
  with 1 show "live_step k (b, s1) (b', s2)" by (rule live_step_trans)
qed

lemma on_download_begin_wf:
  assumes "on_download_begin X account c s = Inr s'" "oms_wf s" "safe X gws s"
  shows "oms_wf s' \<and> safe X gws s'"
proof (cases "account = []")
  case True
  with assms show ?thesis by (simp add: on_download_begin_def)
next
  case False
  with assms(1) have run: "get_books X (c_markets c) (\<lambda>_ (b, s).
          Inr (if b_account b = account
               then erase_all_orders X
                      (b\<lparr>b_position_by_orders := Fin 0, b_position_by_account := Fin 0\<rparr>, s)
               else (b, s))) s = Inr s'" by (simp add: on_download_begin_def)
  show ?thesis
  proof (rule get_books_live [OF run assms(2,3)])
    fix info b s1 b' s2 k
    assume r: "(case (b, s1) of (b, s) \<Rightarrow> Inr (if b_account b = account
               then erase_all_orders X
                      (b\<lparr>b_position_by_orders := Fin 0, b_position_by_account := Fin 0\<rparr>, s)
               else (b, s))) = Inr (b', s2)"
    let ?b1 = "b\<lparr>b_position_by_orders := Fin 0, b_position_by_account := Fin 0\<rparr>"
    have "live_step k (b, s1) (?b1, s1)" by (rule live_step_orders) (simp_all add: book_ident_def)
    with r show "live_step k (b, s1) (b', s2)"
      by (auto split: if_splits intro: live_step_trans erase_all_orders_live)
  qed
qed

lemma on_download_end_wf:
  assumes "on_download_end X account m c s = Inr s'" "oms_wf s" "safe X gws s"
  shows "oms_wf s' \<and> safe X gws s'"
proof -
  let ?s1 = "s\<lparr>max_order_id := max (max_order_id s) m\<rparr>"
  have 1: "oms_wf ?s1" "safe X gws ?s1"
    using assms(2,3) oms_wf_cong [of ?s1 s] by (auto simp: safe_def ids_below_def max.coboundedI1)
  have "oms_wf s2 \<and> safe X gws s2" if "get_books X (c_markets c) (\<lambda>_ (b, s).
          Inr (if b_account b = account
               then b\<lparr>b_position_by_orders := b_position_by_account b,
                      b_last_position_modify_time := oms_now s\<rparr>
               else b, s)) ?s1 = Inr s2" for s2
    by (rule get_books_live [OF that 1]) (auto intro!: live_step_orders simp: book_ident_def)
  with assms(1) 1 show ?thesis by (auto simp: on_download_end_def Let_def split: if_splits)
qed

lemma on_rate_limit_wf:
  assumes "on_rate_limit X e cap ban c s = Inr s'" "oms_wf s" "safe X gws s"
  shows "oms_wf s' \<and> safe X gws s'"
proof -
  have "oms_wf s2 \<and> safe X gws s2" if "get_books X (c_markets c) (\<lambda>_ (b, s).
            Inr (if mi_source_name e = b_exchange b
                 then b\<lparr>b_ban_until := max (oms_now s) ban\<rparr> else b, s)) s = Inr s2" for s2
    by (rule get_books_live [OF that assms(2,3)]) (auto intro!: live_step_orders simp: book_ident_def)
  with assms show ?thesis by (auto simp: on_rate_limit_def split: buffer_capacity.splits)
qed


lemma order_too_late_live:
  assumes "order_too_late u (b, s) = Inr (b', s')" and ix: "idx_ok k (b, s)"
  shows "live_step k (b, s) (b', s')"
proof (cases "oa_error u = TOO_LATE_TO_MODIFY_OR_CANCEL")
  case False
  with assms show ?thesis by (simp add: order_too_late_def)
next
  case True
  with assms obtain ord where o: "hfind (b_orders b) (oa_order_id u) = Some ord" and
    b': "b' = put_order (oa_order_id u) (too_late_order ord) b" "s' = s"
    by (auto simp: order_too_late_def split: option.splits)
  have "o_order_id ord = oa_order_id u" using keys_okD [OF _ o] ix by (simp add: idx_ok_def index_ok_def)
  then show ?thesis unfolding b' by (intro put_order_live [OF o]) (simp add: too_late_order_def)
qed

lemma ban_or_process_live:
  assumes "ban_or_process X gws info u (b, s) = Inr (b', s')"
    and "idx_ok k (b, s)" "book_ident b = k" "safe X gws s"
  shows "live_step k (b, s) (b', s')"
proof (cases "oa_error u = REQUEST_RATE_LIMIT_REACHED \<or> oa_error u = GATEWAY_NOT_READY")
  case True
  with assms(1) show ?thesis
    by (auto simp: ban_or_process_def book_ident_def intro!: live_step_orders)
next
  case False
  with assms show ?thesis by (auto simp: ban_or_process_def safe_def intro: process_step)
qed

lemma apply_order_ack_live:
  assumes run: "apply_order_ack X gws info ord u (b, s) = Inr (b', s')"
    and o: "hfind (b_orders b) (oa_order_id u) = Some ord"
    and ix: "idx_ok k (b, s)" and k: "book_ident b = k" and sf: "safe X gws s"
  shows "live_step k (b, s) (b', s')"
proof (cases "oa_request_status u = REJECTED")
  case False
  with run show ?thesis
    by (auto simp: apply_order_ack_def res_simps split: if_splits intro: ack_live(4,5) [OF o])
next
  case True
  with run obtain b1 s1 b2 s2 where
    1: "(case oa_request_type u of CANCEL_ORDER \<Rightarrow> order_cancel_reject ord u (b, s)
         | CREATE_ORDER \<Rightarrow> order_create_reject X ord u (b, s)
         | MODIFY_ORDER \<Rightarrow> order_modify_reject ord u (b, s)
         | RT_UNDEFINED \<Rightarrow> Inr (b, s)) = Inr (b1, s1)" and
    2: "order_too_late u (b1, s1) = Inr (b2, s2)" and
    3: "ban_or_process X gws info u (b2, s2) = Inr (b', s')"
    by (auto simp: apply_order_ack_def res_simps)
  have l1: "live_step k (b, s) (b1, s1)"
    using 1 by (auto split: request_type.splits intro: ack_live [OF o])
  have l2: "live_step k (b, s) (b2, s2)"
    using live_step_trans [OF l1 order_too_late_live [OF 2 live_step_idx [OF l1 ix]]] .
  have "live_step k (b2, s2) (b', s')"
    using ban_or_process_live [OF 3 live_step_idx [OF l2 ix]] live_step_ident [OF l2]
      live_step_safe [OF l2 ix sf] k by simp
  with l2 show ?thesis by (rule live_step_trans)
qed

lemma on_order_ack_wf:
  assumes run: "on_order_ack X u c s = Inr s'" and wf: "oms_wf s" "safe X (c_gateways c) s"
  shows "oms_wf s' \<and> safe X (c_gateways c) s'"
proof (cases "\<exists>key k b info ord. hfind (market_by_order s) (oa_order_id u) = Some key \<and>
    get_book key (c_markets c) s = Some (k, b, info) \<and> hfind (b_orders b) (oa_order_id u) = Some ord")
  case False
  then have "s' = s" using run by (auto simp: on_order_ack_def split: option.splits)
  with wf show ?thesis by simp
next
  case True
  then obtain key k b info ord where f: "hfind (market_by_order s) (oa_order_id u) = Some key"
    "get_book key (c_markets c) s = Some (k, b, info)" "hfind (b_orders b) (oa_order_id u) = Some ord" by blast
  note hb = get_book_found [OF f(2)] and idx = oms_wf_idx [OF wf(1) get_book_found [OF f(2)]]
  obtain b' s2 where r: "apply_order_ack X (c_gateways c) info ord u (b, s) = Inr (b', s2)"
    and s': "s' = store_book (x_layout X) k b' s2"
    using run f by (auto simp: on_order_ack_def res_simps)
  show ?thesis unfolding s'
    by (rule store_live [OF wf hb apply_order_ack_live [OF r f(3) conjunct1 [OF idx] conjunct2 [OF idx] wf(2)]])
qed

text \<open>
  What the trade handler may assume and has to keep: the order manager's invariant, and an invariant
  \<open>J\<close> of what the application keeps beside the core, which the order manager does not touch.
\<close>

definition app_only :: "(('g, 'z) core_scheme \<Rightarrow> bool) \<Rightarrow> bool" where
  "app_only J \<longleftrightarrow> (\<forall>c c'. core.more c = core.more c' \<longrightarrow> J c = J c')"

definition keeps_wf_on ::
  "(('g, 'z) core_scheme \<Rightarrow> bool) \<Rightarrow> 'g ext \<Rightarrow>
     (trade \<Rightarrow> ('g, 'z) core_scheme \<times> oms \<Rightarrow> (('g, 'z) core_scheme \<times> oms) res) \<Rightarrow> bool" where
  "keeps_wf_on J X cb \<longleftrightarrow>
     (\<forall>t c s c' s'. J c \<and> oms_wf s \<and> safe X (c_gateways c) s \<and> cb t (c, s) = Inr (c', s') \<longrightarrow>
        J c' \<and> oms_wf s' \<and> safe X (c_gateways c') s')"

definition keeps_wf ::
  "'g ext \<Rightarrow> (trade \<Rightarrow> ('g, 'z) core_scheme \<times> oms \<Rightarrow> (('g, 'z) core_scheme \<times> oms) res) \<Rightarrow> bool" where
  "keeps_wf X cb \<longleftrightarrow> keeps_wf_on (\<lambda>_. True) X cb"

text \<open>
  What an update of an order must satisfy: the order is one of the book the update names, or is in
  no book at all, and its identifier is one the gateway has already reported as used.
\<close>

definition update_placed :: "'g ext \<Rightarrow> order_update \<Rightarrow> ('g, 'z) core_scheme \<times> oms \<Rightarrow> bool" where
  "update_placed X u = (\<lambda>(c, s).
     (case get_book (no_oms_market\<lparr>om_symbol := ou_symbol u, om_exchange := ou_exchange u,
                                  om_account := ou_account u, om_strategy := ou_strategy_id u\<rparr>)
            (c_markets c) s of
        None \<Rightarrow> True
      | Some (k, b, info) \<Rightarrow>
          (case hfind (market_by_order s) (ou_order_id u) of
             Some key \<Rightarrow> key_ident key = k
           | None \<Rightarrow> ou_order_id u \<le> max_order_id s \<or> nobody_ready X (c_gateways c))))"

lemma on_order_update_wf:
  assumes run: "on_order_update X cb u (c, s) = Inr (c', s')" and wf: "oms_wf s" "safe X (c_gateways c) s"
    and cb: "keeps_wf_on J X cb" and J: "J c" and placed: "update_placed X u (c, s)"
  shows "J c' \<and> oms_wf s' \<and> safe X (c_gateways c') s'"
proof (cases "get_book (no_oms_market\<lparr>om_symbol := ou_symbol u, om_exchange := ou_exchange u,
                       om_account := ou_account u, om_strategy := ou_strategy_id u\<rparr>) (c_markets c) s")
  case None
  with run wf J show ?thesis by (simp add: on_order_update_def)
next
  case (Some e)
  then obtain k b info where e: "get_book (no_oms_market\<lparr>om_symbol := ou_symbol u, om_exchange := ou_exchange u,
                       om_account := ou_account u, om_strategy := ou_strategy_id u\<rparr>) (c_markets c) s = Some (k, b, info)"
    by (cases e) auto
  note hb = get_book_found [OF e] and idx = oms_wf_idx [OF wf(1) get_book_found [OF e]]
  from run e have "rbind (apply_order_update X u (b, s)) (\<lambda>(t, b1, s1).
      let s2 = store_book (x_layout X) k b1 s1 in
      rbind (case t of None \<Rightarrow> Inr (c, s2) | Some t \<Rightarrow> cb t (c, s2)) (process_stored X k info)) = Inr (c', s')"
    by (simp add: on_order_update_def)
  then obtain t b1 s1 r3 where
    1: "apply_order_update X u (b, s) = Inr (t, b1, s1)" and
    2: "(case t of None \<Rightarrow> Inr (c, store_book (x_layout X) k b1 s1)
         | Some t \<Rightarrow> cb t (c, store_book (x_layout X) k b1 s1)) = Inr r3" and
    r: "process_stored X k info r3 = Inr (c', s')"
    by (auto simp only: rbind_eq_Inr Let_def prod.case)
  obtain c3 s3 b3 info3 b4 s4 where
    r3: "r3 = (c3, s3)" and
    3: "hfind3 (books s3) k = Some b3" and
    4: "process X (c_gateways c3) info3 (b3, s3) = Inr (b4, s4)" and
    s': "c' = c3" "s' = store_book (x_layout X) k b4 s4"
    using r by (cases r3) (auto simp: process_stored_def res_simps split: option.splits)
  have pl: "key_ident key = k" if "hfind (market_by_order s) (ou_order_id u) = Some key" for key
    using placed that e by (simp add: update_placed_def)
  have st: "book_step k (b, s) (b1, s1)"
    "ids_below s \<Longrightarrow> hfind (market_by_order s) (ou_order_id u) \<noteq> None \<or> ou_order_id u \<le> max_order_id s \<Longrightarrow> ids_below s1"
    by (rule apply_order_update_step [OF 1 conjunct2 [OF idx] conjunct1 [OF idx]], erule pl, assumption?)+
  have w1: "oms_wf (store_book (x_layout X) k b1 s1)" by (rule store_book_wf [OF wf(1) hb st(1)])
  have "safe X (c_gateways c) s1"
  proof (cases "nobody_ready X (c_gateways c)")
    case False
    then have "ids_below s" "hfind (market_by_order s) (ou_order_id u) \<noteq> None \<or> ou_order_id u \<le> max_order_id s"
      using wf(2) placed e
      by (simp_all add: safe_def update_placed_def split: option.splits)
    then have "ids_below s1" by (rule st(2))
    then show ?thesis by (simp add: safe_def)
  qed (simp add: safe_def)
  then have w1': "safe X (c_gateways c) (store_book (x_layout X) k b1 s1)" by simp
  have j3: "J c3 \<and> oms_wf s3 \<and> safe X (c_gateways c3) s3"
  proof (cases t)
    case None
    with 2 w1 w1' J show ?thesis by (simp add: r3)
  next
    case (Some tr)
    with 2 have "cb tr (c, store_book (x_layout X) k b1 s1) = Inr (c3, s3)" by (simp add: r3)
    with cb w1 w1' J show ?thesis unfolding keeps_wf_on_def by blast
  qed
  then have w3: "oms_wf s3 \<and> safe X (c_gateways c3) s3" by blast
  note idx3 = oms_wf_idx [OF conjunct1 [OF w3] 3]
  have "live_step k (b3, s3) (b4, s4)"
    by (rule process_step [OF 4 conjunct2 [OF idx3] _ conjunct1 [OF idx3]]) (use w3 in \<open>simp add: safe_def\<close>)
  from store_live [OF conjunct1 [OF w3] conjunct2 [OF w3] 3 this] j3 show ?thesis by (simp add: s')
qed

lemma oms_on_position_update_more:
  "oms_on_position_update X e u (c, s) = (c', s') \<Longrightarrow> core.more c' = core.more c"
  by (auto simp: oms_on_position_update_def Let_def split: prod.splits option.splits)

lemma oms_on_position_update_wf:
  assumes run: "oms_on_position_update X e u (c, s) = (c', s')" and wf: "oms_wf s" "safe X (c_gateways c) s"
  shows "oms_wf s' \<and> safe X (c_gateways c') s'"
proof -
  obtain po pm where p: "get_portfolio_by_account (x_layout X) (pu_account u) (pu_exchange u) (c_portfolios c) = (po, pm)"
    by (cases "get_portfolio_by_account (x_layout X) (pu_account u) (pu_exchange u) (c_portfolios c)")
  have gw: "c_gateways (c\<lparr>c_portfolios := pm\<rparr>) = c_gateways c" by simp
  have st: "oms_wf (store_book (x_layout X) k b2 s) \<and> safe X (c_gateways c) (store_book (x_layout X) k b2 s)"
    if "get_book key ms s = Some (k, b, info)" "book_ident b2 = book_ident b" "b_orders b2 = b_orders b"
    for key ms k b b2 info
    by (rule store_live [OF wf get_book_found [OF that(1)]], rule live_step_orders) (simp_all add: that)
  show ?thesis
  proof (cases po)
    case None
    with run p wf show ?thesis by (auto simp: oms_on_position_update_def)
  next
    case (Some q)
    show ?thesis
    proof (cases "get_book (no_oms_market\<lparr>om_symbol := pu_symbol u, om_exchange := pu_exchange u,
        om_account := pu_account u, om_strategy := p_portfolio q\<rparr>) (c_markets c) s")
      case None
      with Some run p wf show ?thesis by (auto simp: oms_on_position_update_def)
    next
      case (Some e)
      obtain k b info where e: "e = (k, b, info)" by (cases e)
      note found = Some [unfolded e]
      show ?thesis
        using run p \<open>po = Some q\<close> found st [OF found, of "_\<lparr>b_position_by_account := _\<rparr>"]
          st [OF found, of "_\<lparr>b_position_by_account := _, b_last_position_modify_time := _\<rparr>"]
        by (auto simp: oms_on_position_update_def Let_def book_ident_def split: if_splits)
    qed
  qed
qed

section \<open>Books\<close>

lemma emplace_book_wf:
  assumes run: "emplace_book L key (ms, s) = Inr (k, b, new, ms', s')" and wf: "oms_wf s"
  shows "oms_wf s'" "hfind3 (books s') k = Some b" "market_by_order s' = market_by_order s"
    "max_order_id s' = max_order_id s"
proof -
  have "oms_wf s' \<and> hfind3 (books s') k = Some b \<and> market_by_order s' = market_by_order s \<and> max_order_id s' = max_order_id s"
  proof (cases "hfind3 (books s) (om_strategy key, om_account key, om_market key)")
    case (Some old)
    with run wf show ?thesis by (auto simp: emplace_book_def res_simps)
  next
    case None
    with run obtain m old where
      k: "k = (om_strategy key, om_account key, m)" and
      old: "old = (case hfind3 (books s) k of None \<Rightarrow> default_book | Some b \<Rightarrow> b)" and
      b: "book_ident b = k" "b_orders b = b_orders old" and
      s': "s' = store_book L k b s"
      by (auto simp: emplace_book_def res_simps Let_def book_ident_def split: if_splits)
    have f: "hfind3 (books s') k = Some b"
      by (simp add: s' store_book_def hd3.pair.find_put [OF oms_wfD(1) [OF wf]])
    have "oms_wf s'"
    proof (cases "hfind3 (books s) k")
      case (Some b0)
      then have "b_orders b = b_orders b0" "book_ident b = book_ident b0"
        using b old oms_wfD(3) [OF wf Some] by simp_all
      then have "book_step k (b0, s) (b, s)" by (intro book_step_orders) simp_all
      then show ?thesis unfolding s' by (rule store_book_wf [OF wf Some])
    next
      case None
      then have e: "b_orders b = []" using b old by (simp add: default_book_def)
      have none: "key_ident key' \<noteq> k" if "hfind (market_by_order s) i = Some key'" for i key'
        using oms_wfD(5) [OF wf that] None by auto
      have ix: "index_ok k b (market_by_order s)"
        using none by (auto simp: index_ok_def e keys_ok_def hd.find_empty hd.wf_empty)
      have f3: "hfind3 (books s') = (hfind3 (books s))(k \<mapsto> b)"
        by (simp add: s' store_book_def hd3.pair.find_put [OF oms_wfD(1) [OF wf]])
      show ?thesis
      proof (rule oms_wfI)
        show "hwf3 (books s')" "hwf (market_by_order s')"
          using oms_wfD(1,2) [OF wf] by (simp_all add: s' store_book_def hd3.pair.wf_put)
      next
        fix k' c
        assume "hfind3 (books s') k' = Some c"
        then show "book_ident c = k' \<and> index_ok k' c (market_by_order s')"
          using b(1) ix oms_wfD(3,4) [OF wf]
          by (cases "k' = k") (simp_all add: f3, simp_all add: s' store_book_def)
      next
        fix i key'
        assume "hfind (market_by_order s') i = Some key'"
        then have "hfind (market_by_order s) i = Some key'" by (simp add: s' store_book_def)
        from oms_wfD(5) [OF wf this] show "\<exists>c. hfind3 (books s') (key_ident key') = Some c"
          by (cases "key_ident key' = k") (simp_all add: f3)
      qed
    qed
    with f show ?thesis by (simp add: s' store_book_def)
  qed
  then show "oms_wf s'" "hfind3 (books s') k = Some b" "market_by_order s' = market_by_order s"
    "max_order_id s' = max_order_id s" by blast+
qed

lemma safe_cong: "market_by_order s' = market_by_order s \<Longrightarrow> max_order_id s' = max_order_id s \<Longrightarrow> safe X gws s' = safe X gws s"
  by (simp add: safe_def ids_below_def)

lemma emplaced_store:
  assumes em: "emplace_book L key (ms, s) = Inr (k, b, new, ms', s')" and wf: "oms_wf s" "safe X gws s"
    and b': "book_ident b' = book_ident b" "b_orders b' = b_orders b"
  shows "oms_wf (store_book L k b' s') \<and> safe X gws (store_book L k b' s')"
proof -
  note e = emplace_book_wf [OF em wf(1)]
  show ?thesis
    by (rule store_live [OF e(1) _ e(2) live_step_orders]) (simp_all add: wf(2) safe_cong [OF e(3,4)] b')
qed

lemma book_parameter_keeps: "book_parameter p b = Inr b' \<Longrightarrow> book_ident b' = book_ident b \<and> b_orders b' = b_orders b"
  by (auto simp: book_parameter_def Let_def res_simps book_ident_def split: if_splits)

lemma oms_on_parameters_wf:
  assumes run: "oms_on_parameters X ps (c, s) = Inr (c', s')" and wf: "oms_wf s" "safe X (c_gateways c) s"
  shows "oms_wf s' \<and> safe X (c_gateways c') s'"
proof -
  let ?I = "\<lambda>(c1, s1). c_gateways c1 = c_gateways c \<and> oms_wf s1 \<and> safe X (c_gateways c) s1"
  have "?I (c', s')"
    using run unfolding oms_on_parameters_def
  proof (rule rfold_invariant [where I = ?I])
    show "?I (c, s)" using wf by simp
  next
    fix p :: parameter and r r'
    assume I: "?I r" and step: "(case r of (c, s) \<Rightarrow>
       if fst (split_prefix (par_label p) (CHR '':'')) \<noteq> ''oms'' then Inr (c, s)
       else
         (let key =
            \<lparr>om_market = get_market_ident (par_symbol p) (par_exchange p) (c_markets c),
             om_symbol = par_symbol p, om_exchange = par_exchange p, om_account = par_account p,
             om_portfolio = par_strategy_id p, om_portfolio_name = [],
             om_strategy = par_strategy_id p, om_trade_gateway_name = []\<rparr> in
          rbind (emplace_book (x_layout X) key (c_markets c, s)) (\<lambda>(k, b, _, ms1, s1).
          rbind (book_parameter p b) (\<lambda>b1.
            Inr (c\<lparr>c_markets := ms1\<rparr>, store_book (x_layout X) k b1 s1))))) = Inr r'"
    obtain c1 s1 where r: "r = (c1, s1)" by (cases r)
    show "?I r'"
    proof (cases "fst (split_prefix (par_label p) (CHR '':'')) \<noteq> ''oms''")
      case True
      with step I r show ?thesis by auto
    next
      case False
      let ?key = "\<lparr>om_market = get_market_ident (par_symbol p) (par_exchange p) (c_markets c1),
             om_symbol = par_symbol p, om_exchange = par_exchange p, om_account = par_account p,
             om_portfolio = par_strategy_id p, om_portfolio_name = [],
             om_strategy = par_strategy_id p, om_trade_gateway_name = []\<rparr>"
      from step False r obtain k b new ms2 s2 b1 where
        em: "emplace_book (x_layout X) ?key (c_markets c1, s1) = Inr (k, b, new, ms2, s2)" and
        bp: "book_parameter p b = Inr b1" and
        r': "r' = (c1\<lparr>c_markets := ms2\<rparr>, store_book (x_layout X) k b1 s2)"
        by (auto simp: Let_def res_simps)
      from I r have J: "oms_wf s1" "safe X (c_gateways c) s1" "c_gateways c1 = c_gateways c" by simp_all
      note bk = book_parameter_keeps [OF bp]
      show ?thesis using emplaced_store [OF em J(1,2) conjunct1 [OF bk] conjunct2 [OF bk]] J(3) by (simp add: r')
    qed
  qed
  then show ?thesis by simp
qed

lemma clear_targets_keeps:
  "book_ident (clear_targets side b) = book_ident b \<and> b_orders (clear_targets side b) = b_orders b"
  by (cases side) (simp_all add: clear_targets_def get_levels_def put_levels_def book_ident_def)

lemma set_targets_keeps:
  assumes "set_targets X side qs b = Inr b'"
  shows "book_ident b' = book_ident b \<and> b_orders b' = b_orders b"
  using assms unfolding set_targets_def
proof (rule rfold_invariant [where I = "\<lambda>b'. book_ident b' = book_ident b \<and> b_orders b' = b_orders b"])
  fix q b1 b2
  assume I: "book_ident b1 = book_ident b \<and> b_orders b1 = b_orders b"
    and run: "(if exec_quote_empty q then Inr b1
       else rbind (emplace_level X side (eq_price q) b1) (\<lambda>(i, l, _, b1).
           Inr (put_level side i (l\<lparr>lv_target_quantity := eq_volume q, lv_exec_inst := eq_exec_inst q\<rparr>) b1))) = Inr b2"
  show "book_ident b2 = book_ident b \<and> b_orders b2 = b_orders b"
  proof (cases "exec_quote_empty q")
    case True
    with run I show ?thesis by simp
  next
    case False
    with run obtain i l new b3 where em: "emplace_level X side (eq_price q) b1 = Inr (i, l, new, b3)" and
      b2: "b2 = put_level side i (l\<lparr>lv_target_quantity := eq_volume q, lv_exec_inst := eq_exec_inst q\<rparr>) b3"
      by (auto simp: res_simps)
    have "book_ident b2 = book_ident b3"
      unfolding b2 by (rule book_ident_frame) simp
    with I emplace_level_orders [OF em] book_ident_frame [OF emplace_level_frame [OF em]]
    show ?thesis by (simp add: b2)
  qed
qed simp

lemma on_target_quotes_wf:
  assumes run: "on_target_quotes X tq (c, s) = Inr (c', s')" and wf: "oms_wf s" "safe X (c_gateways c) s"
  shows "oms_wf s' \<and> safe X (c_gateways c') s'"
proof -
  obtain info x ms1 where
    em0: "emplace_market (x_layout X)
                \<lparr>m_market = qs_market tq, m_symbol = qs_symbol tq, m_exchange = qs_exchange tq,
                 m_account = [], m_strategy_id = 0\<rparr> (c_markets c) = Inr (info, x, ms1)"
    using run by (auto simp: on_target_quotes_def res_simps)
  show ?thesis
  proof (cases "isnan (info_tick_size info)")
    case True
    with run em0 wf show ?thesis by (auto simp: on_target_quotes_def res_simps Let_def)
  next
    case False
    let ?key = "oms_market_merge info
                 (no_oms_market\<lparr>om_account := qs_account tq, om_portfolio := qs_portfolio tq,
                                om_strategy := qs_strategy tq\<rparr>)"
    from run em0 False obtain k b new ms2 s1 b1 b2 b3 where
      em: "emplace_book (x_layout X) ?key (ms1, s) = Inr (k, b, new, ms2, s1)" and
      b1: "set_tick_size (info_tick_size info) b = Inr b1" and
      b2: "set_targets X BUY (qs_buy tq) (clear_targets BUY b1) = Inr b2" and
      b3: "set_targets X SELL (qs_sell tq) (clear_targets SELL b2) = Inr b3" and
      gb: "get_books X ms2 (process X (c_gateways c)) (store_book (x_layout X) k b3 s1) = Inr s'" and
      c': "c_gateways c' = c_gateways c"
      by (auto simp: on_target_quotes_def res_simps Let_def)
    have keep: "book_ident b3 = book_ident b" "b_orders b3 = b_orders b"
      using set_tick_size_keeps [OF b1] set_targets_keeps [OF b2] set_targets_keeps [OF b3] clear_targets_keeps
      by simp_all
    from emplaced_store [OF em wf keep] have
      w: "oms_wf (store_book (x_layout X) k b3 s1)" "safe X (c_gateways c) (store_book (x_layout X) k b3 s1)"
      by blast+
    have "oms_wf s' \<and> safe X (c_gateways c) s'"
      by (rule get_books_live [OF gb w]) (auto simp: safe_def intro: process_step)
    then show ?thesis by (simp add: c')
  qed
qed


section \<open>Reachable states\<close>

datatype oms_event =
    Timer time
  | Order_Ack order_ack
  | Order_Update order_update
  | Gateway_Status message_info gateway_status
  | Position_Update message_info position_update
  | Download_Begin string
  | Download_End string order_ident
  | Rate_Limit message_info buffer_capacity time
  | Parameters "parameter list"
  | Target_Quotes quotes

definition keep_core :: "'c \<Rightarrow> oms res \<Rightarrow> ('c \<times> oms) res" where
  "keep_core c r = rbind r (\<lambda>s. Inr (c, s))"

lemma keep_core_Inr [res_simps]: "keep_core c r = Inr (c', s') \<longleftrightarrow> c' = c \<and> r = Inr s'"
  by (auto simp: keep_core_def res_simps)

fun oms_handle ::
  "'g ext \<Rightarrow> bool \<Rightarrow> (trade \<Rightarrow> ('g, 'z) core_scheme \<times> oms \<Rightarrow> (('g, 'z) core_scheme \<times> oms) res) \<Rightarrow>
     oms_event \<Rightarrow> ('g, 'z) core_scheme \<times> oms \<Rightarrow> (('g, 'z) core_scheme \<times> oms) res" where
  "oms_handle X flag cb (Timer now) (c, s) = keep_core c (on_timer X now c s)"
| "oms_handle X flag cb (Order_Ack u) (c, s) = keep_core c (on_order_ack X u c s)"
| "oms_handle X flag cb (Order_Update u) (c, s) = on_order_update X cb u (c, s)"
| "oms_handle X flag cb (Gateway_Status e u) (c, s) = keep_core c (on_gateway_status X flag e u c s)"
| "oms_handle X flag cb (Position_Update e u) (c, s) = Inr (oms_on_position_update X e u (c, s))"
| "oms_handle X flag cb (Download_Begin a) (c, s) = keep_core c (on_download_begin X a c s)"
| "oms_handle X flag cb (Download_End a i) (c, s) = keep_core c (on_download_end X a i c s)"
| "oms_handle X flag cb (Rate_Limit e cap t) (c, s) = keep_core c (on_rate_limit X e cap t c s)"
| "oms_handle X flag cb (Parameters ps) (c, s) = oms_on_parameters X ps (c, s)"
| "oms_handle X flag cb (Target_Quotes tq) (c, s) = on_target_quotes X tq (c, s)"

definition initial_oms :: "(string, (string, string) hash) hash \<Rightarrow> oms" where
  "initial_oms gws =
     \<lparr>reject_timeout = 2000000000, max_order_id = 0, market_by_order = [], books = [],
      trade_gateway_by_account_by_exchange = gws, oms_now = 0, last_process = 0, sent_requests = []\<rparr>"

fun event_placed :: "'g ext \<Rightarrow> oms_event \<Rightarrow> ('g, 'z) core_scheme \<times> oms \<Rightarrow> bool" where
  "event_placed X (Order_Update u) r = update_placed X u r"
| "event_placed X _ r = True"

text \<open>
  The states a run can reach: from an empty order manager, through events, and through changes of
  the shared core by others, which do not make a gateway ready while an identifier in use is still
  above the counter.
\<close>

inductive reachable ::
  "'g ext \<Rightarrow> bool \<Rightarrow> (trade \<Rightarrow> ('g, 'z) core_scheme \<times> oms \<Rightarrow> (('g, 'z) core_scheme \<times> oms) res) \<Rightarrow>
     ('g, 'z) core_scheme \<times> oms \<Rightarrow> bool"
  for X flag cb where
  start: "reachable X flag cb (c, initial_oms gws)"
| event: "reachable X flag cb (c, s) \<Longrightarrow> event_placed X e (c, s) \<Longrightarrow>
    oms_handle X flag cb e (c, s) = Inr (c', s') \<Longrightarrow> reachable X flag cb (c', s')"
| core: "reachable X flag cb (c, s) \<Longrightarrow> safe X (c_gateways c') s \<Longrightarrow> reachable X flag cb (c', s)"

lemma oms_wf_initial: "oms_wf (initial_oms gws)"
  by (rule oms_wfI) (simp_all add: initial_oms_def hd.wf_empty hd.find_empty hd3.pair.wf_empty hd3.pair.find_empty)

lemma oms_on_parameters_more:
  assumes "oms_on_parameters X ps (c, s) = Inr (c', s')"
  shows "core.more c' = core.more c"
proof -
  have "core.more (fst (c', s')) = core.more c"
    using assms unfolding oms_on_parameters_def
    by (rule rfold_invariant [where I = "\<lambda>r. core.more (fst r) = core.more c"])
      (auto simp: res_simps Let_def split: if_splits)
  then show ?thesis by simp
qed

lemma on_target_quotes_more: "on_target_quotes X tq (c, s) = Inr (c', s') \<Longrightarrow> core.more c' = core.more c"
  by (auto simp: on_target_quotes_def res_simps Let_def split: if_splits)

lemma oms_handle_wf_on:
  assumes cb: "keeps_wf_on J X cb" and J: "app_only J" "J c" and wf: "oms_wf s" "safe X (c_gateways c) s"
    and placed: "event_placed X e (c, s)" and run: "oms_handle X flag cb e (c, s) = Inr (c', s')"
  shows "J c' \<and> oms_wf s' \<and> safe X (c_gateways c') s'"
proof (cases e)
  case (Timer now)
  with run wf J show ?thesis using on_timer_wf [of X now c s s'] by (simp add: keep_core_Inr)
next
  case (Order_Ack u)
  with run wf J show ?thesis using on_order_ack_wf [of X u c s s'] by (simp add: keep_core_Inr)
next
  case (Order_Update u)
  with run placed have "on_order_update X cb u (c, s) = Inr (c', s')" "update_placed X u (c, s)" by simp_all
  from on_order_update_wf [OF this(1) wf cb J(2) this(2)] show ?thesis .
next
  case (Gateway_Status m u)
  with run wf J show ?thesis using on_gateway_status_wf [of X flag m u c s s' "c_gateways c"] by (simp add: keep_core_Inr)
next
  case (Position_Update m u)
  with run have "oms_on_position_update X m u (c, s) = (c', s')" by simp
  from oms_on_position_update_wf [OF this wf] oms_on_position_update_more [OF this] J show ?thesis
    unfolding app_only_def by blast
next
  case (Download_Begin a)
  with run wf J show ?thesis using on_download_begin_wf [of X a c s s' "c_gateways c"] by (simp add: keep_core_Inr)
next
  case (Download_End a i)
  with run wf J show ?thesis using on_download_end_wf [of X a i c s s' "c_gateways c"] by (simp add: keep_core_Inr)
next
  case (Rate_Limit m cap t)
  with run wf J show ?thesis using on_rate_limit_wf [of X m cap t c s s' "c_gateways c"] by (simp add: keep_core_Inr)
next
  case (Parameters ps)
  with run have "oms_on_parameters X ps (c, s) = Inr (c', s')" by simp
  from oms_on_parameters_wf [OF this wf] oms_on_parameters_more [OF this] J show ?thesis
    unfolding app_only_def by blast
next
  case (Target_Quotes tq)
  with run have "on_target_quotes X tq (c, s) = Inr (c', s')" by simp
  from on_target_quotes_wf [OF this wf] on_target_quotes_more [OF this] J show ?thesis
    unfolding app_only_def by blast
qed

lemma oms_handle_wf:
  assumes "keeps_wf X cb" and "oms_wf s" "safe X (c_gateways c) s" and "event_placed X e (c, s)"
    and "oms_handle X flag cb e (c, s) = Inr (c', s')"
  shows "oms_wf s' \<and> safe X (c_gateways c') s'"
  using oms_handle_wf_on [OF assms(1) [unfolded keeps_wf_def] _ _ assms(2-5)] by (simp add: app_only_def)

lemma reachable_wf:
  assumes "reachable X flag cb r" "keeps_wf X cb"
  shows "oms_wf (snd r) \<and> safe X (c_gateways (fst r)) (snd r)"
  using assms(1)
proof (induction rule: reachable.induct)
  case (start c gws)
  then show ?case by (simp add: oms_wf_initial) (simp add: initial_oms_def safe_def ids_below_def hd.find_empty)
next
  case (event c s e c' s')
  then show ?case using oms_handle_wf [OF assms(2)] by simp blast
next
  case (core c s c')
  then show ?case by simp
qed


section \<open>The index of live orders\<close>

text \<open>
  C7: In every state the order manager reaches from an empty one, the orders of the books and
  the index by order identifier agree: an order of a book has its own identifier as key, is indexed
  under its book, and is in no other book; and every indexed identifier is a live order.  The runs are
  those where an update of an indexed order is for the book the order is in, an update of an unknown
  order has an identifier the counter has reached or comes while no gateway is ready
  (\<open>update_placed\<close>), changes of the core by others make no gateway ready while an identifier in use is
  above the counter (\<open>safe\<close>), and the handler of trades keeps the same invariant (\<open>keeps_wf\<close>).
\<close>

theorem live_orders_indexed:
  assumes "reachable X flag cb (c, s)" and "keeps_wf X cb"
  shows "(\<forall>k b i ord. hfind3 (books s) k = Some b \<longrightarrow> hfind (b_orders b) i = Some ord \<longrightarrow>
            o_order_id ord = i \<and> (\<exists>key. hfind (market_by_order s) i = Some key \<and> key_ident key = k) \<and>
            (\<forall>k' b' ord'. hfind3 (books s) k' = Some b' \<longrightarrow> hfind (b_orders b') i = Some ord' \<longrightarrow>
               k' = k \<and> ord' = ord)) \<and>
         (\<forall>i key. hfind (market_by_order s) i = Some key \<longrightarrow>
            (\<exists>b ord. hfind3 (books s) (key_ident key) = Some b \<and> hfind (b_orders b) i = Some ord))"
proof (intro conjI allI impI)
  have wf: "oms_wf s" using reachable_wf [OF assms] by simp
  have ix: "\<exists>key. hfind (market_by_order s) i = Some key \<and> key_ident key = k"
    if "hfind3 (books s) k = Some b" "hfind (b_orders b) i = Some ord" for k b i ord
    using oms_wfD(4) [OF wf that(1)] that(2) unfolding index_ok_def by blast
  {
    fix k b i ord
    assume b: "hfind3 (books s) k = Some b" "hfind (b_orders b) i = Some ord"
    show "o_order_id ord = i"
      using keys_okD [OF _ b(2)] oms_wfD(4) [OF wf b(1)] by (simp add: index_ok_def)
    show "\<exists>key. hfind (market_by_order s) i = Some key \<and> key_ident key = k" by (rule ix [OF b])
    fix k' b' ord'
    assume b': "hfind3 (books s) k' = Some b'" "hfind (b_orders b') i = Some ord'"
    show kk: "k' = k" using ix [OF b] ix [OF b'] by auto
    show "ord' = ord" using b b' unfolding kk by simp
  }
  show "\<exists>b ord. hfind3 (books s) (key_ident key) = Some b \<and> hfind (b_orders b) i = Some ord"
    if "hfind (market_by_order s) i = Some key" for i key
    using oms_wfD(4,5) [OF wf] that unfolding index_ok_def by blast
qed

definition demo_quotes :: quotes where
  "demo_quotes = \<lparr>qs_market = 1, qs_symbol = ''s'', qs_exchange = ''e'', qs_account = ''a'', qs_portfolio = 1,
     qs_strategy = 1, qs_buy = [no_exec_quote\<lparr>eq_price := Fin 100, eq_volume := Fin 5\<rparr>], qs_sell = []\<rparr>"

definition start_oms :: oms where "start_oms = initial_oms [(''e'', [(''a'', ''g'')])]"

definition quoted :: "unit core \<times> oms" where
  "quoted = (case on_target_quotes plain_ext demo_quotes (demo_core, start_oms) of Inr r \<Rightarrow> r | _ \<Rightarrow> (demo_core, start_oms))"

lemmas quotes_eval =
  on_target_quotes_def emplace_market_def emplace_book_def start_oms_def initial_oms_def
  demo_quotes_def oms_market_merge_def no_oms_market_def clear_targets_def set_targets_def
  no_exec_quote_def exec_quote_empty_def get_books_def store_book_def


lemma quoted_ok:
  "\<exists>c s b. on_target_quotes plain_ext demo_quotes (demo_core, start_oms) = Inr (c, s) \<and>
     hfind3 (books s) (1, ''a'', 1) = Some b \<and> hfind (b_orders b) 1 \<noteq> None"
  by (simp add: quotes_eval get_source_def get_trade_gateway_def get_market_def double_compare_nan process_eval hash_eval demo_eval cong: eval_congs)

lemma keeps_wf_ignore: "keeps_wf X (\<lambda>t. Inr)"
  by (simp add: keeps_wf_def keeps_wf_on_def)

lemma quoted_reachable: "reachable plain_ext False (\<lambda>t. Inr) quoted"
proof -
  have "reachable plain_ext False (\<lambda>t. Inr) (demo_core, start_oms)"
    unfolding start_oms_def by (rule reachable.start)
  from reachable.event [OF this, of "Target_Quotes demo_quotes" "fst quoted" "snd quoted"] quoted_ok
  show ?thesis by (auto simp: quoted_def)
qed

theorem live_orders_indexed_witness:
  "\<exists>key. hfind (market_by_order (snd quoted)) 1 = Some key \<and> key_ident key = (1, ''a'', 1)"
proof -
  obtain b ord where b: "hfind3 (books (snd quoted)) (1, ''a'', 1) = Some b" "hfind (b_orders b) 1 = Some ord"
    using quoted_ok by (auto simp: quoted_def)
  have r: "reachable plain_ext False (\<lambda>t. Inr) (fst quoted, snd quoted)" using quoted_reachable by simp
  show ?thesis using live_orders_indexed [OF r keeps_wf_ignore] b by blast
qed

end
