(* ===== verification/Strategy.thy ===== *)
theory Strategy
  imports Handler Config_Parameters Oms_Index
begin

text \<open>
  \<open>core/strategy.{hpp,cpp}\<close> and the dispatch of events of \<open>core/basic_handler.hpp\<close> and
  \<open>core/manager.hpp\<close>: every event of the client library goes to the configuration, the core, the
  order manager and the pricer, in this order, as far as they take it; top-of-book and
  market-by-price updates become quotes for the pricer, fills of the order manager become trades of
  the portfolios, and changes of exposure go to the pricer.

  The state is the core extended by the configuration and the pricer, and the order manager.
  \<open>cache::Manager\<close> and \<open>cache::Gateway\<close> are not part of the repository: an event carries what the
  gateway's cache does with it (\<open>ev_gateway\<close>, \<open>None\<close> when it does not take events of this type), and
  a market-by-price update the layers the cache extracts after it.
\<close>

section \<open>State and events\<close>

record ('g, 'p) app = "'g core" +
  a_config :: config
  a_pricer :: 'p

type_synonym ('g, 'p) strategy_state = "('g, 'p) app \<times> oms"

record layer =
  ly_bid_price :: double
  ly_bid_quantity :: double
  ly_ask_price :: double
  ly_ask_quantity :: double

datatype client_value =
    V_Timer time
  | V_Gateway_Settings
  | V_Gateway_Status gateway_status
  | V_Reference_Data string string double
  | V_Market_Status
  | V_Top_Of_Book string string layer
  | V_Market_By_Price string string "layer list"
  | V_Order_Ack order_ack
  | V_Order_Update order_update
  | V_Position_Update position_update
  | V_Download_Begin string
  | V_Download_End string order_ident
  | V_Rate_Limit buffer_capacity time
  | V_Parameters "parameter list"
  | V_Other  \<comment> \<open>taken by the caches of the core at most\<close>

record 'g client_event =
  ev_info :: message_info
  ev_gateway :: "('g \<Rightarrow> 'g \<times> bool) option"
  ev_value :: client_value


section \<open>The handlers a strategy is for its components\<close>

definition run_pricer ::
  "('p, ('g, 'p) strategy_state) pricer \<Rightarrow> handler_event \<Rightarrow> ('g, 'p) strategy_state \<Rightarrow> ('g, 'p) strategy_state res"
  where
  "run_pricer P h = (\<lambda>(c, s). rbind (P h (a_pricer c, c, s)) (\<lambda>(p, c1, s1). Inr (c1\<lparr>a_pricer := p\<rparr>, s1)))"

text \<open>\<open>operator()(ExposureUpdate)\<close>, called by the portfolios.\<close>

definition on_exposure_update ::
  "('p, ('g, 'p) strategy_state) pricer \<Rightarrow> exposure_update option \<Rightarrow> ('g, 'p) strategy_state \<Rightarrow>
     ('g, 'p) strategy_state res" where
  "on_exposure_update P x r = (case x of None \<Rightarrow> Inr r | Some u \<Rightarrow> run_pricer P (H_Exposure_Update u) r)"

text \<open>\<open>operator()(Trade)\<close>, called by the order manager.\<close>

definition strategy_on_trade ::
  "'g ext \<Rightarrow> ('p, ('g, 'p) strategy_state) pricer \<Rightarrow> trade \<Rightarrow> ('g, 'p) strategy_state \<Rightarrow> ('g, 'p) strategy_state res"
  where
  "strategy_on_trade X P t = (\<lambda>(c, s).
     rbind (portfolios_on_trade (x_layout X) t (c_portfolios c)) (\<lambda>(x, pm).
       on_exposure_update P x (c\<lparr>c_portfolios := pm\<rparr>, s)))"


section \<open>Dispatch\<close>

definition config_event :: "client_value \<Rightarrow> config \<Rightarrow> config" where
  "config_event v cfg =
     (case v of V_Timer now \<Rightarrow> config_on_timer now cfg | V_Parameters ps \<Rightarrow> config_on_parameters ps cfg | _ \<Rightarrow> cfg)"

definition gateways_event :: "'g ext \<Rightarrow> 'g client_event \<Rightarrow> 'g gateways \<Rightarrow> 'g gateways" where
  "gateways_event X ev gws =
     (case ev_gateway ev of None \<Rightarrow> gws | Some g \<Rightarrow> snd (gateway_event X g (ev_info ev) gws))"

text \<open>\<open>core::Manager::dispatch\<close>: gateways, markets, portfolios.\<close>

definition core_event ::
  "'g ext \<Rightarrow> ('p, ('g, 'p) strategy_state) pricer \<Rightarrow> 'g client_event \<Rightarrow> ('g, 'p) strategy_state \<Rightarrow>
     ('g, 'p) strategy_state res" where
  "core_event X P ev = (\<lambda>(c, s).
     let c1 = c\<lparr>c_gateways := gateways_event X ev (c_gateways c)\<rparr> in
     case ev_value ev of
       V_Gateway_Settings \<Rightarrow> Inr (c1\<lparr>c_markets := on_gateway_settings (ev_info ev) (c_markets c1)\<rparr>, s)
     | V_Reference_Data symbol exch tick \<Rightarrow>
         rbind (on_reference_data (x_layout X) symbol exch tick (c_markets c1)) (\<lambda>ms.
           Inr (c1\<lparr>c_markets := ms\<rparr>, s))
     | V_Parameters ps \<Rightarrow>
         rbind (portfolios_on_parameters (x_layout X) ps (c_portfolios c1)) (\<lambda>pm.
           Inr (c1\<lparr>c_portfolios := pm\<rparr>, s))
     | V_Position_Update u \<Rightarrow>
         rbind (portfolios_on_position_update X (c_gateways c1) (ev_info ev) u (c_markets c1) (c_portfolios c1))
           (\<lambda>(x, ms, pm). on_exposure_update P x (c1\<lparr>c_markets := ms, c_portfolios := pm\<rparr>, s))
     | _ \<Rightarrow> Inr (c1, s))"

text \<open>The events \<open>oms::Manager\<close> and \<open>core::Handler\<close> declare an operator for.\<close>

definition oms_event_of :: "message_info \<Rightarrow> client_value \<Rightarrow> oms_event option" where
  "oms_event_of e v =
     (case v of
        V_Timer now \<Rightarrow> Some (Timer now)
      | V_Gateway_Status u \<Rightarrow> Some (Gateway_Status e u)
      | V_Order_Ack u \<Rightarrow> Some (Order_Ack u)
      | V_Order_Update u \<Rightarrow> Some (Order_Update u)
      | V_Position_Update u \<Rightarrow> Some (Position_Update e u)
      | V_Download_Begin a \<Rightarrow> Some (Download_Begin a)
      | V_Download_End a i \<Rightarrow> Some (Download_End a i)
      | V_Rate_Limit b t \<Rightarrow> Some (Rate_Limit e b t)
      | V_Parameters ps \<Rightarrow> Some (Parameters ps)
      | _ \<Rightarrow> None)"

definition pricer_event_of :: "client_value \<Rightarrow> handler_event option" where
  "pricer_event_of v =
     (case v of
        V_Timer now \<Rightarrow> Some (H_Timer now)
      | V_Market_Status \<Rightarrow> Some H_Market_Status
      | V_Reference_Data symbol exch tick \<Rightarrow> Some (H_Reference_Data symbol exch)
      | V_Download_Begin a \<Rightarrow> Some (H_Download_Begin a)
      | V_Download_End a i \<Rightarrow> Some (H_Download_End a)
      | V_Parameters ps \<Rightarrow> Some (H_Parameters_Update ps)
      | _ \<Rightarrow> None)"

definition strategy_dispatch ::
  "'g ext \<Rightarrow> bool \<Rightarrow> ('p, ('g, 'p) strategy_state) pricer \<Rightarrow> 'g client_event \<Rightarrow> ('g, 'p) strategy_state \<Rightarrow>
     ('g, 'p) strategy_state res" where
  "strategy_dispatch X flag P ev = (\<lambda>(c, s).
     rbind (core_event X P ev (c\<lparr>a_config := config_event (ev_value ev) (a_config c)\<rparr>, s)) (\<lambda>r1.
     rbind (case oms_event_of (ev_info ev) (ev_value ev) of
              None \<Rightarrow> Inr r1
            | Some e \<Rightarrow> oms_handle X flag (strategy_on_trade X P) e r1) (\<lambda>r2.
       case pricer_event_of (ev_value ev) of
         None \<Rightarrow> Inr r2
       | Some h \<Rightarrow> run_pricer P h r2)))"


section \<open>Quotes\<close>

text \<open>
  \<open>set_top_of_book\<close> is the code's update of the cached quotes: the quantity of the ask is written
  over the volume of the buy side.
\<close>

definition set_top_of_book :: "layer \<Rightarrow> best_quotes \<Rightarrow> best_quotes" where
  "set_top_of_book l b =
     (let b1 = b\<lparr>bq_buy := (bq_buy b)\<lparr>eq_price := ly_bid_price l, eq_volume := ly_bid_quantity l\<rparr>,
                 bq_sell := (bq_sell b)\<lparr>eq_price := ly_ask_price l\<rparr>\<rparr> in
      b1\<lparr>bq_buy := (bq_buy b1)\<lparr>eq_volume := ly_ask_quantity l\<rparr>\<rparr>)"

definition set_first_layer :: "layer list \<Rightarrow> best_quotes \<Rightarrow> best_quotes" where
  "set_first_layer ls b =
     (case ls of
        l # _ \<Rightarrow>
          b\<lparr>bq_buy := (bq_buy b)\<lparr>eq_price := ly_bid_price l, eq_volume := ly_bid_quantity l\<rparr>,
            bq_sell := (bq_sell b)\<lparr>eq_price := ly_ask_price l, eq_volume := ly_ask_quantity l\<rparr>\<rparr>
      | [] \<Rightarrow> no_best_quotes)"

text \<open>The part the two handlers share: the cache is updated by \<open>f\<close>, and the pricer is told.\<close>

definition publish_quotes ::
  "'g ext \<Rightarrow> ('p, ('g, 'p) strategy_state) pricer \<Rightarrow> best_quotes_source \<Rightarrow> (best_quotes \<Rightarrow> best_quotes) \<Rightarrow>
     string \<Rightarrow> string \<Rightarrow> ('g, 'p) strategy_state \<Rightarrow> ('g, 'p) strategy_state res" where
  "publish_quotes X P source f symbol exch = (\<lambda>(c, s).
     let market = get_market_ident symbol exch (c_markets c) in
     if \<not> core_is_ready X market c then Inr (c, s)
     else
       case get_market market (c_markets c) of
         None \<Rightarrow> Inr (c, s)
       | Some info \<Rightarrow>
           if info_best_quotes_source info = source then
             (let (b, _, cache) = bq_emplace_quotes (x_layout X) market (c_best_quotes c);
                  b1 = f b; c1 = c\<lparr>c_best_quotes := hset market b1 cache\<rparr> in
              run_pricer P
                (H_Quotes \<lparr>qs_market = market, qs_symbol = symbol, qs_exchange = exch, qs_account = [], qs_portfolio = 0,
                           qs_strategy = 0, qs_buy = [bq_buy b1], qs_sell = [bq_sell b1]\<rparr>) (c1, s))
           else Inr (c, s))"

definition strategy_event ::
  "'g ext \<Rightarrow> bool \<Rightarrow> ('p, ('g, 'p) strategy_state) pricer \<Rightarrow> 'g client_event \<Rightarrow> ('g, 'p) strategy_state \<Rightarrow>
     ('g, 'p) strategy_state res" where
  "strategy_event X flag P ev r =
     rbind (strategy_dispatch X flag P ev r)
       (case ev_value ev of
          V_Top_Of_Book symbol exch l \<Rightarrow> publish_quotes X P BQS_TOP_OF_BOOK (set_top_of_book l) symbol exch
        | V_Market_By_Price symbol exch ls \<Rightarrow> publish_quotes X P BQS_MARKET_BY_PRICE (set_first_layer ls) symbol exch
        | _ \<Rightarrow> Inr)"

text \<open>
  The end of the constructor: the configuration replays its parameters to the strategy, as an event
  without a source.
\<close>

definition parameters_event :: "parameter list \<Rightarrow> 'g client_event" where
  "parameters_event ps = \<lparr>ev_info = \<lparr>mi_source = 0, mi_source_name = []\<rparr>, ev_gateway = None, ev_value = V_Parameters ps\<rparr>"

definition strategy_start ::
  "'g ext \<Rightarrow> bool \<Rightarrow> ('p, ('g, 'p) strategy_state) pricer \<Rightarrow> ('g, 'p) strategy_state \<Rightarrow> ('g, 'p) strategy_state res" where
  "strategy_start X flag P =
     config_dispatch (\<lambda>(c, s). a_config c) (\<lambda>cfg (c, s). (c\<lparr>a_config := cfg\<rparr>, s))
       (\<lambda>ps. strategy_event X flag P (parameters_event ps))"

end
