(* ===== verification/Parse_Double.thy ===== *)
theory Parse_Double
  imports Doubles Strings
begin

text \<open>
  \<open>core::to_double\<close> and \<open>Double::parse\<close> of \<open>core/double.hpp\<close>: the first 127 characters of the text
  are given to \<open>sscanf\<close> with the conversion \<open>%lf\<close>.  \<open>scan_lf\<close> is that conversion as the C standard
  describes it for the C locale: leading white space, a sign, then \<open>inf\<close>, \<open>infinity\<close>, \<open>nan\<close>, a
  hexadecimal or a decimal number.  What follows the number is ignored; an input item that stops
  inside an exponent is a matching failure.
\<close>

section \<open>The conversion\<close>

definition is_space :: "char \<Rightarrow> bool" where
  "is_space c \<longleftrightarrow> c \<in> {CHR '' '', CHR 0x09, CHR 0x0A, CHR 0x0B, CHR 0x0C, CHR 0x0D}"

definition hex_value :: "char \<Rightarrow> nat" where
  "hex_value c =
     (let n = of_char c in
      if n \<le> 57 then n - 48 else if n \<le> 70 then n - 55 else n - 87)"

definition is_hex_digit :: "char \<Rightarrow> bool" where
  "is_hex_digit c =
     (let n = of_char c :: nat in
      (48 \<le> n \<and> n \<le> 57) \<or> (65 \<le> n \<and> n \<le> 70) \<or> (97 \<le> n \<and> n \<le> 102))"

definition base_value :: "nat \<Rightarrow> (char \<Rightarrow> nat) \<Rightarrow> string \<Rightarrow> nat" where
  "base_value b val s = foldl (\<lambda>v c. b * v + val c) 0 s"

fun scan_sign :: "string \<Rightarrow> bool \<times> string" where
  "scan_sign [] = (False, [])"
| "scan_sign (c # s) = (if c = CHR ''-'' then (True, s) else if c = CHR ''+'' then (False, s) else (False, c # s))"

text \<open>The exponent: none, or its value, or (\<open>None\<close>) letter and sign without a digit.\<close>

definition scan_exponent :: "char \<Rightarrow> string \<Rightarrow> int option" where
  "scan_exponent letter s =
     (case s of
        [] \<Rightarrow> Some 0
      | c # r \<Rightarrow>
          if upcase c \<noteq> letter then Some 0
          else
            (let (neg, r1) = scan_sign r; ds = takeWhile is_digit r1 in
             if ds = [] then None
             else Some (if neg then - int (digits_value ds) else int (digits_value ds))))"

text \<open>Digits, a point, digits, an exponent; \<open>w\<close> is the weight of one unit of the exponent.\<close>

definition scan_number ::
  "nat \<Rightarrow> (char \<Rightarrow> bool) \<Rightarrow> (char \<Rightarrow> nat) \<Rightarrow> char \<Rightarrow> rat \<Rightarrow> string \<Rightarrow> rat option" where
  "scan_number b dig val letter w s =
     (let ip = takeWhile dig s;
          r = drop (length ip) s;
          fp = (case r of c # r1 \<Rightarrow> if c = CHR ''.'' then takeWhile dig r1 else [] | [] \<Rightarrow> []);
          r2 = (case r of c # r1 \<Rightarrow> if c = CHR ''.'' then drop (length fp) r1 else r | [] \<Rightarrow> []) in
      if ip = [] \<and> fp = [] then None
      else
        map_option (\<lambda>e.
          of_nat (base_value b val (ip @ fp)) / of_nat b ^ length fp * power_int w e)
          (scan_exponent letter r2))"

definition starts_with :: "string \<Rightarrow> string \<Rightarrow> bool" where
  "starts_with p s \<longleftrightarrow> to_upper (take (length p) s) = p"

definition scan_lf :: "string \<Rightarrow> double option" where
  "scan_lf s =
     (let (neg, r) = scan_sign (dropWhile is_space s) in
      if starts_with ''INF'' r then
        (if starts_with ''INFI'' r \<and> \<not> starts_with ''INFINITY'' r then None else Some (Infty neg))
      else if starts_with ''NAN'' r then Some NaN
      else
        map_option (\<lambda>x. fl neg (if neg then - x else x))
          (if starts_with ''0X'' r
           then scan_number 16 is_hex_digit hex_value (CHR ''P'') 2 (drop 2 r)
           else scan_number 10 is_digit digit_value (CHR ''E'') 10 r))"

text \<open>\<open>core::to_double\<close>; the C string ends at the first null character.\<close>

definition to_double :: "string \<Rightarrow> double res" where
  "to_double s =
     (case scan_lf (takeWhile (\<lambda>c. c \<noteq> CHR 0x00) (take 127 s)) of
        None \<Rightarrow> Inl (Runtime_Error (''invalid floating point number '' @ s))
      | Some v \<Rightarrow> Inr v)"

definition parse_double :: "string \<Rightarrow> double res" where
  "parse_double s = to_double s"


section \<open>Decimal texts\<close>

lemma base_value_digits: "base_value 10 digit_value s = digits_value s"
  by (simp add: base_value_def digits_value_def)

lemma digit_plain:
  assumes "is_digit c"
  shows "\<not> is_space c" "c \<noteq> CHR ''-''" "c \<noteq> CHR ''+''" "c \<noteq> CHR ''.''" "c \<noteq> CHR 0x00"
    "upcase c = c" "c \<noteq> CHR ''I''" "c \<noteq> CHR ''N''" "c \<noteq> CHR ''X''"
  using assms by (auto simp: is_digit_def is_space_def upcase_def Let_def)

lemma drop_length_takeWhile: "drop (length (takeWhile P s)) s = dropWhile P s"
  by (induction s) auto

lemma scan_sign_digit: "is_digit c \<Longrightarrow> scan_sign (c # s) = (False, c # s)"
  using digit_plain by auto

lemma starts_with_digit:
  "is_digit c \<Longrightarrow> p \<noteq> [] \<Longrightarrow> hd p \<noteq> c \<Longrightarrow> \<not> starts_with p (c # s)"
  by (cases p) (auto simp: starts_with_def to_upper_def digit_plain)

lemma not_hex_prefix:
  assumes "s = [] \<or> is_digit (hd s)" and "tl s = [] \<or> upcase (hd (tl s)) \<noteq> CHR ''X''"
  shows "\<not> starts_with ''0X'' s"
proof (cases s rule: remdups_adj.cases)
  case (3 x y xs)
  with assms show ?thesis by (simp add: starts_with_def to_upper_def)
qed (simp_all add: starts_with_def to_upper_def)

lemma takeWhile_digits:
  "list_all P xs \<Longrightarrow> ys = [] \<or> \<not> P (hd ys) \<Longrightarrow> takeWhile P (xs @ ys) = xs"
  by (cases ys) (auto simp: list_all_iff takeWhile_tail)

text \<open>
  The value of a decimal text: digits, and possibly a point with more digits.
\<close>

lemma scan_number_decimal:
  assumes "list_all is_digit ip" "ip \<noteq> []" "list_all is_digit fp"
  shows "scan_number 10 is_digit digit_value (CHR ''E'') 10 (ip @ CHR ''.'' # fp) =
      Some (of_nat (digits_value (ip @ fp)) / 10 ^ length fp)"
    "scan_number 10 is_digit digit_value (CHR ''E'') 10 ip = Some (of_nat (digits_value ip))"
proof -
  have 1: "takeWhile is_digit (ip @ CHR ''.'' # fp) = ip"
    by (rule takeWhile_digits [OF assms(1)]) (simp add: is_digit_def)
  have 2: "takeWhile is_digit fp = fp" "takeWhile is_digit ip = ip"
    using takeWhile_digits [OF assms(3), of "[]"] takeWhile_digits [OF assms(1), of "[]"] by simp_all
  show "scan_number 10 is_digit digit_value (CHR ''E'') 10 (ip @ CHR ''.'' # fp) =
      Some (of_nat (digits_value (ip @ fp)) / 10 ^ length fp)"
    unfolding scan_number_def Let_def 1 using assms(2)
    by (simp add: 2 scan_exponent_def base_value_digits del: takeWhile_eq_all_conv)
  show "scan_number 10 is_digit digit_value (CHR ''E'') 10 ip = Some (of_nat (digits_value ip))"
    unfolding scan_number_def Let_def 2 using assms(2)
    by (simp add: scan_exponent_def base_value_digits)
qed

lemma scan_lf_digits:
  assumes "is_digit c" "s = [] \<or> upcase (hd s) \<noteq> CHR ''X''"
  shows "scan_lf (c # s) = map_option (fl False) (scan_number 10 is_digit digit_value (CHR ''E'') 10 (c # s))"
proof -
  note d = digit_plain [OF assms(1)]
  have "\<not> starts_with ''INF'' (c # s)" "\<not> starts_with ''NAN'' (c # s)"
    using d by (simp_all add: starts_with_def to_upper_def)
  moreover have "\<not> starts_with ''0X'' (c # s)" by (rule not_hex_prefix) (use assms in simp_all)
  ultimately show ?thesis
    using d(1) by (simp add: scan_lf_def scan_sign_digit [OF assms(1)] del: scan_sign.simps)
qed

lemma to_double_plain:
  assumes "length s \<le> 127" "\<forall>c\<in>set s. c \<noteq> CHR 0x00"
  shows "to_double s = (case scan_lf s of None \<Rightarrow> Inl (Runtime_Error (''invalid floating point number '' @ s)) | Some v \<Rightarrow> Inr v)"
proof -
  have "takeWhile (\<lambda>c. c \<noteq> CHR 0x00) s = s" using assms(2) by (simp add: takeWhile_eq_all_conv)
  then show ?thesis unfolding to_double_def take_all [OF assms(1)] by (rule arg_cong)
qed

lemma parse_double_digits:
  assumes "list_all is_digit ip" "ip \<noteq> []" "list_all is_digit fp" "length ip + length fp < 127"
  shows "parse_double (ip @ CHR ''.'' # fp) = Inr (fl False (of_nat (digits_value (ip @ fp)) / 10 ^ length fp)) \<and>
    parse_double ip = Inr (fl False (of_nat (digits_value ip)))"
proof -
  obtain c r where ip: "ip = c # r" using assms(2) by (cases ip) auto
  have c: "is_digit c" using assms(1) ip by simp
  have dot: "upcase (CHR ''.'') = CHR ''.''" by (simp add: upcase_def)
  have r: "r @ CHR ''.'' # fp = [] \<or> upcase (hd (r @ CHR ''.'' # fp)) \<noteq> CHR ''X''"
      "r = [] \<or> upcase (hd r) \<noteq> CHR ''X''"
    using assms(1) dot by (auto simp: ip digit_plain hd_append list_all_iff)
  have z: "\<forall>x\<in>set (ip @ CHR ''.'' # fp). x \<noteq> CHR 0x00" "\<forall>x\<in>set ip. x \<noteq> CHR 0x00"
    using assms(1,3) digit_plain(5) by (auto simp: list_all_iff)
  show ?thesis
    using to_double_plain [OF _ z(1)] to_double_plain [OF _ z(2)] assms(4)
      scan_lf_digits [OF c r(1)] scan_lf_digits [OF c r(2)] scan_number_decimal [OF assms(1-3)]
    by (simp add: parse_double_def ip)
qed

lemma length_decimal_53: "n < 2 ^ 53 \<Longrightarrow> length (decimal n) < 127"
  using length_decimal [of n 15] by simp

text \<open>
  C25: a decimal text, digits with or without a point and more digits, of at most 127 characters is
  parsed to the double nearest to its value; so the decimal rendering of a natural number below
  2^53 is read back as that number, exactly.
\<close>

theorem parse_double_decimal:
  "(list_all is_digit ip \<and> ip \<noteq> [] \<and> list_all is_digit fp \<and> length ip + length fp < 127 \<longrightarrow>
      parse_double (ip @ CHR ''.'' # fp) = Inr (fl False (of_nat (digits_value (ip @ fp)) / 10 ^ length fp)) \<and>
      parse_double ip = Inr (fl False (of_nat (digits_value ip)))) \<and>
   (n < 2 ^ 53 \<longrightarrow> parse_double (decimal n) = Inr (Fin (of_nat n)))"
proof (intro conjI impI)
  show "parse_double (decimal n) = Inr (Fin (of_nat n))" if "n < 2 ^ 53"
    using parse_double_digits [OF decimal_digits decimal_nonempty, of "[]" n] length_decimal_53 [OF that]
      fl_of_int [of "int n" False] that
    by (simp add: digits_value_decimal)
qed (use parse_double_digits in blast)+

theorem parse_double_decimal_witness:
  "parse_double ''2.50'' = Inr (fl False (250 / 100)) \<and> parse_double ''2'' = Inr (fl False 2) \<and>
   parse_double (decimal 1234567) = Inr (Fin 1234567)"
  using parse_double_decimal [of "''2''" "''50''" 1234567]
  by (simp add: is_digit_def digits_value_def digit_value_def)

end
