(* ===== verification/Lqs.thy ===== *)
theory Lqs
  imports Core_Manager Parse_Double
begin

text \<open>
  The pricer of \<open>lqs/\<close>: legs (\<open>leg.{hpp,cpp}\<close>), underlyings (\<open>underlying.{hpp,cpp}\<close>), strategies
  (\<open>strategy.{hpp,cpp}\<close>) and the pricer itself (\<open>pricer.{hpp,cpp}\<close>).  A strategy liquidates the
  positions of its legs: it quotes each leg towards its target position, by at most a configured
  volume, and keeps the delta of the underlying in its range.  The dispatcher that receives the
  target quotes is the parameter \<open>D\<close>, a function on the core and whatever lies behind it (the
  order manager), because it runs inside the loops of the pricer.  The boolean results of the
  strategy's operations are not read by their only caller and are left out.
\<close>

section \<open>State\<close>

datatype execution_mode = EM_UNDEFINED | CROSS | JOIN | JOIN_PLUS | CROSS_MINUS

datatype contract_style = CS_UNDEFINED | SPOT | INVERSE | LINEAR

record lqs_leg =
  lg_market :: market
  lg_underlying :: ident
  lg_contract_style :: contract_style
  lg_position :: best_quotes
  lg_target_position :: double
  lg_execution_mode :: execution_mode
  lg_delta_greek :: double
  lg_exec_quotes :: best_quotes
  lg_market_quotes :: best_quotes
  lg_buy_volume :: double
  lg_sell_volume :: double
  lg_slippage :: double
  lg_delta_by_volume :: double
  lg_account :: string
  lg_tick_size :: double
  lg_ban_fill :: time

definition no_market :: market where
  "no_market = \<lparr>m_market = 0, m_symbol = [], m_exchange = [], m_account = [], m_strategy_id = 0\<rparr>"

definition default_leg :: lqs_leg where
  "default_leg =
     \<lparr>lg_market = no_market, lg_underlying = 0, lg_contract_style = CS_UNDEFINED,
      lg_position = \<lparr>bq_buy = no_exec_quote\<lparr>eq_volume := Fin 0\<rparr>,
                     bq_sell = no_exec_quote\<lparr>eq_volume := Fin 0\<rparr>\<rparr>,
      lg_target_position = Fin 0, lg_execution_mode = CROSS, lg_delta_greek = Fin 1,
      lg_exec_quotes = no_best_quotes, lg_market_quotes = no_best_quotes, lg_buy_volume = NaN,
      lg_sell_volume = NaN, lg_slippage = NaN, lg_delta_by_volume = Fin 1, lg_account = [],
      lg_tick_size = Fin 0, lg_ban_fill = 0\<rparr>"

record lqs_underlying =
  ul_market :: market
  ul_delta :: double
  ul_delta_min :: double
  ul_delta_max :: double
  ul_market_quotes :: best_quotes
  ul_legs :: "(ident \<times> string) list"

definition default_underlying :: lqs_underlying where
  "default_underlying =
     \<lparr>ul_market = no_market, ul_delta = NaN, ul_delta_min = Infty True, ul_delta_max = Infty False,
      ul_market_quotes = no_best_quotes, ul_legs = []\<rparr>"

record lqs_strategy =
  ls_enabled :: bool
  ls_strategy :: ident
  ls_portfolio :: ident
  ls_underlyings :: "(ident, lqs_underlying) hash"
  ls_legs :: "(string, (ident, lqs_leg) hash) hash"

definition default_strategy :: lqs_strategy where
  "default_strategy =
     \<lparr>ls_enabled = False, ls_strategy = 0, ls_portfolio = 0, ls_underlyings = [], ls_legs = []\<rparr>"

type_synonym lqs_pricer = "(ident, lqs_strategy) hash"

text \<open>A leg is named by its account and market, the keys of the two hash containers.\<close>

type_synonym leg_key = "string \<times> ident"


section \<open>A leg\<close>

text \<open>\<open>magic_enum::enum_cast\<close>: the enumerator of that name.\<close>

definition execution_mode_cast :: "string \<Rightarrow> execution_mode option" where
  "execution_mode_cast s =
     map_of [(''UNDEFINED'', EM_UNDEFINED), (''CROSS'', CROSS), (''JOIN'', JOIN),
             (''JOIN_PLUS'', JOIN_PLUS), (''CROSS_MINUS'', CROSS_MINUS)] s"

definition contract_style_cast :: "string \<Rightarrow> contract_style option" where
  "contract_style_cast s =
     map_of [(''UNDEFINED'', CS_UNDEFINED), (''SPOT'', SPOT), (''INVERSE'', INVERSE), (''LINEAR'', LINEAR)] s"

definition leg_parameter :: "parameter \<Rightarrow> string \<Rightarrow> lqs_leg \<Rightarrow> lqs_leg res" where
  "leg_parameter p label leg =
     (if label = ''delta_by_volume'' then
        rbind (parse_double (par_value p)) (\<lambda>v. Inr (leg\<lparr>lg_delta_by_volume := v\<rparr>))
      else if label = ''buy_volume'' then
        rbind (parse_double (par_value p)) (\<lambda>v. Inr (leg\<lparr>lg_buy_volume := v\<rparr>))
      else if label = ''sell_volume'' then
        rbind (parse_double (par_value p)) (\<lambda>v. Inr (leg\<lparr>lg_sell_volume := v\<rparr>))
      else if label = ''execution_mode'' then
        Inr (leg\<lparr>lg_execution_mode :=
               (case execution_mode_cast (par_value p) of None \<Rightarrow> EM_UNDEFINED | Some m \<Rightarrow> m)\<rparr>)
      else if label = ''slippage'' then
        rbind (parse_double (par_value p)) (\<lambda>v. Inr (leg\<lparr>lg_slippage := v\<rparr>))
      else if label = ''contract_style'' then
        Inr (leg\<lparr>lg_contract_style :=
               (case contract_style_cast (par_value p) of None \<Rightarrow> CS_UNDEFINED | Some m \<Rightarrow> m)\<rparr>)
      else Inr leg)"

definition leg_exposure :: "exposure \<Rightarrow> lqs_leg \<Rightarrow> lqs_leg" where
  "leg_exposure e leg =
     leg\<lparr>lg_position :=
           (lg_position leg)\<lparr>bq_buy := (bq_buy (lg_position leg))\<lparr>eq_volume := ev_position_buy (e_value e)\<rparr>,
              bq_sell := (bq_sell (lg_position leg))\<lparr>eq_volume := ev_position_sell (e_value e)\<rparr>\<rparr>\<rparr>"

definition check_market_quotes :: "lqs_leg \<Rightarrow> bool" where
  "check_market_quotes leg =
     (let m = lg_market_quotes leg in
      if exec_quote_empty (bq_buy m) \<or> exec_quote_empty (bq_sell m) then False
      else
        (let spread = (eq_price (bq_sell m) / eq_price (bq_buy m) - Fin 1) * Fin 10000 in
         \<not> (\<not> double_empty (lg_slippage leg) \<and> dgt spread (lg_slippage leg))))"

text \<open>The volumes of the executable quotes, before and after the range of the delta is applied.\<close>

definition leg_volumes :: "lqs_leg \<Rightarrow> double \<times> double" where
  "leg_volumes leg =
     (let p = lg_position leg;
          current_position = eq_volume (bq_buy p) - eq_volume (bq_sell p);
          exposure = current_position - lg_target_position leg in
      (double_min (lg_buy_volume leg) (double_max (- exposure) (Fin 0)),
       double_min (lg_sell_volume leg) (double_max exposure (Fin 0))))"

definition limit_volumes :: "lqs_underlying option \<Rightarrow> lqs_leg \<Rightarrow> double \<times> double \<Rightarrow> double \<times> double" where
  "limit_volumes uo leg = (\<lambda>(buy, sell).
     case uo of
       None \<Rightarrow> (buy, sell)
     | Some u \<Rightarrow>
         (let delta_plus = double_max (ul_delta_max u - ul_delta u) (Fin 0);
              delta_minus = double_max (ul_delta u - ul_delta_min u) (Fin 0) in
          (double_min buy (delta_plus / lg_delta_by_volume leg),
           double_min sell (delta_minus / lg_delta_by_volume leg))))"

text \<open>
  The prices the execution mode gives; a price is assigned only when the volume of its side is
  positive, and keeps its old value otherwise.
\<close>

definition leg_prices :: "lqs_leg \<Rightarrow> (double \<times> double) res" where
  "leg_prices leg =
     (let m = lg_market_quotes leg; bid = eq_price (bq_buy m); ask = eq_price (bq_sell m);
          tick = lg_tick_size leg in
      case lg_execution_mode leg of
        CROSS \<Rightarrow> Inr (ask, bid)
      | JOIN \<Rightarrow> Inr (bid, ask)
      | JOIN_PLUS \<Rightarrow>
          ensure (\<not> isnan tick) (Inr (double_min (bid + tick) (ask - tick), double_max (ask - tick) (bid + tick)))
      | CROSS_MINUS \<Rightarrow> ensure (\<not> isnan tick) (Inr (ask - tick, bid + tick))
      | EM_UNDEFINED \<Rightarrow> Inl Assert_Failed)"

definition set_quote :: "double \<Rightarrow> double \<Rightarrow> exec_quote \<Rightarrow> exec_quote" where
  "set_quote volume price q =
     (let q1 = q\<lparr>eq_volume := volume\<rparr> in if dgt volume (Fin 0) then q1\<lparr>eq_price := price\<rparr> else q1)"

definition leg_compute :: "bool \<Rightarrow> lqs_underlying option \<Rightarrow> lqs_leg \<Rightarrow> lqs_leg res" where
  "leg_compute enabled uo leg =
     (if \<not> check_market_quotes leg then Inr (leg\<lparr>lg_exec_quotes := no_best_quotes\<rparr>)
      else if \<not> enabled then Inr (leg\<lparr>lg_exec_quotes := no_best_quotes\<rparr>)
      else
        (let (buy, sell) = limit_volumes uo leg (leg_volumes leg); q = lg_exec_quotes leg in
         rbind (leg_prices leg) (\<lambda>(buy_price, sell_price).
           Inr (leg\<lparr>lg_exec_quotes := q\<lparr>bq_buy := set_quote buy buy_price (bq_buy q),
                                       bq_sell := set_quote sell sell_price (bq_sell q)\<rparr>\<rparr>))))"


section \<open>An underlying\<close>

definition underlying_parameter :: "parameter \<Rightarrow> string \<Rightarrow> lqs_underlying \<Rightarrow> lqs_underlying res" where
  "underlying_parameter p label u =
     (if label = ''delta_min'' then
        rbind (parse_double (par_value p)) (\<lambda>v. Inr (u\<lparr>ul_delta_min := v\<rparr>))
      else if label = ''delta_max'' then
        rbind (parse_double (par_value p)) (\<lambda>v. Inr (u\<lparr>ul_delta_max := v\<rparr>))
      else Inr u)"

definition get_delta_by_volume :: "lqs_underlying \<Rightarrow> lqs_leg \<Rightarrow> double" where
  "get_delta_by_volume u leg =
     (let m = ul_market_quotes u; spot_price = (eq_price (bq_buy m) + eq_price (bq_sell m)) / Fin 2 in
      case lg_contract_style leg of
        LINEAR \<Rightarrow> lg_delta_by_volume leg * spot_price
      | _ \<Rightarrow> lg_delta_by_volume leg)"

text \<open>
  \<open>std::remove_if\<close> without \<open>erase\<close>: the elements that stay are moved to the front, the vector
  keeps its length, and what stands behind them is the old contents.
\<close>

definition remove_if_vector :: "('a \<Rightarrow> bool) \<Rightarrow> 'a list \<Rightarrow> 'a list" where
  "remove_if_vector P xs = (let ys = filter (\<lambda>x. \<not> P x) xs in ys @ drop (length ys) xs)"

definition remove_leg :: "market \<Rightarrow> lqs_underlying \<Rightarrow> lqs_underlying" where
  "remove_leg leg u = u\<lparr>ul_legs := remove_if_vector (\<lambda>l. fst l = m_market leg \<and> snd l = m_account leg) (ul_legs u)\<rparr>"

definition add_leg :: "market \<Rightarrow> lqs_underlying \<Rightarrow> lqs_underlying" where
  "add_leg key u = u\<lparr>ul_legs := ul_legs u @ [(m_market key, m_account key)]\<rparr>"


section \<open>A strategy\<close>

text \<open>\<open>get_leg\<close>: \<open>leg_by_market_by_account[key.account]\<close> inserts an account it does not know.\<close>

definition lqs_get_leg :: "layout \<Rightarrow> leg_key \<Rightarrow> lqs_strategy \<Rightarrow> lqs_leg option \<times> lqs_strategy" where
  "lqs_get_leg L key st =
     (let by_market = hget_or (ls_legs st) (fst key) [] in
      (hfind by_market (snd key), st\<lparr>ls_legs := hput L (fst key) by_market (ls_legs st)\<rparr>))"

definition put_leg :: "layout \<Rightarrow> leg_key \<Rightarrow> lqs_leg \<Rightarrow> lqs_strategy \<Rightarrow> lqs_strategy" where
  "put_leg L key leg st = st\<lparr>ls_legs := hput2 L key leg (ls_legs st)\<rparr>"

definition put_underlying :: "ident \<Rightarrow> lqs_underlying \<Rightarrow> lqs_strategy \<Rightarrow> lqs_strategy" where
  "put_underlying i u st = st\<lparr>ls_underlyings := hset i u (ls_underlyings st)\<rparr>"

definition emplace_underlying ::
  "layout \<Rightarrow> market \<Rightarrow> ('g, 'z) core_scheme \<Rightarrow> lqs_strategy \<Rightarrow>
     (ident \<times> lqs_underlying \<times> ('g, 'z) core_scheme \<times> lqs_strategy) res" where
  "emplace_underlying L key c st =
     rbind (emplace_market L key (c_markets c)) (\<lambda>(info, _, ms).
       let i = info_market info; c1 = c\<lparr>c_markets := ms\<rparr>;
           new = default_underlying\<lparr>ul_market := info_to_market info, ul_delta := Fin 0\<rparr> in
       case hfind (ls_underlyings st) i of
         Some u \<Rightarrow> Inr (i, u, c1, st)
       | None \<Rightarrow> Inr (i, new, c1, st\<lparr>ls_underlyings := hput L i new (ls_underlyings st)\<rparr>))"

definition emplace_leg ::
  "layout \<Rightarrow> market \<Rightarrow> ('g, 'z) core_scheme \<Rightarrow> lqs_strategy \<Rightarrow>
     (leg_key \<times> lqs_leg \<times> bool \<times> ('g, 'z) core_scheme \<times> lqs_strategy) res" where
  "emplace_leg L key c st =
     ensure (m_account key \<noteq> [])
       (rbind (emplace_market L key (c_markets c)) (\<lambda>(info, _, ms).
         let k = (m_account key, info_market info); c1 = c\<lparr>c_markets := ms\<rparr>;
             new = default_leg\<lparr>lg_market := no_market\<lparr>m_market := info_market info, m_symbol := info_symbol info,
                                                      m_exchange := info_exchange info\<rparr>,
                               lg_underlying := - 1, lg_account := m_account key\<rparr>;
             old = hfind2 (ls_legs st) k;
             leg = (case old of None \<Rightarrow> new | Some l \<Rightarrow> l)\<lparr>lg_tick_size := info_tick_size info\<rparr> in
         Inr (k, leg, old = None, c1, put_leg L k leg st)))"

text \<open>\<open>Underlying::compute\<close> through \<open>Strategy::get_legs(underlying, fn)\<close>.\<close>

definition underlying_compute :: "layout \<Rightarrow> lqs_underlying \<Rightarrow> lqs_strategy \<Rightarrow> lqs_underlying \<times> lqs_strategy" where
  "underlying_compute L u st =
     (let (d, st1) =
        fold (\<lambda>(m, a) (d, st).
            let (leg, st1) = lqs_get_leg L (a, m) st in
            case leg of
              None \<Rightarrow> (d, st1)
            | Some leg \<Rightarrow>
                (d + (eq_volume (bq_buy (lg_position leg)) - eq_volume (bq_sell (lg_position leg))) *
                       get_delta_by_volume u leg, st1))
          (ul_legs u) (Fin 0, st) in
      (u\<lparr>ul_delta := d\<rparr>, st1))"

text \<open>\<open>Pricer::dispatch\<close>, called when a leg has been computed.\<close>

definition leg_target_quotes :: "lqs_leg \<Rightarrow> lqs_strategy \<Rightarrow> quotes" where
  "leg_target_quotes leg st =
     \<lparr>qs_market = m_market (lg_market leg), qs_symbol = m_symbol (lg_market leg),
      qs_exchange = m_exchange (lg_market leg), qs_account = lg_account leg,
      qs_portfolio = ls_portfolio st, qs_strategy = ls_strategy st,
      qs_buy = [bq_buy (lg_exec_quotes leg)], qs_sell = [bq_sell (lg_exec_quotes leg)]\<rparr>"

definition lqs_dispatch :: "(quotes \<Rightarrow> 'w \<Rightarrow> 'w res) \<Rightarrow> lqs_leg \<Rightarrow> lqs_strategy \<Rightarrow> 'w \<Rightarrow> 'w res" where
  "lqs_dispatch D leg st w =
     (if lg_account leg = [] then Inr w
      else if exec_quote_empty (bq_buy (lg_exec_quotes leg)) \<and> exec_quote_empty (bq_sell (lg_exec_quotes leg)) then Inr w
      else D (leg_target_quotes leg st) w)"

definition compute_leg ::
  "layout \<Rightarrow> (quotes \<Rightarrow> 'w \<Rightarrow> 'w res) \<Rightarrow> lqs_underlying option \<Rightarrow> leg_key \<Rightarrow> lqs_leg \<Rightarrow>
     lqs_strategy \<times> 'w \<Rightarrow> (lqs_strategy \<times> 'w) res" where
  "compute_leg L D uo key leg = (\<lambda>(st, w).
     rbind (leg_compute (ls_enabled st) uo leg) (\<lambda>leg1.
       let st1 = put_leg L key leg1 st in
       rbind (lqs_dispatch D leg1 st1 w) (\<lambda>w1. Inr (st1, w1))))"

text \<open>\<open>Strategy::compute\<close>; without an underlying the leg is computed on its own.\<close>

definition compute_strategy ::
  "layout \<Rightarrow> (quotes \<Rightarrow> 'w \<Rightarrow> 'w res) \<Rightarrow> leg_key \<Rightarrow> lqs_strategy \<times> 'w \<Rightarrow> (lqs_strategy \<times> 'w) res" where
  "compute_strategy L D key = (\<lambda>(st, w).
     case hfind2 (ls_legs st) key of
       None \<Rightarrow> Inl Undefined_Behaviour
     | Some this_leg \<Rightarrow>
         (let i = lg_underlying this_leg in
          case (if i = 0 then None else hfind (ls_underlyings st) i) of
            None \<Rightarrow> compute_leg L D None key this_leg (st, w)
          | Some u \<Rightarrow>
              (let (u1, st1) = underlying_compute L u st in
               rfold (\<lambda>(m, a) (st, w).
                   let (leg, st1) = lqs_get_leg L (a, m) st in
                   case leg of
                     None \<Rightarrow> Inr (st1, w)
                   | Some leg \<Rightarrow> compute_leg L D (Some u1) (a, m) leg (st1, w))
                 (ul_legs u1) (put_underlying i u1 st1, w))))"

text \<open>\<open>get_legs(fn)\<close>: all legs in the order of the containers.\<close>

definition for_legs ::
  "(leg_key \<Rightarrow> lqs_strategy \<times> 'w \<Rightarrow> (lqs_strategy \<times> 'w) res) \<Rightarrow> lqs_strategy \<times> 'w \<Rightarrow> (lqs_strategy \<times> 'w) res" where
  "for_legs f = (\<lambda>(st, w). rfold f (map fst (hentries2 (ls_legs st))) (st, w))"

definition update_leg ::
  "layout \<Rightarrow> (quotes \<Rightarrow> 'w \<Rightarrow> 'w res) \<Rightarrow> (lqs_leg \<Rightarrow> lqs_leg res) \<Rightarrow> leg_key \<Rightarrow>
     lqs_strategy \<times> 'w \<Rightarrow> (lqs_strategy \<times> 'w) res" where
  "update_leg L D f key = (\<lambda>(st, w).
     case hfind2 (ls_legs st) key of
       None \<Rightarrow> Inl Undefined_Behaviour
     | Some leg \<Rightarrow> rbind (f leg) (\<lambda>leg1. compute_strategy L D key (put_leg L key leg1 st, w)))"

definition parameter_market :: "parameter \<Rightarrow> market" where
  "parameter_market p =
     \<lparr>m_market = 0, m_symbol = par_symbol p, m_exchange = par_exchange p, m_account = par_account p,
      m_strategy_id = par_strategy_id p\<rparr>"

text \<open>The parameter \<open>underlying\<close>: a leg is moved to an underlying.\<close>

definition link_underlying ::
  "layout \<Rightarrow> parameter \<Rightarrow> lqs_strategy \<times> ('g, 'z) core_scheme \<Rightarrow> (lqs_strategy \<times> ('g, 'z) core_scheme) res" where
  "link_underlying L p = (\<lambda>(st, c).
     rbind (emplace_leg L (parameter_market p) c st) (\<lambda>(k, leg, _, c1, st1).
     let (exchange, symbol) = split_prefix (par_value p) (CHR '':'') in
     rbind (emplace_underlying L
              \<lparr>m_market = 0, m_symbol = symbol, m_exchange = exchange, m_account = [],
               m_strategy_id = par_strategy_id p\<rparr> c1 st1) (\<lambda>(i, _, c2, st2).
       let st3 = (if lg_underlying leg \<noteq> 0 then
                    (case hfind (ls_underlyings st2) (lg_underlying leg) of
                       None \<Rightarrow> st2
                     | Some prev \<Rightarrow> put_underlying (lg_underlying leg) (remove_leg (lg_market leg) prev) st2)
                  else st2) in
       case hfind (ls_underlyings st3) i of
         None \<Rightarrow> Inl Undefined_Behaviour
       | Some u \<Rightarrow>
           (let st4 = put_leg L k (leg\<lparr>lg_underlying := m_market (ul_market u)\<rparr>) st3;
                key = (parameter_market p)\<lparr>m_market := m_market (lg_market leg)\<rparr> in
            Inr (put_underlying i (add_leg key u) st4, c2)))))"

definition strategy_parameter ::
  "layout \<Rightarrow> (quotes \<Rightarrow> ('g, 'z) core_scheme \<times> 'o \<Rightarrow> (('g, 'z) core_scheme \<times> 'o) res) \<Rightarrow> parameter \<Rightarrow> string \<Rightarrow>
     lqs_strategy \<times> ('g, 'z) core_scheme \<times> 'o \<Rightarrow> (lqs_strategy \<times> ('g, 'z) core_scheme \<times> 'o) res" where
  "strategy_parameter L D p label = (\<lambda>(st, c, s).
     let (prefix, sublabel) = split_prefix label (CHR '':'') in
     if label = ''underlying'' then
       rbind (link_underlying L p (st, c)) (\<lambda>(st1, c1). Inr (st1, c1, s))
     else if label = ''enabled'' then Inr (st\<lparr>ls_enabled := (par_value p = ''true'')\<rparr>, c, s)
     else if prefix = ''underlying'' then
       rbind (emplace_underlying L (parameter_market p) c st) (\<lambda>(i, u, c1, st1).
         rbind (underlying_parameter p sublabel u) (\<lambda>u1. Inr (put_underlying i u1 st1, c1, s)))
     else if par_symbol p \<noteq> [] \<and> par_exchange p \<noteq> [] then
       rbind (emplace_leg L (parameter_market p) c st) (\<lambda>(k, _, _, c1, st1).
         update_leg L D (leg_parameter p label) k (st1, c1, s))
     else for_legs (update_leg L D (leg_parameter p label)) (st, c, s))"

text \<open>
  \<open>ReferenceData\<close>: the key is made from the market's \<open>Info\<close>, so the account is the one of the
  \<open>Info\<close>.
\<close>

definition strategy_reference_data ::
  "layout \<Rightarrow> string \<Rightarrow> string \<Rightarrow> ('g, 'z) core_scheme \<Rightarrow> lqs_strategy \<Rightarrow> lqs_strategy res" where
  "strategy_reference_data L symbol exchange c st =
     (case get_market_by_key (no_market\<lparr>m_symbol := symbol, m_exchange := exchange\<rparr>) (c_markets c) of
        None \<Rightarrow> Inr st
      | Some info \<Rightarrow>
          ensure (info_market info \<noteq> 0)
            (let k = (info_account info, info_market info); (leg, st1) = lqs_get_leg L k st in
             Inr (case leg of
                    None \<Rightarrow> st1
                  | Some leg \<Rightarrow> put_leg L k (leg\<lparr>lg_tick_size := info_tick_size info\<rparr>) st1)))"

definition strategy_quotes ::
  "layout \<Rightarrow> (quotes \<Rightarrow> ('g, 'z) core_scheme \<times> 'o \<Rightarrow> (('g, 'z) core_scheme \<times> 'o) res) \<Rightarrow> quotes \<Rightarrow>
     lqs_strategy \<times> ('g, 'z) core_scheme \<times> 'o \<Rightarrow> (lqs_strategy \<times> ('g, 'z) core_scheme \<times> 'o) res" where
  "strategy_quotes L D u = (\<lambda>(st, w).
     rbind
       (rfold (\<lambda>account (st, c, s).
            let k = (account, qs_market u); (leg, st1) = lqs_get_leg L k st in
            case leg of
              None \<Rightarrow> Inr (st1, c, s)
            | Some leg \<Rightarrow>
                (let leg1 = (case bq_get_quotes (qs_market u) (c_best_quotes c) of
                               None \<Rightarrow> leg | Some q \<Rightarrow> leg\<lparr>lg_market_quotes := q\<rparr>) in
                 compute_strategy L D k (put_leg L k leg1 st1, c, s)))
          (hkeys (ls_legs st)) (st, w))
       (\<lambda>(st1, c1, s1).
         ensure (qs_market u \<noteq> 0)
           (Inr (case hfind (ls_underlyings st1) (qs_market u) of
                   None \<Rightarrow> (st1, c1, s1)
                 | Some ul \<Rightarrow>
                     (case bq_get_quotes (qs_market u) (c_best_quotes c1) of
                        None \<Rightarrow> (st1, c1, s1)
                      | Some q \<Rightarrow> (put_underlying (qs_market u) (ul\<lparr>ul_market_quotes := q\<rparr>) st1, c1, s1))))))"

definition strategy_exposure ::
  "layout \<Rightarrow> (quotes \<Rightarrow> ('g, 'z) core_scheme \<times> 'o \<Rightarrow> (('g, 'z) core_scheme \<times> 'o) res) \<Rightarrow> exposure \<Rightarrow>
     lqs_strategy \<times> ('g, 'z) core_scheme \<times> 'o \<Rightarrow> (lqs_strategy \<times> ('g, 'z) core_scheme \<times> 'o) res" where
  "strategy_exposure L D e = (\<lambda>(st, c, s).
     rbind (emplace_leg L
              \<lparr>m_market = e_market e, m_symbol = e_symbol e, m_exchange = e_exchange e,
               m_account = e_account e, m_strategy_id = 0\<rparr> c st) (\<lambda>(k, leg, is_new, c1, st1).
       let leg1 = (if is_new then leg\<lparr>lg_account := e_account e\<rparr> else leg) in
       compute_strategy L D k (put_leg L k (leg_exposure e leg1) st1, c1, s)))"

definition strategy_download_end ::
  "layout \<Rightarrow> (quotes \<Rightarrow> ('g, 'z) core_scheme \<times> 'o \<Rightarrow> (('g, 'z) core_scheme \<times> 'o) res) \<Rightarrow> string \<Rightarrow>
     lqs_strategy \<times> ('g, 'z) core_scheme \<times> 'o \<Rightarrow> (lqs_strategy \<times> ('g, 'z) core_scheme \<times> 'o) res" where
  "strategy_download_end L D account r =
     (if account \<noteq> [] then Inr r
      else
        for_legs (\<lambda>k (st, c, s).
          case hfind2 (ls_legs st) k of
            None \<Rightarrow> Inl Undefined_Behaviour
          | Some leg \<Rightarrow>
              rbind (emplace_market L (lg_market leg) (c_markets c)) (\<lambda>(info, _, ms).
                compute_strategy L D k
                  (put_leg L k (leg\<lparr>lg_tick_size := info_tick_size info\<rparr>) st, c\<lparr>c_markets := ms\<rparr>, s))) r)"


section \<open>The pricer\<close>

definition emplace_strategy :: "layout \<Rightarrow> ident \<Rightarrow> lqs_pricer \<Rightarrow> lqs_strategy \<times> lqs_pricer" where
  "emplace_strategy L i ps =
     (let st = hget_or ps i default_strategy; st1 = st\<lparr>ls_strategy := i, ls_portfolio := i\<rparr> in
      (st1, hput L i st1 ps))"

definition with_strategy ::
  "(lqs_strategy \<times> 'w \<Rightarrow> (lqs_strategy \<times> 'w) res) \<Rightarrow> ident \<Rightarrow> lqs_pricer \<times> 'w \<Rightarrow> (lqs_pricer \<times> 'w) res" where
  "with_strategy f i = (\<lambda>(ps, w).
     case hfind ps i of
       None \<Rightarrow> Inr (ps, w)
     | Some st \<Rightarrow> rbind (f (st, w)) (\<lambda>(st1, w1). Inr (hset i st1 ps, w1)))"

definition for_strategies ::
  "(lqs_strategy \<times> 'w \<Rightarrow> (lqs_strategy \<times> 'w) res) \<Rightarrow> lqs_pricer \<times> 'w \<Rightarrow> (lqs_pricer \<times> 'w) res" where
  "for_strategies f = (\<lambda>(ps, w). rfold (with_strategy f) (hkeys ps) (ps, w))"

definition lqs_on_parameters ::
  "layout \<Rightarrow> (quotes \<Rightarrow> ('g, 'z) core_scheme \<times> 'o \<Rightarrow> (('g, 'z) core_scheme \<times> 'o) res) \<Rightarrow> parameter list \<Rightarrow>
     lqs_pricer \<times> ('g, 'z) core_scheme \<times> 'o \<Rightarrow> (lqs_pricer \<times> ('g, 'z) core_scheme \<times> 'o) res" where
  "lqs_on_parameters L D =
     rfold (\<lambda>p (ps, w).
       let (prefix, label) = split_prefix (par_label p) (CHR '':'') in
       if prefix \<noteq> ''lqs'' then Inr (ps, w)
       else if par_strategy_id p \<noteq> 0 then
         (let (_, ps1) = emplace_strategy L (par_strategy_id p) ps in
          with_strategy (strategy_parameter L D p label) (par_strategy_id p) (ps1, w))
       else for_strategies (strategy_parameter L D p label) (ps, w))"

definition lqs_on_reference_data ::
  "layout \<Rightarrow> string \<Rightarrow> string \<Rightarrow> lqs_pricer \<times> ('g, 'z) core_scheme \<times> 'o \<Rightarrow>
     (lqs_pricer \<times> ('g, 'z) core_scheme \<times> 'o) res" where
  "lqs_on_reference_data L symbol exchange =
     for_strategies (\<lambda>(st, c, s).
       rbind (strategy_reference_data L symbol exchange c st) (\<lambda>st1. Inr (st1, c, s)))"

definition lqs_on_exposure_update ::
  "layout \<Rightarrow> (quotes \<Rightarrow> ('g, 'z) core_scheme \<times> 'o \<Rightarrow> (('g, 'z) core_scheme \<times> 'o) res) \<Rightarrow> exposure_update \<Rightarrow>
     lqs_pricer \<times> ('g, 'z) core_scheme \<times> 'o \<Rightarrow> (lqs_pricer \<times> ('g, 'z) core_scheme \<times> 'o) res" where
  "lqs_on_exposure_update L D u =
     with_strategy (rfold (strategy_exposure L D) (eu_exposure u)) (eu_portfolio u)"

definition lqs_on_quotes ::
  "layout \<Rightarrow> (quotes \<Rightarrow> ('g, 'z) core_scheme \<times> 'o \<Rightarrow> (('g, 'z) core_scheme \<times> 'o) res) \<Rightarrow> quotes \<Rightarrow>
     lqs_pricer \<times> ('g, 'z) core_scheme \<times> 'o \<Rightarrow> (lqs_pricer \<times> ('g, 'z) core_scheme \<times> 'o) res" where
  "lqs_on_quotes L D u = for_strategies (strategy_quotes L D u)"

definition lqs_on_download_begin :: "lqs_pricer \<times> 'w \<Rightarrow> (lqs_pricer \<times> 'w) res" where
  "lqs_on_download_begin = for_strategies Inr"

definition lqs_on_download_end ::
  "layout \<Rightarrow> (quotes \<Rightarrow> ('g, 'z) core_scheme \<times> 'o \<Rightarrow> (('g, 'z) core_scheme \<times> 'o) res) \<Rightarrow> string \<Rightarrow>
     lqs_pricer \<times> ('g, 'z) core_scheme \<times> 'o \<Rightarrow> (lqs_pricer \<times> ('g, 'z) core_scheme \<times> 'o) res" where
  "lqs_on_download_end L D account = for_strategies (strategy_download_end L D account)"

end
