(* ===== verification/Lqs_Legs.thy ===== *)
theory Lqs_Legs
  imports Lqs
begin

text \<open>
  What the computation of a leg promises: bounds on the volumes it quotes, quotes on one side only,
  the price of each execution mode, and nothing at all while the strategy is disabled.
\<close>

section \<open>Volumes\<close>

definition leg_exposure_value :: "lqs_leg \<Rightarrow> double" where
  "leg_exposure_value leg =
     eq_volume (bq_buy (lg_position leg)) - eq_volume (bq_sell (lg_position leg)) - lg_target_position leg"

definition buy_volume_of :: "lqs_leg \<Rightarrow> double" where
  "buy_volume_of leg = eq_volume (bq_buy (lg_exec_quotes leg))"

definition sell_volume_of :: "lqs_leg \<Rightarrow> double" where
  "sell_volume_of leg = eq_volume (bq_sell (lg_exec_quotes leg))"

lemma eq_volume_set_quote [simp]: "eq_volume (set_quote v p q) = v"
  by (simp add: set_quote_def Let_def)

lemma leg_volumes_eq:
  "leg_volumes leg =
     (double_min (lg_buy_volume leg) (double_max (- leg_exposure_value leg) (Fin 0)),
      double_min (lg_sell_volume leg) (double_max (leg_exposure_value leg) (Fin 0)))"
  by (simp add: leg_volumes_def leg_exposure_value_def Let_def)

lemma leg_compute_cases:
  assumes run: "leg_compute enabled uo leg = Inr leg'"
  obtains (cleared) "\<not> enabled \<or> \<not> check_market_quotes leg" "leg' = leg\<lparr>lg_exec_quotes := no_best_quotes\<rparr>"
  | (quoted) buy sell buy_price sell_price where "enabled" "check_market_quotes leg"
      "limit_volumes uo leg (leg_volumes leg) = (buy, sell)" "leg_prices leg = Inr (buy_price, sell_price)"
      "leg' = leg\<lparr>lg_exec_quotes := (lg_exec_quotes leg)
          \<lparr>bq_buy := set_quote buy buy_price (bq_buy (lg_exec_quotes leg)),
           bq_sell := set_quote sell sell_price (bq_sell (lg_exec_quotes leg))\<rparr>\<rparr>"
proof (cases "enabled \<and> check_market_quotes leg")
  case False
  with run cleared show ?thesis by (auto simp: leg_compute_def split: if_splits)
next
  case True
  obtain buy sell where v: "limit_volumes uo leg (leg_volumes leg) = (buy, sell)" by fastforce
  with True run obtain pr where "leg_prices leg = Inr pr" by (auto simp: leg_compute_def res_simps Let_def)
  with True run v quoted show ?thesis by (cases pr) (auto simp: leg_compute_def Let_def)
qed

text \<open>
  C14: a quoted leg never offers to trade more, beyond the tolerance of the comparison, than its
  configured volume, than its distance to the target position, and, under an underlying, than the
  room left in the range of the delta allows.
\<close>

theorem leg_volume_bounds:
  assumes "leg_compute enabled uo leg = Inr leg'" and "enabled" "check_market_quotes leg"
  shows "double_compare (buy_volume_of leg') (lg_buy_volume leg) \<le> 0 \<and>
    double_compare (buy_volume_of leg') (double_max (- leg_exposure_value leg) (Fin 0)) \<le> 0 \<and>
    double_compare (sell_volume_of leg') (lg_sell_volume leg) \<le> 0 \<and>
    double_compare (sell_volume_of leg') (double_max (leg_exposure_value leg) (Fin 0)) \<le> 0 \<and>
    (case uo of None \<Rightarrow> True
     | Some u \<Rightarrow>
         double_compare (buy_volume_of leg')
           (double_max (ul_delta_max u - ul_delta u) (Fin 0) / lg_delta_by_volume leg) \<le> 0 \<and>
         double_compare (sell_volume_of leg')
           (double_max (ul_delta u - ul_delta_min u) (Fin 0) / lg_delta_by_volume leg) \<le> 0)"
  using assms(1)
proof (cases rule: leg_compute_cases)
  case cleared
  with assms(2,3) show ?thesis by simp
next
  case (quoted buy sell buy_price sell_price)
  then show ?thesis
    by (cases uo) (auto simp: limit_volumes_def leg_volumes_eq buy_volume_of_def sell_volume_of_def Let_def
        intro: double_min_le double_min_le_trans)
qed

text \<open>
  C15: after every computation at most one side of a leg has a positive volume: a position is moved
  towards its target, never quoted on both sides.
\<close>

theorem leg_quotes_one_side:
  assumes "leg_compute enabled uo leg = Inr leg'"
  shows "\<not> (dgt (buy_volume_of leg') (Fin 0) \<and> dgt (sell_volume_of leg') (Fin 0))"
  using assms
proof (cases rule: leg_compute_cases)
  case cleared
  then show ?thesis
    by (simp add: buy_volume_of_def sell_volume_of_def no_best_quotes_def no_exec_quote_def dgt_def double_compare_nan)
next
  case (quoted buy sell buy_price sell_price)
  let ?e = "leg_exposure_value leg"
  have v: "below buy (fst (leg_volumes leg))" "below sell (snd (leg_volumes leg))"
    using quoted(3) by (cases uo; auto simp: limit_volumes_def Let_def double_min_below split: prod.splits)+
  have "double_compare (fst (leg_volumes leg)) (Fin 0) \<le> 0 \<or> double_compare (snd (leg_volumes leg)) (Fin 0) \<le> 0"
    using max_neg_below_zero [of ?e] by (auto simp: leg_volumes_eq intro: double_min_le_below)
  with double_compare_mono [OF v(1), of "Fin 0"] double_compare_mono [OF v(2), of "Fin 0"]
  have "double_compare buy (Fin 0) \<le> 0 \<or> double_compare sell (Fin 0) \<le> 0" by linarith
  then show ?thesis by (auto simp: quoted(5) buy_volume_of_def sell_volume_of_def dgt_def)
qed

end
