(* ===== verification/Lqs_Wf.thy ===== *)
theory Lqs_Wf
  imports Lqs_Legs
begin

text \<open>
  The well-formedness of the strategies of the pricer: legs carry the account and market they are
  stored under, underlyings list legs that exist.  Every handler keeps it, and asks of the
  dispatcher only what the locale \<open>quote_sink\<close> states: that it keeps an invariant of the core and
  of what lies behind it.
\<close>

section \<open>Well-formed strategies\<close>

definition leg_ok :: "leg_key \<Rightarrow> lqs_leg \<Rightarrow> bool" where
  "leg_ok k leg \<longleftrightarrow> fst k \<noteq> [] \<and> lg_account leg = fst k \<and> m_market (lg_market leg) = snd k \<and> m_account (lg_market leg) = []"

definition underlying_ok :: "lqs_strategy \<Rightarrow> ident \<Rightarrow> lqs_underlying \<Rightarrow> bool" where
  "underlying_ok st i u \<longleftrightarrow>
     m_market (ul_market u) = i \<and> (\<forall>(m, a) \<in> set (ul_legs u). hfind2 (ls_legs st) (a, m) \<noteq> None)"

definition strategy_wf :: "lqs_strategy \<Rightarrow> bool" where
  "strategy_wf st \<longleftrightarrow>
     hwf2 (ls_legs st) \<and> hwf (ls_underlyings st) \<and>
     (\<forall>k leg. hfind2 (ls_legs st) k = Some leg \<longrightarrow> leg_ok k leg) \<and>
     (\<forall>i u. hfind (ls_underlyings st) i = Some u \<longrightarrow> underlying_ok st i u)"

lemma strategy_wfD:
  assumes "strategy_wf st"
  shows "hwf2 (ls_legs st)" "hwf (ls_underlyings st)"
    "hfind2 (ls_legs st) k = Some leg \<Longrightarrow> leg_ok k leg"
    "hfind (ls_underlyings st) i = Some u \<Longrightarrow> underlying_ok st i u"
  using assms unfolding strategy_wf_def by blast+

text \<open>Steps of a strategy: its identity stays, legs and underlyings are added, never removed.\<close>

definition strategy_step :: "lqs_strategy \<Rightarrow> lqs_strategy \<Rightarrow> bool" where
  "strategy_step st st' \<longleftrightarrow>
     strategy_wf st' \<and> ls_strategy st' = ls_strategy st \<and> ls_portfolio st' = ls_portfolio st \<and>
     (\<forall>k. hfind2 (ls_legs st) k \<noteq> None \<longrightarrow> hfind2 (ls_legs st') k \<noteq> None) \<and>
     (\<forall>i u. hfind (ls_underlyings st) i = Some u \<longrightarrow>
        (\<exists>u' extra. hfind (ls_underlyings st') i = Some u' \<and> ul_legs u' = ul_legs u @ extra))"

lemma strategy_step_refl: "strategy_wf st \<Longrightarrow> strategy_step st st"
  by (simp add: strategy_step_def)

lemma strategy_step_wf: "strategy_step st st' \<Longrightarrow> strategy_wf st'"
  by (simp add: strategy_step_def)

lemma strategy_step_trans:
  assumes "strategy_step a b" "strategy_step b c"
  shows "strategy_step a c"
proof -
  have "\<exists>u' extra. hfind (ls_underlyings c) i = Some u' \<and> ul_legs u' = ul_legs u @ extra"
    if "hfind (ls_underlyings a) i = Some u" for i u
  proof -
    from assms(1) that obtain v m1 where "hfind (ls_underlyings b) i = Some v" "ul_legs v = ul_legs u @ m1"
      unfolding strategy_step_def by blast
    moreover from this(1) assms(2) obtain w m2 where "hfind (ls_underlyings c) i = Some w" "ul_legs w = ul_legs v @ m2"
      unfolding strategy_step_def by blast
    ultimately show ?thesis by auto
  qed
  with assms show ?thesis unfolding strategy_step_def by metis
qed

lemma underlying_ok_mono:
  assumes "underlying_ok st i u" "\<And>k. hfind2 (ls_legs st) k \<noteq> None \<Longrightarrow> hfind2 (ls_legs st') k \<noteq> None"
  shows "underlying_ok st' i u"
  using assms unfolding underlying_ok_def by fast

lemma put_leg_step:
  assumes wf: "strategy_wf st" and ok: "leg_ok k leg"
  shows "strategy_step st (put_leg L k leg st)"
    "hfind2 (ls_legs (put_leg L k leg st)) = (hfind2 (ls_legs st))(k \<mapsto> leg)"
proof -
  show f: "hfind2 (ls_legs (put_leg L k leg st)) = (hfind2 (ls_legs st))(k \<mapsto> leg)"
    by (simp add: put_leg_def hd2.pair.find_put [OF strategy_wfD(1) [OF wf]])
  have "strategy_wf (put_leg L k leg st)"
    unfolding strategy_wf_def
  proof (intro conjI allI impI)
    show "hwf2 (ls_legs (put_leg L k leg st))" "hwf (ls_underlyings (put_leg L k leg st))"
      using strategy_wfD(1,2) [OF wf] by (simp_all add: put_leg_def hd2.pair.wf_put)
    show "leg_ok k' leg'" if "hfind2 (ls_legs (put_leg L k leg st)) k' = Some leg'" for k' leg'
      using that ok strategy_wfD(3) [OF wf] by (auto simp: f split: if_splits)
    show "underlying_ok (put_leg L k leg st) i u" if "hfind (ls_underlyings (put_leg L k leg st)) i = Some u" for i u
      by (rule underlying_ok_mono [of st]) (use that strategy_wfD(4) [OF wf] f in \<open>auto simp: put_leg_def\<close>)
  qed
  then show "strategy_step st (put_leg L k leg st)"
    using f by (simp add: strategy_step_def) (simp add: put_leg_def)
qed

lemma put_underlying_step:
  assumes wf: "strategy_wf st" and u0: "hfind (ls_underlyings st) i = Some u0"
    and ok: "underlying_ok st i u" and extra: "ul_legs u = ul_legs u0 @ extra"
  shows "strategy_step st (put_underlying i u st)"
    "hfind (ls_underlyings (put_underlying i u st)) = (hfind (ls_underlyings st))(i \<mapsto> u)"
proof -
  show f: "hfind (ls_underlyings (put_underlying i u st)) = (hfind (ls_underlyings st))(i \<mapsto> u)"
    by (simp add: put_underlying_def hfind_hset_Some [OF u0])
  have "strategy_wf (put_underlying i u st)"
    unfolding strategy_wf_def
  proof (intro conjI allI impI)
    show "hwf2 (ls_legs (put_underlying i u st))" "hwf (ls_underlyings (put_underlying i u st))"
      using strategy_wfD(1,2) [OF wf] by (simp_all add: put_underlying_def)
    show "leg_ok k leg" if "hfind2 (ls_legs (put_underlying i u st)) k = Some leg" for k leg
      using that strategy_wfD(3) [OF wf] by (simp add: put_underlying_def)
    show "underlying_ok (put_underlying i u st) j v" if "hfind (ls_underlyings (put_underlying i u st)) j = Some v" for j v
    proof (rule underlying_ok_mono [of st])
      show "underlying_ok st j v" using that ok strategy_wfD(4) [OF wf] unfolding f by (auto split: if_splits)
    qed (simp add: put_underlying_def)
  qed
  then show "strategy_step st (put_underlying i u st)"
    using u0 extra f by (simp add: strategy_step_def) (simp add: put_underlying_def)
qed

text \<open>A look-up of a leg.\<close>

lemma lqs_get_leg_step:
  assumes wf: "strategy_wf st" and run: "lqs_get_leg L k st = (leg, st')"
  shows "leg = hfind2 (ls_legs st) k" "hfind2 (ls_legs st') = hfind2 (ls_legs st)" "strategy_step st st'"
    "ls_underlyings st' = ls_underlyings st" "ls_enabled st' = ls_enabled st"
proof -
  let ?b = "hget_or (ls_legs st) (fst k) []"
  have w: "hwf (ls_legs st)" using strategy_wfD(1) [OF wf] by (simp add: hwf2_def)
  have st': "st' = st\<lparr>ls_legs := hput L (fst k) ?b (ls_legs st)\<rparr>" and leg: "leg = hfind ?b (snd k)"
    using run by (simp_all add: lqs_get_leg_def Let_def)
  show "leg = hfind2 (ls_legs st) k"
    by (auto simp: leg hfind2_def hget_or_def hd.find_empty split: option.splits)
  show f: "hfind2 (ls_legs st') = hfind2 (ls_legs st)"
    by (auto simp: st' fun_eq_iff hfind2_def hget_or_def hd.find_put [OF w] hd.find_empty split: option.splits)
  have "hwf2 (ls_legs st')"
    using strategy_wfD(1) [OF wf] unfolding hd2.wf2 st'
    by (auto simp: hd.wf_put hd.find_put hget_or_def hd.wf_empty split: option.splits if_splits)
  then have "strategy_wf st'"
    using wf f unfolding strategy_wf_def underlying_ok_def by (simp add: st')
  then show "strategy_step st st'" using f by (simp add: strategy_step_def) (simp add: st')
  show "ls_underlyings st' = ls_underlyings st" "ls_enabled st' = ls_enabled st" by (simp_all add: st')
qed


section \<open>What a handler of a strategy keeps\<close>

definition keeps :: "('w \<Rightarrow> bool) \<Rightarrow> (lqs_strategy \<times> 'w \<Rightarrow> (lqs_strategy \<times> 'w) res) \<Rightarrow> bool" where
  "keeps W f \<longleftrightarrow>
     (\<forall>st w st' w'. f (st, w) = Inr (st', w') \<longrightarrow> strategy_wf st \<longrightarrow> W w \<longrightarrow> strategy_step st st' \<and> W w')"

lemma keepsI:
  "(\<And>st w st' w'. f (st, w) = Inr (st', w') \<Longrightarrow> strategy_wf st \<Longrightarrow> W w \<Longrightarrow> strategy_step st st' \<and> W w') \<Longrightarrow> keeps W f"
  unfolding keeps_def by blast

lemma keepsD:
  "keeps W f \<Longrightarrow> f (st, w) = Inr (st', w') \<Longrightarrow> strategy_wf st \<Longrightarrow> W w \<Longrightarrow> strategy_step st st' \<and> W w'"
  unfolding keeps_def by blast

lemma keeps_after:
  assumes "keeps W f" "f (st1, w1) = Inr (st', w')" "strategy_step st st1" "W w1"
  shows "strategy_step st st' \<and> W w'"
  using keepsD [OF assms(1,2) strategy_step_wf [OF assms(3)] assms(4)] strategy_step_trans [OF assms(3)] by blast

lemma keeps_rfold:
  assumes "\<And>x. x \<in> set xs \<Longrightarrow> keeps W (f x)"
  shows "keeps W (rfold f xs)"
proof (rule keepsI)
  fix st w st' w'
  assume run: "rfold f xs (st, w) = Inr (st', w')" and wf: "strategy_wf st" "W w"
  have "strategy_step st (fst (st', w')) \<and> W (snd (st', w'))"
    using run
  proof (rule rfold_invariant [where I = "\<lambda>r. strategy_step st (fst r) \<and> W (snd r)"])
    show "strategy_step st (fst (st, w)) \<and> W (snd (st, w))" using wf by (simp add: strategy_step_refl)
  next
    fix x r r'
    assume "x \<in> set xs" "strategy_step st (fst r) \<and> W (snd r)" "f x r = Inr r'"
    then show "strategy_step st (fst r') \<and> W (snd r')"
      using keeps_after [OF assms, of x "fst r" "snd r" "fst r'" "snd r'" st] by simp
  qed
  then show "strategy_step st st' \<and> W w'" by simp
qed

lemma keeps_for_legs: "(\<And>k. keeps W (f k)) \<Longrightarrow> keeps W (for_legs f)"
proof (rule keepsI)
  fix st w st' w'
  assume "\<And>k. keeps W (f k)" "for_legs f (st, w) = Inr (st', w')" "strategy_wf st" "W w"
  then show "strategy_step st st' \<and> W w'"
    using keepsD [OF keeps_rfold [of "map fst (hentries2 (ls_legs st))" W f]] by (simp add: for_legs_def)
qed

lemma leg_compute_keeps: "leg_compute e uo leg = Inr leg' \<Longrightarrow> leg_ok k leg \<Longrightarrow> leg_ok k leg'"
  by (auto elim!: leg_compute_cases simp: leg_ok_def)

lemma leg_parameter_keeps: "leg_parameter p label leg = Inr leg' \<Longrightarrow> leg_ok k leg \<Longrightarrow> leg_ok k leg'"
  by (auto simp: leg_parameter_def leg_ok_def res_simps split: if_splits)

lemma leg_exposure_keeps: "leg_ok k leg \<Longrightarrow> leg_ok k (leg_exposure e leg)"
  by (simp add: leg_ok_def leg_exposure_def)

text \<open>The delta of an underlying.\<close>

definition delta_term :: "lqs_underlying \<Rightarrow> lqs_leg \<Rightarrow> double" where
  "delta_term u leg =
     (eq_volume (bq_buy (lg_position leg)) - eq_volume (bq_sell (lg_position leg))) * get_delta_by_volume u leg"

definition linked_legs :: "lqs_underlying \<Rightarrow> lqs_strategy \<Rightarrow> lqs_leg list" where
  "linked_legs u st = List.map_filter (\<lambda>(m, a). hfind2 (ls_legs st) (a, m)) (ul_legs u)"

lemma underlying_compute_step:
  assumes wf: "strategy_wf st" and run: "underlying_compute L u st = (u', st')"
  shows "u' = u\<lparr>ul_delta := foldl (\<lambda>d leg. d + delta_term u leg) (Fin 0) (linked_legs u st)\<rparr>"
    "strategy_step st st'" "hfind2 (ls_legs st') = hfind2 (ls_legs st)"
    "ls_underlyings st' = ls_underlyings st" "ls_enabled st' = ls_enabled st"
proof -
  let ?f = "\<lambda>(m, a) (d, st). let (leg, st1) = lqs_get_leg L (a, m) st in
            case leg of None \<Rightarrow> (d, st1)
            | Some leg \<Rightarrow>
                (d + (eq_volume (bq_buy (lg_position leg)) - eq_volume (bq_sell (lg_position leg))) *
                       get_delta_by_volume u leg, st1)"
  have "fst (fold ?f xs (d, st0)) =
      foldl (\<lambda>d leg. d + delta_term u leg) d (List.map_filter (\<lambda>(m, a). hfind2 (ls_legs st) (a, m)) xs) \<and>
      (let st' = snd (fold ?f xs (d, st0)) in strategy_step st st' \<and> hfind2 (ls_legs st') = hfind2 (ls_legs st) \<and>
       ls_underlyings st' = ls_underlyings st \<and> ls_enabled st' = ls_enabled st)"
    if "strategy_step st st0" "hfind2 (ls_legs st0) = hfind2 (ls_legs st)"
      "ls_underlyings st0 = ls_underlyings st" "ls_enabled st0 = ls_enabled st" for xs d st0
    using that
  proof (induction xs arbitrary: d st0)
    case Nil
    then show ?case by (simp add: List.map_filter_simps Let_def)
  next
    case (Cons x xs)
    obtain m a where x: "x = (m, a)" by (cases x)
    obtain leg st1 where g: "lqs_get_leg L (a, m) st0 = (leg, st1)" by fastforce
    note s = lqs_get_leg_step [OF strategy_step_wf [OF Cons.prems(1)] g]
    have "strategy_step st st1" "hfind2 (ls_legs st1) = hfind2 (ls_legs st)"
      "ls_underlyings st1 = ls_underlyings st" "ls_enabled st1 = ls_enabled st"
      using Cons.prems s strategy_step_trans [OF Cons.prems(1) s(3)] by simp_all
    note ih = Cons.IH [OF this]
    have leg: "leg = hfind2 (ls_legs st) (a, m)" using s(1) Cons.prems(2) by simp
    show ?case
    proof (cases leg)
      case None
      then show ?thesis using ih [of d] leg by (simp add: x g List.map_filter_simps)
    next
      case (Some l)
      then show ?thesis using ih [of "d + delta_term u l"] leg by (simp add: x g List.map_filter_simps delta_term_def)
    qed
  qed
  from this [OF strategy_step_refl [OF wf] refl refl refl, of "ul_legs u" "Fin 0"] run
  show "u' = u\<lparr>ul_delta := foldl (\<lambda>d leg. d + delta_term u leg) (Fin 0) (linked_legs u st)\<rparr>"
    "strategy_step st st'" "hfind2 (ls_legs st') = hfind2 (ls_legs st)"
    "ls_underlyings st' = ls_underlyings st" "ls_enabled st' = ls_enabled st"
    unfolding underlying_compute_def linked_legs_def
    by (auto simp: Let_def case_prod_unfold)
qed

end
