(* ===== verification/Lqs_Sink.thy ===== *)
theory Lqs_Sink
  imports Lqs_Wf
begin

text \<open>
  The interface between the pricer and the dispatcher of its target quotes, and what every handler
  of the pricer keeps under it.
\<close>

section \<open>The interface\<close>

text \<open>
  \<open>W\<close> is an invariant of the core and of what lies behind the dispatcher.  The dispatcher keeps it
  for quotes that name an account; the pricer itself only adds markets to the core.
\<close>

locale quote_sink =
  fixes L :: layout
    and D :: "quotes \<Rightarrow> ('g, 'z) core_scheme \<times> 'o \<Rightarrow> (('g, 'z) core_scheme \<times> 'o) res"
    and W :: "('g, 'z) core_scheme \<times> 'o \<Rightarrow> bool"
  assumes sink: "D q w = Inr w' \<Longrightarrow> qs_account q \<noteq> [] \<Longrightarrow> W w \<Longrightarrow> W w'"
    and emplace: "emplace_market L key (c_markets c) = Inr (info, new, ms) \<Longrightarrow> W (c, s) \<Longrightarrow> W (c\<lparr>c_markets := ms\<rparr>, s)"
begin

lemma dispatch_keeps: "lqs_dispatch D leg st w = Inr w' \<Longrightarrow> W w \<Longrightarrow> W w'"
  by (auto simp: lqs_dispatch_def leg_target_quotes_def split: if_splits dest: sink)

lemma compute_leg_step:
  assumes run: "compute_leg L D uo key leg (st, w) = Inr (st', w')"
    and wf: "strategy_wf st" "W w" and ok: "leg_ok key leg"
  shows "strategy_step st st' \<and> W w'"
proof -
  obtain leg1 where c: "leg_compute (ls_enabled st) uo leg = Inr leg1"
    and st': "st' = put_leg L key leg1 st" and d: "lqs_dispatch D leg1 st' w = Inr w'"
    using run by (auto simp: compute_leg_def res_simps Let_def)
  show ?thesis
    unfolding st' using put_leg_step(1) [OF wf(1) leg_compute_keeps [OF c ok]] dispatch_keeps [OF d wf(2)] by simp
qed

lemma compute_strategy_keeps: "keeps W (compute_strategy L D key)"
proof (rule keepsI)
  fix st w st' w'
  assume run: "compute_strategy L D key (st, w) = Inr (st', w')" and wf: "strategy_wf st" "W w"
  obtain leg where leg: "hfind2 (ls_legs st) key = Some leg"
    using run by (auto simp: compute_strategy_def split: option.splits)
  let ?i = "lg_underlying leg"
  show "strategy_step st st' \<and> W w'"
  proof (cases "if ?i = 0 then None else hfind (ls_underlyings st) ?i")
    case None
    with run leg have "compute_leg L D None key leg (st, w) = Inr (st', w')"
      by (simp add: compute_strategy_def)
    then show ?thesis by (rule compute_leg_step [OF _ wf strategy_wfD(3) [OF wf(1) leg]])
  next
    case (Some u)
    then have u: "hfind (ls_underlyings st) ?i = Some u" by (simp split: if_splits)
    obtain u1 st1 where uc: "underlying_compute L u st = (u1, st1)" by fastforce
    note s1 = underlying_compute_step [OF wf(1) uc]
    have u1: "ul_legs u1 = ul_legs u" "ul_market u1 = ul_market u" using s1(1) by simp_all
    have "hfind (ls_underlyings st1) ?i = Some u" using u s1(4) by simp
    from put_underlying_step(1) [OF strategy_step_wf [OF s1(2)] this, of u1 "[]"]
    have st2: "strategy_step st (put_underlying ?i u1 st1)"
      using u1 strategy_wfD(4) [OF wf(1) u] s1(3) strategy_step_trans [OF s1(2)]
      by (simp add: underlying_ok_def)
    from run leg Some uc have r: "rfold (\<lambda>(m, a) (st, w).
                   let (leg, st1) = lqs_get_leg L (a, m) st in
                   case leg of
                     None \<Rightarrow> Inr (st1, w)
                   | Some leg \<Rightarrow> compute_leg L D (Some u1) (a, m) leg (st1, w))
                 (ul_legs u1) (put_underlying ?i u1 st1, w) = Inr (st', w')"
      by (simp add: compute_strategy_def)
    have "keeps W (rfold (\<lambda>(m, a) (st, w).
                   let (leg, st1) = lqs_get_leg L (a, m) st in
                   case leg of
                     None \<Rightarrow> Inr (st1, w)
                   | Some leg \<Rightarrow> compute_leg L D (Some u1) (a, m) leg (st1, w)) (ul_legs u1))"
    proof (rule keeps_rfold)
      fix x :: "ident \<times> string"
      obtain m a where x: "x = (m, a)" by (cases x)
      show "keeps W (case x of (m, a) \<Rightarrow> \<lambda>(st, w).
                   let (leg, st1) = lqs_get_leg L (a, m) st in
                   case leg of
                     None \<Rightarrow> Inr (st1, w)
                   | Some leg \<Rightarrow> compute_leg L D (Some u1) (a, m) leg (st1, w))"
      proof (rule keepsI, unfold x prod.case)
        fix st w st' w'
        assume run: "(let (leg, st1) = lqs_get_leg L (a, m) st in
                   case leg of
                     None \<Rightarrow> Inr (st1, w)
                   | Some leg \<Rightarrow> compute_leg L D (Some u1) (a, m) leg (st1, w)) = Inr (st', w')"
          and wf: "strategy_wf st" "W w"
        obtain lo st1 where g: "lqs_get_leg L (a, m) st = (lo, st1)" by fastforce
        note s = lqs_get_leg_step [OF wf(1) g]
        show "strategy_step st st' \<and> W w'"
        proof (cases lo)
          case None
          with run g s wf show ?thesis by simp
        next
          case (Some l)
          then have "hfind2 (ls_legs st) (a, m) = Some l" using s(1) by simp
          from strategy_wfD(3) [OF wf(1) this] have ok: "leg_ok (a, m) l" .
          from run g Some have "compute_leg L D (Some u1) (a, m) l (st1, w) = Inr (st', w')" by simp
          from compute_leg_step [OF this strategy_step_wf [OF s(3)] wf(2) ok] show ?thesis
            using strategy_step_trans [OF s(3)] by blast
        qed
      qed
    qed
    from keeps_after [OF this r st2 wf(2)] show ?thesis .
  qed
qed

lemma update_leg_keeps:
  assumes f: "\<And>leg leg'. f leg = Inr leg' \<Longrightarrow> leg_ok key leg \<Longrightarrow> leg_ok key leg'"
  shows "keeps W (update_leg L D f key)"
proof (rule keepsI)
  fix st w st' w'
  assume run: "update_leg L D f key (st, w) = Inr (st', w')" and wf: "strategy_wf st" "W w"
  then obtain leg leg1 where leg: "hfind2 (ls_legs st) key = Some leg" "f leg = Inr leg1"
    and r: "compute_strategy L D key (put_leg L key leg1 st, w) = Inr (st', w')"
    by (auto simp: update_leg_def res_simps split: option.splits)
  have "leg_ok key leg1" by (rule f [OF leg(2) strategy_wfD(3) [OF wf(1) leg(1)]])
  from put_leg_step(1) [OF wf(1) this] show "strategy_step st st' \<and> W w'"
    by (rule keeps_after [OF compute_strategy_keeps r _ wf(2)])
qed

end

section \<open>Legs and underlyings\<close>

lemma emplace_leg_step:
  assumes run: "emplace_leg L key c st = Inr (k, leg, new, c', st')" and wf: "strategy_wf st"
  shows "strategy_step st st'" "hfind2 (ls_legs st') k = Some leg" "fst k = m_account key"
    "\<exists>info is_new ms. emplace_market L key (c_markets c) = Inr (info, is_new, ms) \<and> c' = c\<lparr>c_markets := ms\<rparr>"
    "leg_ok k leg"
proof -
  obtain info is_new ms where a: "m_account key \<noteq> []"
    and em: "emplace_market L key (c_markets c) = Inr (info, is_new, ms)"
    and k: "k = (m_account key, info_market info)" and c': "c' = c\<lparr>c_markets := ms\<rparr>"
    and leg: "leg = (case hfind2 (ls_legs st) k of
         None \<Rightarrow> default_leg\<lparr>lg_market := no_market\<lparr>m_market := info_market info, m_symbol := info_symbol info,
                                                      m_exchange := info_exchange info\<rparr>,
                               lg_underlying := - 1, lg_account := m_account key\<rparr>
       | Some l \<Rightarrow> l)\<lparr>lg_tick_size := info_tick_size info\<rparr>"
    and st': "st' = put_leg L k leg st"
    using run by (auto simp: emplace_leg_def res_simps Let_def)
  have ok: "leg_ok k leg"
    using strategy_wfD(3) [OF wf, of k] a
    by (cases "hfind2 (ls_legs st) k") (auto simp: leg leg_ok_def k no_market_def)
  show "strategy_step st st'" "hfind2 (ls_legs st') k = Some leg"
    using put_leg_step [OF wf ok] by (simp_all add: st')
  show "fst k = m_account key" by (simp add: k)
  show "\<exists>info is_new ms. emplace_market L key (c_markets c) = Inr (info, is_new, ms) \<and> c' = c\<lparr>c_markets := ms\<rparr>"
    using em c' by blast
  show "leg_ok k leg" by (rule ok)
qed

lemma emplace_underlying_step:
  assumes run: "emplace_underlying L key c st = Inr (i, u, c', st')" and wf: "strategy_wf st"
  shows "strategy_step st st'" "hfind (ls_underlyings st') i = Some u" "ls_legs st' = ls_legs st"
    "\<exists>info is_new ms. emplace_market L key (c_markets c) = Inr (info, is_new, ms) \<and> c' = c\<lparr>c_markets := ms\<rparr>"
proof -
  obtain info is_new ms where em: "emplace_market L key (c_markets c) = Inr (info, is_new, ms)"
    and i: "i = info_market info" and c': "c' = c\<lparr>c_markets := ms\<rparr>"
    using run by (auto simp: emplace_underlying_def res_simps Let_def split: option.splits)
  let ?new = "default_underlying\<lparr>ul_market := info_to_market info, ul_delta := Fin 0\<rparr>"
  show "\<exists>info is_new ms. emplace_market L key (c_markets c) = Inr (info, is_new, ms) \<and> c' = c\<lparr>c_markets := ms\<rparr>"
    using em c' by blast
  show "ls_legs st' = ls_legs st"
    using run em by (auto simp: emplace_underlying_def res_simps Let_def split: option.splits)
  have "strategy_step st st' \<and> hfind (ls_underlyings st') i = Some u"
  proof (cases "hfind (ls_underlyings st) i")
    case (Some old)
    with run em i wf show ?thesis by (simp add: emplace_underlying_def Let_def strategy_step_refl)
  next
    case None
    with run em i have st': "st' = st\<lparr>ls_underlyings := hput L i ?new (ls_underlyings st)\<rparr>" and u: "u = ?new"
      by (auto simp: emplace_underlying_def Let_def)
    have f: "hfind (ls_underlyings st') = (hfind (ls_underlyings st))(i \<mapsto> ?new)"
      by (simp add: st' hd.find_put [OF strategy_wfD(2) [OF wf]])
    have legs: "ls_legs st' = ls_legs st" by (simp add: st')
    have ok: "underlying_ok st' i ?new" by (simp add: underlying_ok_def i info_to_market_def default_underlying_def)
    have "strategy_wf st'"
      unfolding strategy_wf_def legs f
    proof (intro conjI allI impI)
      show "hwf2 (ls_legs st)" "hwf (ls_underlyings st')"
        using strategy_wfD(1,2) [OF wf] by (simp_all add: st' hd.wf_put)
      show "leg_ok k leg" if "hfind2 (ls_legs st) k = Some leg" for k leg
        using that strategy_wfD(3) [OF wf] by simp
      show "underlying_ok st' j v" if "((hfind (ls_underlyings st))(i \<mapsto> ?new)) j = Some v" for j v
      proof (cases "j = i")
        case True
        with that ok show ?thesis by simp
      next
        case False
        with that strategy_wfD(4) [OF wf] have "underlying_ok st j v" by simp
        then show ?thesis by (rule underlying_ok_mono) (simp add: legs)
      qed
    qed
    then have "strategy_step st st'" using f None by (auto simp: strategy_step_def legs) (simp_all add: st')
    with f u show ?thesis by simp
  qed
  then show "strategy_step st st'" "hfind (ls_underlyings st') i = Some u" by blast+
qed


lemma remove_leg_keeps:
  assumes wf: "strategy_wf st" and u: "hfind (ls_underlyings st) i = Some u" and m: "m_account m = []"
  shows "remove_leg m u = u"
proof -
  have "snd l \<noteq> []" if "l \<in> set (ul_legs u)" for l
  proof -
    obtain mk a where l: "l = (mk, a)" by (cases l)
    with strategy_wfD(4) [OF wf u] that obtain leg where "hfind2 (ls_legs st) (a, mk) = Some leg"
      by (auto simp: underlying_ok_def)
    from strategy_wfD(3) [OF wf this] show ?thesis by (simp add: l leg_ok_def)
  qed
  then have "filter (\<lambda>l. \<not> (fst l = m_market m \<and> snd l = m_account m)) (ul_legs u) = ul_legs u"
    using m by (auto simp: filter_id_conv)
  then show ?thesis by (simp add: remove_leg_def remove_if_vector_def)
qed

lemma link_underlying_step:
  assumes run: "link_underlying L p (st, c) = Inr (st', c')" and wf: "strategy_wf st"
  shows "strategy_step st st'"
    "\<exists>k1 i1 n1 m1 k2 i2 n2 m2. emplace_market L k1 (c_markets c) = Inr (i1, n1, m1) \<and>
       emplace_market L k2 m1 = Inr (i2, n2, m2) \<and> c' = c\<lparr>c_markets := m2\<rparr>"
proof -
  obtain exch sym where sp: "split_prefix (par_value p) (CHR '':'') = (exch, sym)" by fastforce
  let ?ukey = "\<lparr>m_market = 0, m_symbol = sym, m_exchange = exch, m_account = [], m_strategy_id = par_strategy_id p\<rparr>"
  obtain k leg new c1 st1 i u0 c2 st2 where
    e1: "emplace_leg L (parameter_market p) c st = Inr (k, leg, new, c1, st1)" and
    e2: "emplace_underlying L ?ukey c1 st1 = Inr (i, u0, c2, st2)" and
    r: "(let st3 = (if lg_underlying leg \<noteq> 0 then
                    (case hfind (ls_underlyings st2) (lg_underlying leg) of
                       None \<Rightarrow> st2
                     | Some prev \<Rightarrow> put_underlying (lg_underlying leg) (remove_leg (lg_market leg) prev) st2)
                  else st2) in
       case hfind (ls_underlyings st3) i of
         None \<Rightarrow> Inl Undefined_Behaviour
       | Some u \<Rightarrow>
           (let st4 = put_leg L k (leg\<lparr>lg_underlying := m_market (ul_market u)\<rparr>) st3;
                key = (parameter_market p)\<lparr>m_market := m_market (lg_market leg)\<rparr> in
            Inr (put_underlying i (add_leg key u) st4, c2))) = Inr (st', c')"
    using run sp by (auto simp: link_underlying_def res_simps)
  note s1 = emplace_leg_step [OF e1 wf]
  note s2 = emplace_underlying_step [OF e2 strategy_step_wf [OF s1(1)]]
  have wf2: "strategy_wf st2" by (rule strategy_step_wf [OF s2(1)])
  have acc: "m_account (lg_market leg) = []" using s1(5) by (simp add: leg_ok_def)
  define st3 where "st3 = (if lg_underlying leg \<noteq> 0 then
                    (case hfind (ls_underlyings st2) (lg_underlying leg) of
                       None \<Rightarrow> st2
                     | Some prev \<Rightarrow> put_underlying (lg_underlying leg) (remove_leg (lg_market leg) prev) st2)
                  else st2)"
  have s3: "strategy_step st2 st3"
  proof (cases "lg_underlying leg = 0 \<or> hfind (ls_underlyings st2) (lg_underlying leg) = None")
    case True
    then show ?thesis by (auto simp: st3_def strategy_step_refl [OF wf2])
  next
    case False
    then obtain prev where prev: "hfind (ls_underlyings st2) (lg_underlying leg) = Some prev" by auto
    with False have "st3 = put_underlying (lg_underlying leg) prev st2"
      by (simp add: st3_def remove_leg_keeps [OF wf2 prev acc])
    with put_underlying_step(1) [OF wf2 prev strategy_wfD(4) [OF wf2 prev], of "[]"] show ?thesis by simp
  qed
  note wf3 = strategy_step_wf [OF s3]
  obtain u where u: "hfind (ls_underlyings st3) i = Some u"
    and st': "st' = put_underlying i (add_leg ((parameter_market p)\<lparr>m_market := m_market (lg_market leg)\<rparr>) u)
         (put_leg L k (leg\<lparr>lg_underlying := m_market (ul_market u)\<rparr>) st3)" and c': "c' = c2"
    using r unfolding st3_def [symmetric] by (auto simp: Let_def split: option.splits)
  let ?leg = "leg\<lparr>lg_underlying := m_market (ul_market u)\<rparr>"
  let ?u = "add_leg ((parameter_market p)\<lparr>m_market := m_market (lg_market leg)\<rparr>) u"
  have ok: "leg_ok k ?leg" using s1(5) by (simp add: leg_ok_def)
  note s4 = put_leg_step [OF wf3 ok, of L]
  have k: "k = (par_account p, m_market (lg_market leg))"
    using s1(3,5) by (simp add: leg_ok_def parameter_market_def prod_eq_iff)
  have "hfind (ls_underlyings (put_leg L k ?leg st3)) i = Some u" using u by (simp add: put_leg_def)
  moreover have "underlying_ok (put_leg L k ?leg st3) i ?u"
    using strategy_wfD(4) [OF wf3 u] s4(2) by (auto simp: underlying_ok_def add_leg_def k parameter_market_def)
  ultimately have "strategy_step (put_leg L k ?leg st3) st'"
    unfolding st' by (rule put_underlying_step(1) [OF strategy_step_wf [OF s4(1)]]) (simp add: add_leg_def)
  then show "strategy_step st st'"
    using strategy_step_trans [OF s1(1)] strategy_step_trans [OF s2(1)] strategy_step_trans [OF s3]
      strategy_step_trans [OF s4(1)] by blast
  obtain info1 n1 ms1 where m1: "emplace_market L (parameter_market p) (c_markets c) = Inr (info1, n1, ms1)" "c1 = c\<lparr>c_markets := ms1\<rparr>"
    using s1(4) by blast
  obtain info2 n2 ms2 where m2: "emplace_market L ?ukey (c_markets c1) = Inr (info2, n2, ms2)" "c2 = c1\<lparr>c_markets := ms2\<rparr>"
    using s2(4) by blast
  show "\<exists>k1 i1 n1 m1 k2 i2 n2 m2. emplace_market L k1 (c_markets c) = Inr (i1, n1, m1) \<and>
       emplace_market L k2 m1 = Inr (i2, n2, m2) \<and> c' = c\<lparr>c_markets := m2\<rparr>"
    using m1 m2 c' by (intro exI conjI) auto
qed


section \<open>The handlers of a strategy\<close>

lemma underlying_parameter_keeps:
  "underlying_parameter p l u = Inr u' \<Longrightarrow> ul_legs u' = ul_legs u \<and> ul_market u' = ul_market u"
  by (auto simp: underlying_parameter_def res_simps split: if_splits)

lemma strategy_step_enabled: "strategy_wf st \<Longrightarrow> strategy_step st (st\<lparr>ls_enabled := b\<rparr>)"
  by (simp add: strategy_step_def strategy_wf_def underlying_ok_def)

lemma strategy_reference_data_step:
  assumes run: "strategy_reference_data L symbol exch c st = Inr st'" and wf: "strategy_wf st"
  shows "strategy_step st st'"
proof (cases "get_market_by_key (no_market\<lparr>m_symbol := symbol, m_exchange := exch\<rparr>) (c_markets c)")
  case None
  with run wf show ?thesis by (simp add: strategy_reference_data_def strategy_step_refl)
next
  case (Some info)
  obtain lo st1 where g: "lqs_get_leg L (info_account info, info_market info) st = (lo, st1)" by fastforce
  note s = lqs_get_leg_step [OF wf g]
  show ?thesis
  proof (cases lo)
    case None
    with run Some g s(3) show ?thesis by (simp add: strategy_reference_data_def res_simps Let_def)
  next
    case (Some leg)
    with s(1) have "hfind2 (ls_legs st) (info_account info, info_market info) = Some leg" by simp
    from strategy_wfD(3) [OF wf this]
    have "leg_ok (info_account info, info_market info) (leg\<lparr>lg_tick_size := info_tick_size info\<rparr>)"
      by (simp add: leg_ok_def)
    from put_leg_step(1) [OF strategy_step_wf [OF s(3)] this] show ?thesis
      using run Some \<open>get_market_by_key _ _ = Some info\<close> g strategy_step_trans [OF s(3)]
      by (auto simp: strategy_reference_data_def res_simps Let_def)
  qed
qed

context quote_sink begin

lemma strategy_parameter_keeps: "keeps W (strategy_parameter L D p label)"
proof (rule keepsI)
  fix st :: lqs_strategy and w st' w'
  assume run: "strategy_parameter L D p label (st, w) = Inr (st', w')" and wf: "strategy_wf st" "W w"
  obtain c s where w: "w = (c, s)" by (cases w)
  obtain pre sub where sp: "split_prefix label (CHR '':'') = (pre, sub)" by fastforce
  consider (link) "label = ''underlying''" | (enabled) "label \<noteq> ''underlying''" "label = ''enabled''"
    | (under) "label \<noteq> ''underlying''" "label \<noteq> ''enabled''" "pre = ''underlying''"
    | (one) "label \<noteq> ''underlying''" "label \<noteq> ''enabled''" "pre \<noteq> ''underlying''" "par_symbol p \<noteq> []" "par_exchange p \<noteq> []"
    | (all) "label \<noteq> ''underlying''" "label \<noteq> ''enabled''" "pre \<noteq> ''underlying''" "par_symbol p = [] \<or> par_exchange p = []"
    by blast
  then show "strategy_step st st' \<and> W w'"
  proof cases
    case link
    with run obtain c1 where l: "link_underlying L p (st, c) = Inr (st', c1)" and w': "w' = (c1, s)"
      by (auto simp: strategy_parameter_def w sp res_simps)
    from link_underlying_step(2) [OF l wf(1)] obtain k1 i1 n1 m1 k2 i2 n2 m2 where
      m: "emplace_market L k1 (c_markets c) = Inr (i1, n1, m1)" "emplace_market L k2 m1 = Inr (i2, n2, m2)"
        "c1 = c\<lparr>c_markets := m2\<rparr>" by blast
    have "W (c\<lparr>c_markets := m1\<rparr>, s)" by (rule emplace [OF m(1)]) (use wf w in simp)
    from emplace [OF _ this, of k2 i2 n2 m2] m(2,3) have "W (c1, s)" by simp
    with link_underlying_step(1) [OF l wf(1)] show ?thesis by (simp add: w')
  next
    case enabled
    with run wf show ?thesis by (auto simp: strategy_parameter_def w sp intro: strategy_step_enabled)
  next
    case under
    with run obtain i u c1 st1 u1 where
      e: "emplace_underlying L (parameter_market p) c st = Inr (i, u, c1, st1)" and
      u: "underlying_parameter p sub u = Inr u1" and r: "st' = put_underlying i u1 st1" "w' = (c1, s)"
      by (auto simp: strategy_parameter_def w sp res_simps)
    note s1 = emplace_underlying_step [OF e wf(1)]
    from s1(4) have "W (c1, s)" using emplace wf(2) by (auto simp: w)
    moreover have "strategy_step st1 st'"
      unfolding r(1) using underlying_parameter_keeps [OF u] strategy_wfD(4) [OF strategy_step_wf [OF s1(1)] s1(2)]
      by (intro put_underlying_step(1) [OF strategy_step_wf [OF s1(1)] s1(2), of _ "[]"]) (simp_all add: underlying_ok_def)
    ultimately show ?thesis using strategy_step_trans [OF s1(1)] r by simp
  next
    case one
    with run obtain k leg n c1 st1 where
      e: "emplace_leg L (parameter_market p) c st = Inr (k, leg, n, c1, st1)" and
      r: "update_leg L D (leg_parameter p label) k (st1, c1, s) = Inr (st', w')"
      by (auto simp: strategy_parameter_def w sp res_simps)
    note s1 = emplace_leg_step [OF e wf(1)]
    from s1(4) have "W (c1, s)" using emplace wf(2) by (auto simp: w)
    from keeps_after [OF update_leg_keeps [OF leg_parameter_keeps] r s1(1) this] show ?thesis .
  next
    case all
    with run have "for_legs (update_leg L D (leg_parameter p label)) (st, w) = Inr (st', w')"
      by (auto simp: strategy_parameter_def w sp)
    from keepsD [OF keeps_for_legs [OF update_leg_keeps [OF leg_parameter_keeps]] this wf] show ?thesis .
  qed
qed

lemma strategy_exposure_keeps: "keeps W (strategy_exposure L D e)"
proof (rule keepsI)
  fix st :: lqs_strategy and w st' w'
  assume run: "strategy_exposure L D e (st, w) = Inr (st', w')" and wf: "strategy_wf st" "W w"
  obtain c s where w: "w = (c, s)" by (cases w)
  let ?key = "\<lparr>m_market = e_market e, m_symbol = e_symbol e, m_exchange = e_exchange e,
               m_account = e_account e, m_strategy_id = 0\<rparr>"
  from run obtain k leg n c1 st1 where em: "emplace_leg L ?key c st = Inr (k, leg, n, c1, st1)" and
    r: "compute_strategy L D k
          (put_leg L k (leg_exposure e (if n then leg\<lparr>lg_account := e_account e\<rparr> else leg)) st1, c1, s) = Inr (st', w')"
    by (auto simp: strategy_exposure_def w res_simps Let_def)
  note s1 = emplace_leg_step [OF em wf(1)]
  from s1(4) have W1: "W (c1, s)" using emplace wf(2) by (auto simp: w)
  have "leg_ok k (if n then leg\<lparr>lg_account := e_account e\<rparr> else leg)"
    using s1(3,5) by (simp add: leg_ok_def)
  from put_leg_step(1) [OF strategy_step_wf [OF s1(1)] leg_exposure_keeps [OF this]]
  have "strategy_step st (put_leg L k (leg_exposure e (if n then leg\<lparr>lg_account := e_account e\<rparr> else leg)) st1)"
    by (rule strategy_step_trans [OF s1(1)])
  from keeps_after [OF compute_strategy_keeps r this W1] show "strategy_step st st' \<and> W w'" .
qed

lemma strategy_quotes_keeps: "keeps W (strategy_quotes L D u)"
proof (rule keepsI)
  fix st :: lqs_strategy and w st' w'
  assume run: "strategy_quotes L D u (st, w) = Inr (st', w')" and wf: "strategy_wf st" "W w"
  define f where "f = (\<lambda>account (st, c, s).
            let k = (account, qs_market u); (leg, st1) = lqs_get_leg L k st in
            case leg of
              None \<Rightarrow> Inr (st1, c, s)
            | Some leg \<Rightarrow>
                (let leg1 = (case bq_get_quotes (qs_market u) (c_best_quotes c) of
                               None \<Rightarrow> leg | Some q \<Rightarrow> leg\<lparr>lg_market_quotes := q\<rparr>) in
                 compute_strategy L D k (put_leg L k leg1 st1, c, s)))"
  from run obtain st1 c1 s1 where r: "rfold f (hkeys (ls_legs st)) (st, w) = Inr (st1, c1, s1)" and
    r2: "(case hfind (ls_underlyings st1) (qs_market u) of
                   None \<Rightarrow> (st1, c1, s1)
                 | Some ul \<Rightarrow>
                     (case bq_get_quotes (qs_market u) (c_best_quotes c1) of
                        None \<Rightarrow> (st1, c1, s1)
                      | Some q \<Rightarrow> (put_underlying (qs_market u) (ul\<lparr>ul_market_quotes := q\<rparr>) st1, c1, s1))) = (st', w')"
    unfolding strategy_quotes_def f_def [symmetric] by (auto simp: res_simps)
  have w': "w' = (c1, s1)" and
    st': "st' = st1 \<or> (\<exists>ul q. hfind (ls_underlyings st1) (qs_market u) = Some ul \<and>
       st' = put_underlying (qs_market u) (ul\<lparr>ul_market_quotes := q\<rparr>) st1)"
    using r2 by (auto split: option.splits)
  have "keeps W (f a)" for a
  proof (rule keepsI)
    fix st w st' w'
    assume run: "f a (st, w) = Inr (st', w')" and wf: "strategy_wf st" "W w"
    obtain c s where w: "w = (c, s)" by (cases w)
    let ?k = "(a, qs_market u)"
    obtain lo st1 where g: "lqs_get_leg L ?k st = (lo, st1)" by fastforce
    note s = lqs_get_leg_step [OF wf(1) g]
    show "strategy_step st st' \<and> W w'"
    proof (cases lo)
      case None
      with run g s wf show ?thesis by (auto simp: f_def w)
    next
      case (Some l)
      with run g obtain leg1 where r: "compute_strategy L D ?k (put_leg L ?k leg1 st1, w) = Inr (st', w')"
        and leg1: "leg1 = l \<or> (\<exists>q. leg1 = l\<lparr>lg_market_quotes := q\<rparr>)"
        by (fastforce simp: f_def w Let_def split: option.splits)
      have "leg_ok ?k l" using s(1) Some strategy_wfD(3) [OF wf(1)] by simp
      then have "leg_ok ?k leg1" using leg1 by (auto simp: leg_ok_def)
      from strategy_step_trans [OF s(3) put_leg_step(1) [OF strategy_step_wf [OF s(3)] this]]
      show ?thesis by (rule keeps_after [OF compute_strategy_keeps r _ wf(2)])
    qed
  qed
  from keepsD [OF keeps_rfold [OF this] r wf] have s1: "strategy_step st st1" and W1: "W (c1, s1)" by simp_all
  from st' show "strategy_step st st' \<and> W w'"
  proof (elim disjE exE conjE)
    fix ul q
    assume ul: "hfind (ls_underlyings st1) (qs_market u) = Some ul"
      and st': "st' = put_underlying (qs_market u) (ul\<lparr>ul_market_quotes := q\<rparr>) st1"
    have "strategy_step st1 st'" unfolding st'
      using strategy_wfD(4) [OF strategy_step_wf [OF s1] ul]
      by (intro put_underlying_step(1) [OF strategy_step_wf [OF s1] ul, of _ "[]"]) (simp_all add: underlying_ok_def)
    with s1 W1 show ?thesis using strategy_step_trans by (auto simp: w')
  qed (use s1 W1 w' in simp)
qed

lemma strategy_download_end_keeps: "keeps W (strategy_download_end L D account)"
proof (rule keepsI)
  fix st :: lqs_strategy and w st' w'
  assume run: "strategy_download_end L D account (st, w) = Inr (st', w')" and wf: "strategy_wf st" "W w"
  define f where "f = (\<lambda>k (st, c, s).
          case hfind2 (ls_legs st) k of
            None \<Rightarrow> Inl Undefined_Behaviour
          | Some leg \<Rightarrow>
              rbind (emplace_market L (lg_market leg) (c_markets c)) (\<lambda>(info, _, ms).
                compute_strategy L D k
                  (put_leg L k (leg\<lparr>lg_tick_size := info_tick_size info\<rparr>) st, c\<lparr>c_markets := ms\<rparr>, s)))"
  have "keeps W (f k)" for k
  proof (rule keepsI)
    fix st w st' w'
    assume run: "f k (st, w) = Inr (st', w')" and wf: "strategy_wf st" "W w"
    obtain c s where w: "w = (c, s)" by (cases w)
    from run obtain leg info n ms where leg: "hfind2 (ls_legs st) k = Some leg" and
      em: "emplace_market L (lg_market leg) (c_markets c) = Inr (info, n, ms)" and
      r: "compute_strategy L D k (put_leg L k (leg\<lparr>lg_tick_size := info_tick_size info\<rparr>) st, c\<lparr>c_markets := ms\<rparr>, s) =
        Inr (st', w')"
      by (auto simp: f_def w res_simps split: option.splits)
    have "leg_ok k (leg\<lparr>lg_tick_size := info_tick_size info\<rparr>)"
      using strategy_wfD(3) [OF wf(1) leg] by (simp add: leg_ok_def)
    moreover have "W (c\<lparr>c_markets := ms\<rparr>, s)" using emplace [OF em] wf(2) by (simp add: w)
    ultimately show "strategy_step st st' \<and> W w'"
      by (intro keeps_after [OF compute_strategy_keeps r] put_leg_step(1) wf(1))
  qed
  note k = keepsD [OF keeps_for_legs [OF this]]
  show "strategy_step st st' \<and> W w'"
  proof (cases "account = []")
    case True
    with run have "for_legs f (st, w) = Inr (st', w')"
      by (simp add: strategy_download_end_def f_def)
    from k [OF this wf] show ?thesis .
  next
    case False
    with run wf show ?thesis by (simp add: strategy_download_end_def strategy_step_refl)
  qed
qed

end


section \<open>The pricer\<close>

definition pricer_wf :: "lqs_pricer \<Rightarrow> bool" where
  "pricer_wf ps \<longleftrightarrow>
     hwf ps \<and> (\<forall>i st. hfind ps i = Some st \<longrightarrow> strategy_wf st \<and> ls_strategy st = i \<and> ls_portfolio st = i)"

lemma pricer_wfD:
  assumes "pricer_wf ps"
  shows "hwf ps" "hfind ps i = Some st \<Longrightarrow> strategy_wf st \<and> ls_strategy st = i \<and> ls_portfolio st = i"
  using assms unfolding pricer_wf_def by blast+

text \<open>Steps of the pricer: the strategies stay, and each of them makes steps.\<close>

definition pricer_step :: "lqs_pricer \<Rightarrow> lqs_pricer \<Rightarrow> bool" where
  "pricer_step ps ps' \<longleftrightarrow>
     pricer_wf ps' \<and>
     (\<forall>i st. hfind ps i = Some st \<longrightarrow> (\<exists>st'. hfind ps' i = Some st' \<and> strategy_step st st'))"

lemma pricer_step_refl: "pricer_wf ps \<Longrightarrow> pricer_step ps ps"
  unfolding pricer_step_def using pricer_wfD(2) strategy_step_refl by blast

lemma pricer_step_trans: "pricer_step a b \<Longrightarrow> pricer_step b c \<Longrightarrow> pricer_step a c"
  unfolding pricer_step_def using strategy_step_trans by blast

lemma pricer_step_wf: "pricer_step ps ps' \<Longrightarrow> pricer_wf ps'"
  by (simp add: pricer_step_def)

lemma pricer_step_hset:
  assumes wf: "pricer_wf ps" and st: "hfind ps i = Some st" and step: "strategy_step st st'"
  shows "pricer_step ps (hset i st' ps)"
proof -
  have f: "hfind (hset i st' ps) = (hfind ps)(i \<mapsto> st')" by (rule hfind_hset_Some [OF st])
  have "ls_strategy st' = i \<and> ls_portfolio st' = i"
    using pricer_wfD(2) [OF wf st] step by (simp add: strategy_step_def)
  then have "pricer_wf (hset i st' ps)"
    using wf step unfolding pricer_wf_def f by (auto dest: strategy_step_wf)
  then show ?thesis
    unfolding pricer_step_def f using st step pricer_wfD(2) [OF wf] strategy_step_refl by auto
qed

definition keeps_pricer :: "('w \<Rightarrow> bool) \<Rightarrow> (lqs_pricer \<times> 'w \<Rightarrow> (lqs_pricer \<times> 'w) res) \<Rightarrow> bool" where
  "keeps_pricer W f \<longleftrightarrow>
     (\<forall>ps w ps' w'. f (ps, w) = Inr (ps', w') \<longrightarrow> pricer_wf ps \<longrightarrow> W w \<longrightarrow> pricer_step ps ps' \<and> W w')"

lemma keeps_pricerI:
  "(\<And>ps w ps' w'. f (ps, w) = Inr (ps', w') \<Longrightarrow> pricer_wf ps \<Longrightarrow> W w \<Longrightarrow> pricer_step ps ps' \<and> W w') \<Longrightarrow>
     keeps_pricer W f"
  unfolding keeps_pricer_def by blast

lemma keeps_pricerD:
  "keeps_pricer W f \<Longrightarrow> f (ps, w) = Inr (ps', w') \<Longrightarrow> pricer_wf ps \<Longrightarrow> W w \<Longrightarrow> pricer_step ps ps' \<and> W w'"
  unfolding keeps_pricer_def by blast

lemma keeps_pricer_rfold:
  assumes "\<And>x. x \<in> set xs \<Longrightarrow> keeps_pricer W (f x)"
  shows "keeps_pricer W (rfold f xs)"
proof (rule keeps_pricerI)
  fix ps w ps' w'
  assume run: "rfold f xs (ps, w) = Inr (ps', w')" and wf: "pricer_wf ps" "W w"
  have "pricer_step ps (fst (ps', w')) \<and> W (snd (ps', w'))"
    using run
  proof (rule rfold_invariant [where I = "\<lambda>r. pricer_step ps (fst r) \<and> W (snd r)"])
    show "pricer_step ps (fst (ps, w)) \<and> W (snd (ps, w))" using wf by (simp add: pricer_step_refl)
  next
    fix x r r'
    assume a: "x \<in> set xs" "pricer_step ps (fst r) \<and> W (snd r)" "f x r = Inr r'"
    obtain p1 w1 p2 w2 where r: "r = (p1, w1)" "r' = (p2, w2)" by (cases r, cases r')
    from keeps_pricerD [OF assms [OF a(1)] a(3) [unfolded r]] a(2) pricer_step_wf
    have "pricer_step p1 p2 \<and> W w2" by (auto simp: r)
    then show "pricer_step ps (fst r') \<and> W (snd r')"
      using a(2) pricer_step_trans [of ps p1 p2] by (simp add: r)
  qed
  then show "pricer_step ps ps' \<and> W w'" by simp
qed

lemma with_strategy_keeps: "keeps W f \<Longrightarrow> keeps_pricer W (with_strategy f i)"
proof (rule keeps_pricerI)
  fix ps w ps' w'
  assume f: "keeps W f" and run: "with_strategy f i (ps, w) = Inr (ps', w')" and wf: "pricer_wf ps" "W w"
  show "pricer_step ps ps' \<and> W w'"
  proof (cases "hfind ps i")
    case None
    with run wf show ?thesis by (simp add: with_strategy_def pricer_step_refl)
  next
    case (Some st)
    with run obtain st1 where "f (st, w) = Inr (st1, w')" "ps' = hset i st1 ps"
      by (auto simp: with_strategy_def res_simps)
    with keepsD [OF f this(1)] pricer_wfD(2) [OF wf(1) Some] wf(2) pricer_step_hset [OF wf(1) Some]
    show ?thesis by simp
  qed
qed

lemma for_strategies_keeps: "keeps W f \<Longrightarrow> keeps_pricer W (for_strategies f)"
proof (rule keeps_pricerI)
  fix ps w ps' w'
  assume "keeps W f" "for_strategies f (ps, w) = Inr (ps', w')" "pricer_wf ps" "W w"
  then show "pricer_step ps ps' \<and> W w'"
    using keeps_pricerD [OF keeps_pricer_rfold [OF with_strategy_keeps]] by (simp add: for_strategies_def)
qed

lemma emplace_strategy_step:
  assumes wf: "pricer_wf ps" and run: "emplace_strategy L i ps = (st, ps')"
  shows "pricer_step ps ps'"
proof -
  let ?old = "hget_or ps i default_strategy"
  have st: "st = ?old\<lparr>ls_strategy := i, ls_portfolio := i\<rparr>" and ps': "ps' = hput L i st ps"
    using run by (auto simp: emplace_strategy_def Let_def)
  have f: "hfind ps' = (hfind ps)(i \<mapsto> st)" by (simp add: ps' hd.find_put [OF pricer_wfD(1) [OF wf]])
  have old: "st = s" if "hfind ps i = Some s" for s
    using pricer_wfD(2) [OF wf that] that by (simp add: st hget_or_def)
  have "strategy_wf st"
  proof (cases "hfind ps i")
    case None
    then have "st = default_strategy\<lparr>ls_strategy := i, ls_portfolio := i\<rparr>" by (simp add: st hget_or_def)
    then show ?thesis
      by (simp add: strategy_wf_def default_strategy_def hd2.pair.find_empty hd2.pair.wf_empty hd.find_empty hd.wf_empty)
  next
    case (Some s)
    with old [OF Some] pricer_wfD(2) [OF wf Some] show ?thesis by simp
  qed
  then have "pricer_wf ps'"
    using wf unfolding pricer_wf_def f by (auto simp: ps' hd.wf_put st)
  moreover have "\<exists>s'. hfind ps' j = Some s' \<and> strategy_step s s'" if "hfind ps j = Some s" for j s
    using that old [of s] pricer_wfD(2) [OF wf that] by (cases "j = i") (auto simp: f strategy_step_refl)
  ultimately show ?thesis by (simp add: pricer_step_def)
qed

context quote_sink begin

lemma lqs_on_parameters_keeps: "keeps_pricer W (lqs_on_parameters L D ps)"
  unfolding lqs_on_parameters_def
proof (rule keeps_pricer_rfold, rule keeps_pricerI)
  fix p :: parameter and qs w qs' w'
  assume run: "(case (qs, w) of (ps, w) \<Rightarrow>
       let (prefix, label) = split_prefix (par_label p) (CHR '':'') in
       if prefix \<noteq> ''lqs'' then Inr (ps, w)
       else if par_strategy_id p \<noteq> 0 then
         (let (_, ps1) = emplace_strategy L (par_strategy_id p) ps in
          with_strategy (strategy_parameter L D p label) (par_strategy_id p) (ps1, w))
       else for_strategies (strategy_parameter L D p label) (ps, w)) = Inr (qs', w')"
    and wf: "pricer_wf qs" "W w"
  obtain pre label where sp: "split_prefix (par_label p) (CHR '':'') = (pre, label)" by fastforce
  consider "pre \<noteq> ''lqs''" | "pre = ''lqs''" "par_strategy_id p \<noteq> 0" | "pre = ''lqs''" "par_strategy_id p = 0"
    by blast
  then show "pricer_step qs qs' \<and> W w'"
  proof cases
    case 1
    with run sp wf show ?thesis by (simp add: pricer_step_refl)
  next
    case 2
    obtain st ps1 where e: "emplace_strategy L (par_strategy_id p) qs = (st, ps1)" by fastforce
    note s1 = emplace_strategy_step [OF wf(1) e]
    from run sp 2 e have "with_strategy (strategy_parameter L D p label) (par_strategy_id p) (ps1, w) = Inr (qs', w')"
      by simp
    from keeps_pricerD [OF with_strategy_keeps [OF strategy_parameter_keeps] this pricer_step_wf [OF s1] wf(2)]
    show ?thesis using pricer_step_trans [OF s1] by blast
  next
    case 3
    with run sp have "for_strategies (strategy_parameter L D p label) (qs, w) = Inr (qs', w')" by simp
    from keeps_pricerD [OF for_strategies_keeps [OF strategy_parameter_keeps] this wf] show ?thesis .
  qed
qed

lemma lqs_on_reference_data_keeps: "keeps_pricer W (lqs_on_reference_data L symbol exch)"
  unfolding lqs_on_reference_data_def
  by (rule for_strategies_keeps, rule keepsI) (auto simp: res_simps intro: strategy_reference_data_step)

lemma lqs_on_exposure_update_keeps: "keeps_pricer W (lqs_on_exposure_update L D u)"
  unfolding lqs_on_exposure_update_def
  by (rule with_strategy_keeps, rule keeps_rfold, rule strategy_exposure_keeps)

lemma lqs_on_quotes_keeps: "keeps_pricer W (lqs_on_quotes L D u)"
  unfolding lqs_on_quotes_def by (rule for_strategies_keeps, rule strategy_quotes_keeps)

lemma lqs_on_download_begin_keeps: "keeps_pricer W lqs_on_download_begin"
  unfolding lqs_on_download_begin_def by (rule for_strategies_keeps, rule keepsI) (auto simp: strategy_step_refl)

lemma lqs_on_download_end_keeps: "keeps_pricer W (lqs_on_download_end L D account)"
  unfolding lqs_on_download_end_def by (rule for_strategies_keeps, rule strategy_download_end_keeps)

end

end
