(* ===== verification/Lqs_Oms.thy ===== *)
theory Lqs_Oms
  imports Handler Lqs_Sink Oms_Index
begin

text \<open>
  The pricer on top of the order manager: the target quotes of the pricer are the argument of
  \<open>oms::Manager::operator()(TargetQuotes)\<close>, and a call of the pricer runs the order manager within
  its loops.  Every handler of the pricer keeps its own strategies and the order manager
  well-formed; strategies that are not enabled send nothing.
\<close>

section \<open>The pricer as a handler\<close>

text \<open>\<open>MarketStatus\<close> and \<open>Timer\<close> are not overridden.\<close>

fun lqs_handle ::
  "layout \<Rightarrow> (quotes \<Rightarrow> ('g, 'z) core_scheme \<times> 'o \<Rightarrow> (('g, 'z) core_scheme \<times> 'o) res) \<Rightarrow>
     (lqs_pricer, ('g, 'z) core_scheme \<times> 'o) pricer" where
  "lqs_handle L D H_Market_Status r = Inr r"
| "lqs_handle L D (H_Timer now) r = Inr r"
| "lqs_handle L D (H_Quotes u) r = lqs_on_quotes L D u r"
| "lqs_handle L D (H_Exposure_Update u) r = lqs_on_exposure_update L D u r"
| "lqs_handle L D (H_Parameters_Update ps) r = lqs_on_parameters L D ps r"
| "lqs_handle L D (H_Reference_Data symbol exch) r = lqs_on_reference_data L symbol exch r"
| "lqs_handle L D (H_Download_Begin a) r = lqs_on_download_begin r"
| "lqs_handle L D (H_Download_End a) r = lqs_on_download_end L D a r"

lemma pricer_wf_empty: "pricer_wf []"
  by (simp add: pricer_wf_def hd.wf_empty hd.find_empty)

context quote_sink begin

lemma lqs_handle_keeps: "keeps_pricer W (lqs_handle L D h)"
proof (cases h)
  case (H_Quotes u)
  then show ?thesis using lqs_on_quotes_keeps [of u] by (simp add: keeps_pricer_def)
next
  case (H_Exposure_Update u)
  then show ?thesis using lqs_on_exposure_update_keeps [of u] by (simp add: keeps_pricer_def)
next
  case (H_Parameters_Update ps)
  then show ?thesis using lqs_on_parameters_keeps [of ps] by (simp add: keeps_pricer_def)
next
  case (H_Reference_Data a b)
  then show ?thesis using lqs_on_reference_data_keeps [of a b] by (simp add: keeps_pricer_def)
next
  case (H_Download_Begin a)
  then show ?thesis using lqs_on_download_begin_keeps by (simp add: keeps_pricer_def)
next
  case (H_Download_End a)
  then show ?thesis using lqs_on_download_end_keeps [of a] by (simp add: keeps_pricer_def)
qed (simp_all add: keeps_pricer_def pricer_step_refl)

end


section \<open>The order manager as the sink of the target quotes\<close>

definition world_ok :: "'g ext \<Rightarrow> ('g, 'z) core_scheme \<times> oms \<Rightarrow> bool" where
  "world_ok X = (\<lambda>(c, s). oms_wf s \<and> safe X (c_gateways c) s)"

lemma world_ok_eq [simp]: "world_ok X (c, s) \<longleftrightarrow> oms_wf s \<and> safe X (c_gateways c) s"
  by (simp add: world_ok_def)

interpretation lq: quote_sink "x_layout X" "on_target_quotes X" "world_ok X" for X :: "'g ext"
proof
  fix q and w w' :: "('g, 'z) core_scheme \<times> oms"
  assume "on_target_quotes X q w = Inr w'" "world_ok X w"
  then show "world_ok X w'" by (cases w, cases w') (simp add: on_target_quotes_wf)
next
  fix key and c :: "('g, 'z) core_scheme" and info new ms s
  assume "world_ok X (c, s)"
  then show "world_ok X (c\<lparr>c_markets := ms\<rparr>, s)" by simp
qed

text \<open>
  C12: every message to the pricer, from a well-formed pricer on a well-formed order manager, leaves
  both well-formed: strategies keep their identifier, legs and underlyings are never lost, and an
  underlying only gains legs, while the order manager it runs keeps its index of live orders.
\<close>

theorem lqs_handle_wf:
  assumes run: "lqs_handle (x_layout X) (on_target_quotes X) h (ps, c, s) = Inr (ps', c', s')"
    and wf: "pricer_wf ps" "oms_wf s" "safe X (c_gateways c) s"
  shows "pricer_wf ps' \<and> oms_wf s' \<and> safe X (c_gateways c') s' \<and>
    (\<forall>i st. hfind ps i = Some st \<longrightarrow>
       (\<exists>st'. hfind ps' i = Some st' \<and> ls_strategy st' = i \<and>
          (\<forall>k. hfind2 (ls_legs st) k \<noteq> None \<longrightarrow> hfind2 (ls_legs st') k \<noteq> None) \<and>
          (\<forall>j u. hfind (ls_underlyings st) j = Some u \<longrightarrow>
             (\<exists>u' extra. hfind (ls_underlyings st') j = Some u' \<and> ul_legs u' = ul_legs u @ extra))))"
proof -
  from keeps_pricerD [OF lq.lqs_handle_keeps run wf(1)] wf
  have st: "pricer_step ps ps'" and w: "oms_wf s'" "safe X (c_gateways c') s'" by simp_all
  have "\<exists>st'. hfind ps' i = Some st' \<and> ls_strategy st' = i \<and>
          (\<forall>k. hfind2 (ls_legs st) k \<noteq> None \<longrightarrow> hfind2 (ls_legs st') k \<noteq> None) \<and>
          (\<forall>j u. hfind (ls_underlyings st) j = Some u \<longrightarrow>
             (\<exists>u' extra. hfind (ls_underlyings st') j = Some u' \<and> ul_legs u' = ul_legs u @ extra))"
    if i: "hfind ps i = Some st" for i st
  proof -
    from st i obtain st' where "hfind ps' i = Some st'" "strategy_step st st'" unfolding pricer_step_def by blast
    moreover from this have "ls_strategy st' = i" using pricer_wfD(2) [OF pricer_step_wf [OF st]] by simp
    ultimately show ?thesis unfolding strategy_step_def by blast
  qed
  with st w pricer_step_wf show ?thesis by blast
qed

end
