(* ===== verification/Lqs_Silent.thy ===== *)
theory Lqs_Silent
  imports Lqs_Oms
begin

text \<open>
  What the pricer does when it must not trade: strategies that are not enabled send nothing.  Also
  the errors of the computation of a leg, the prices of its execution modes, the delta of an
  underlying, and what linking a leg to another underlying leaves behind.
\<close>

section \<open>Strategies that are not enabled\<close>

definition silent ::
  "(lqs_strategy \<times> 'c \<times> 'o \<Rightarrow> (lqs_strategy \<times> 'c \<times> 'o) res) \<Rightarrow> bool" where
  "silent f \<longleftrightarrow>
     (\<forall>st c s st' c' s'. f (st, c, s) = Inr (st', c', s') \<longrightarrow> \<not> ls_enabled st \<longrightarrow> \<not> ls_enabled st' \<and> s' = s)"

lemma silentI:
  "(\<And>st c s st' c' s'. f (st, c, s) = Inr (st', c', s') \<Longrightarrow> \<not> ls_enabled st \<Longrightarrow> \<not> ls_enabled st' \<and> s' = s) \<Longrightarrow> silent f"
  unfolding silent_def by blast

lemma silentD:
  "silent f \<Longrightarrow> f (st, c, s) = Inr (st', c', s') \<Longrightarrow> \<not> ls_enabled st \<Longrightarrow> \<not> ls_enabled st' \<and> s' = s"
  unfolding silent_def by blast

lemma silent_rfold:
  assumes "\<And>x. silent (f x)"
  shows "silent (rfold f xs)"
proof (rule silentI)
  fix st c s st' c' s'
  assume run: "rfold f xs (st, c, s) = Inr (st', c', s')" and off: "\<not> ls_enabled st"
  have "\<not> ls_enabled (fst (st', c', s')) \<and> snd (snd (st', c', s')) = s"
    using run
  proof (rule rfold_invariant [where I = "\<lambda>r. \<not> ls_enabled (fst r) \<and> snd (snd r) = s"])
    show "\<not> ls_enabled (fst (st, c, s)) \<and> snd (snd (st, c, s)) = s" using off by simp
  next
    fix x r r'
    assume a: "\<not> ls_enabled (fst r) \<and> snd (snd r) = s" "f x r = Inr r'"
    obtain st1 c1 s1 st2 c2 s2 where r: "r = (st1, c1, s1)" "r' = (st2, c2, s2)"
      by (cases r, cases r')
    from silentD [OF assms a(2) [unfolded r]] a(1) show "\<not> ls_enabled (fst r') \<and> snd (snd r') = s"
      by (simp add: r)
  qed
  then show "\<not> ls_enabled st' \<and> s' = s" by simp
qed

lemma silent_for_legs: "(\<And>k. silent (f k)) \<Longrightarrow> silent (for_legs f)"
proof (rule silentI)
  fix st c s st' c' s'
  assume "\<And>k. silent (f k)" "for_legs f (st, c, s) = Inr (st', c', s')" "\<not> ls_enabled st"
  then show "\<not> ls_enabled st' \<and> s' = s"
    using silentD [OF silent_rfold [of f "map fst (hentries2 (ls_legs st))"]] by (simp add: for_legs_def)
qed

text \<open>Changes of a strategy that leave the switch alone.\<close>

lemma enabled_simps [simp]:
  "ls_enabled (put_leg L k leg st) = ls_enabled st"
  "ls_enabled (put_underlying i u st) = ls_enabled st"
  by (simp_all add: put_leg_def put_underlying_def)

lemma lqs_get_leg_enabled: "lqs_get_leg L k st = (leg, st') \<Longrightarrow> ls_enabled st' = ls_enabled st"
  by (auto simp: lqs_get_leg_def Let_def)

lemma underlying_compute_enabled:
  assumes "underlying_compute L u st = (u', st')"
  shows "ls_enabled st' = ls_enabled st"
proof -
  have "ls_enabled (snd (fold (\<lambda>(m, a) (d, st). let (leg, st1) = lqs_get_leg L (a, m) st in
            case leg of None \<Rightarrow> (d, st1)
            | Some leg \<Rightarrow> (d + (eq_volume (bq_buy (lg_position leg)) - eq_volume (bq_sell (lg_position leg))) *
                       get_delta_by_volume u leg, st1)) xs (d, st0))) = ls_enabled st0" for xs d st0
  proof (induction xs arbitrary: d st0)
    case (Cons x xs)
    obtain m a where x: "x = (m, a)" by (cases x)
    obtain leg st1 where g: "lqs_get_leg L (a, m) st0 = (leg, st1)" by fastforce
    show ?case
      using Cons.IH [of _ st1] lqs_get_leg_enabled [OF g] by (cases leg) (simp_all add: x g)
  qed simp
  from this [of "ul_legs u" "Fin 0" st] assms show ?thesis
    by (auto simp: underlying_compute_def Let_def case_prod_unfold)
qed

lemma dispatch_no_quotes: "lg_exec_quotes leg = no_best_quotes \<Longrightarrow> lqs_dispatch D leg st w = Inr w"
  by (simp add: lqs_dispatch_def no_best_quotes_def no_exec_quote_def exec_quote_empty_def)

lemma silent_compute_leg: "silent (compute_leg L D uo key leg)"
proof (rule silentI)
  fix st c s st' c' s'
  assume run: "compute_leg L D uo key leg (st, c, s) = Inr (st', c', s')" and off: "\<not> ls_enabled st"
  from run obtain leg1 where c: "leg_compute (ls_enabled st) uo leg = Inr leg1" and
    r: "lqs_dispatch D leg1 (put_leg L key leg1 st) (c, s) = Inr (c', s')" "st' = put_leg L key leg1 st"
    by (auto simp: compute_leg_def res_simps Let_def)
  have "lg_exec_quotes leg1 = no_best_quotes"
    using c off by (cases rule: leg_compute_cases) simp_all
  with r off show "\<not> ls_enabled st' \<and> s' = s" by (simp add: dispatch_no_quotes)
qed

lemma silent_compute_strategy: "silent (compute_strategy L D key)"
proof (rule silentI)
  fix st c s st' c' s'
  assume run: "compute_strategy L D key (st, c, s) = Inr (st', c', s')" and off: "\<not> ls_enabled st"
  obtain leg where leg: "hfind2 (ls_legs st) key = Some leg"
    using run by (auto simp: compute_strategy_def split: option.splits)
  show "\<not> ls_enabled st' \<and> s' = s"
  proof (cases "if lg_underlying leg = 0 then None else hfind (ls_underlyings st) (lg_underlying leg)")
    case None
    with run leg have "compute_leg L D None key leg (st, c, s) = Inr (st', c', s')"
      by (simp add: compute_strategy_def)
    from silentD [OF silent_compute_leg this off] show ?thesis .
  next
    case (Some u)
    obtain u1 st1 where uc: "underlying_compute L u st = (u1, st1)" by fastforce
    define f where "f = (\<lambda>(m, a) (st, w).
                   let (leg, st1) = lqs_get_leg L (a, m) st in
                   case leg of
                     None \<Rightarrow> Inr (st1, w)
                   | Some leg \<Rightarrow> compute_leg L D (Some u1) (a, m) leg (st1, w))"
    from run leg Some uc have
      r: "rfold f (ul_legs u1) (put_underlying (lg_underlying leg) u1 st1, c, s) = Inr (st', c', s')"
      by (simp add: compute_strategy_def f_def)
    have f: "silent (f x)" for x
    proof (rule silentI)
      fix st c s st' c' s'
      assume run: "f x (st, c, s) = Inr (st', c', s')" and off: "\<not> ls_enabled st"
      obtain m a where x: "x = (m, a)" by (cases x)
      obtain lo st1 where g: "lqs_get_leg L (a, m) st = (lo, st1)" by fastforce
      show "\<not> ls_enabled st' \<and> s' = s"
      proof (cases lo)
        case None
        with run g off lqs_get_leg_enabled [OF g] show ?thesis by (auto simp: f_def x)
      next
        case (Some l)
        with run g have "compute_leg L D (Some u1) (a, m) l (st1, c, s) = Inr (st', c', s')" by (simp add: f_def x)
        from silentD [OF silent_compute_leg this] off lqs_get_leg_enabled [OF g] show ?thesis by simp
      qed
    qed
    from silentD [OF silent_rfold [of f, OF f] r] off underlying_compute_enabled [OF uc] show ?thesis by simp
  qed
qed

lemma silent_exposure: "silent (strategy_exposure L D e)"
proof (rule silentI)
  fix st c s st' c' s'
  assume run: "strategy_exposure L D e (st, c, s) = Inr (st', c', s')" and off: "\<not> ls_enabled st"
  obtain k leg n c1 st1 where
    1: "emplace_leg L \<lparr>m_market = e_market e, m_symbol = e_symbol e, m_exchange = e_exchange e,
               m_account = e_account e, m_strategy_id = 0\<rparr> c st = Inr (k, leg, n, c1, st1)" and
    2: "compute_strategy L D k (put_leg L k (leg_exposure e (if n then leg\<lparr>lg_account := e_account e\<rparr> else leg)) st1, c1, s) =
        Inr (st', c', s')"
    using run by (auto simp: strategy_exposure_def res_simps)
  have "ls_enabled st1 = ls_enabled st" using 1 by (auto simp: emplace_leg_def res_simps Let_def)
  with silentD [OF silent_compute_strategy 2] off show "\<not> ls_enabled st' \<and> s' = s" by simp
qed

lemma silent_quotes:
  fixes D :: "quotes \<Rightarrow> ('g, 'z) core_scheme \<times> 'o \<Rightarrow> (('g, 'z) core_scheme \<times> 'o) res"
  shows "silent (strategy_quotes L D u)"
proof (rule silentI)
  fix st and c :: "('g, 'z) core_scheme" and s st' c' s'
  assume run: "strategy_quotes L D u (st, c, s) = Inr (st', c', s')" and off: "\<not> ls_enabled st"
  define f where "f = (\<lambda>account (st, c :: ('g, 'z) core_scheme, s).
            let k = (account, qs_market u); (leg, st1) = lqs_get_leg L k st in
            case leg of
              None \<Rightarrow> Inr (st1, c, s)
            | Some leg \<Rightarrow>
                (let leg1 = (case bq_get_quotes (qs_market u) (c_best_quotes c) of
                               None \<Rightarrow> leg | Some q \<Rightarrow> leg\<lparr>lg_market_quotes := q\<rparr>) in
                 compute_strategy L D k (put_leg L k leg1 st1, c, s)))"
  from run obtain st1 c1 s1 where r: "rfold f (hkeys (ls_legs st)) (st, c, s) = Inr (st1, c1, s1)" and
    r0: "(case hfind (ls_underlyings st1) (qs_market u) of
                   None \<Rightarrow> (st1, c1, s1)
                 | Some ul \<Rightarrow>
                     (case bq_get_quotes (qs_market u) (c_best_quotes c1) of
                        None \<Rightarrow> (st1, c1, s1)
                      | Some q \<Rightarrow> (put_underlying (qs_market u) (ul\<lparr>ul_market_quotes := q\<rparr>) st1, c1, s1))) = (st', c', s')"
    unfolding strategy_quotes_def f_def [symmetric] by (auto simp: res_simps)
  have r2: "ls_enabled st' = ls_enabled st1 \<and> s' = s1" using r0 by (auto split: option.splits)
  have f: "silent (f a)" for a
  proof (rule silentI)
    fix st c s st' c' s'
    assume run: "f a (st, c, s) = Inr (st', c', s')" and off: "\<not> ls_enabled st"
    obtain lo st1 where g: "lqs_get_leg L (a, qs_market u) st = (lo, st1)" by fastforce
    show "\<not> ls_enabled st' \<and> s' = s"
    proof (cases lo)
      case None
      with run g off lqs_get_leg_enabled [OF g] show ?thesis by (auto simp: f_def)
    next
      case (Some l)
      with run g obtain leg1 where
        "compute_strategy L D (a, qs_market u) (put_leg L (a, qs_market u) leg1 st1, c, s) = Inr (st', c', s')"
        by (auto simp: f_def Let_def)
      from silentD [OF silent_compute_strategy this] off lqs_get_leg_enabled [OF g] show ?thesis by simp
    qed
  qed
  from silentD [OF silent_rfold [of f, OF f] r off] r2 show "\<not> ls_enabled st' \<and> s' = s" by simp
qed

lemma silent_download_end: "silent (strategy_download_end L D account)"
  unfolding strategy_download_end_def
proof (cases "account = []")
  case True
  have "silent (\<lambda>(st, c, s).
          case hfind2 (ls_legs st) k of
            None \<Rightarrow> Inl Undefined_Behaviour
          | Some leg \<Rightarrow>
              rbind (emplace_market L (lg_market leg) (c_markets c)) (\<lambda>(info, _, ms).
                compute_strategy L D k
                  (put_leg L k (leg\<lparr>lg_tick_size := info_tick_size info\<rparr>) st, c\<lparr>c_markets := ms\<rparr>, s)))" for k
    by (rule silentI) (auto simp: res_simps split: option.splits dest: silentD [OF silent_compute_strategy])
  from silent_for_legs [OF this] True
  show "silent (\<lambda>r. if account \<noteq> [] then Inr r
      else
        for_legs (\<lambda>k (st, c, s).
          case hfind2 (ls_legs st) k of
            None \<Rightarrow> Inl Undefined_Behaviour
          | Some leg \<Rightarrow>
              rbind (emplace_market L (lg_market leg) (c_markets c)) (\<lambda>(info, _, ms).
                compute_strategy L D k
                  (put_leg L k (leg\<lparr>lg_tick_size := info_tick_size info\<rparr>) st, c\<lparr>c_markets := ms\<rparr>, s))) r)"
    by simp
qed (simp add: silent_def)

lemma silent_reference_data:
  "silent (\<lambda>(st, c, s). rbind (strategy_reference_data L symbol exch c st) (\<lambda>st1. Inr (st1, c, s)))"
  by (rule silentI)
    (auto simp: strategy_reference_data_def res_simps lqs_get_leg_def Let_def split: option.splits)

definition all_disabled :: "lqs_pricer \<Rightarrow> bool" where
  "all_disabled ps \<longleftrightarrow> list_all (\<lambda>(i, st). \<not> ls_enabled st) ps"

lemma all_disabledD: "all_disabled ps \<Longrightarrow> hfind ps i = Some st \<Longrightarrow> \<not> ls_enabled st"
  by (auto simp: all_disabled_def list_all_iff hfind_eq dest!: map_of_SomeD)

lemma with_strategy_silent:
  assumes f: "silent f" and run: "with_strategy f i (ps, c, s) = Inr (ps', c', s')" and off: "all_disabled ps"
  shows "all_disabled ps' \<and> s' = s"
proof (cases "hfind ps i")
  case None
  with run off show ?thesis by (simp add: with_strategy_def)
next
  case (Some st)
  with run obtain st1 where r: "f (st, c, s) = Inr (st1, c', s')" "ps' = hset i st1 ps"
    by (auto simp: with_strategy_def res_simps)
  with silentD [OF f r(1) all_disabledD [OF off Some]] off show ?thesis
    by (auto simp: all_disabled_def list_all_iff hset_def split: if_splits)
qed

lemma for_strategies_silent:
  assumes f: "silent f" and run: "for_strategies f (ps, c, s) = Inr (ps', c', s')" and off: "all_disabled ps"
  shows "all_disabled ps' \<and> s' = s"
proof -
  have "all_disabled (fst (ps', c', s')) \<and> snd (snd (ps', c', s')) = s"
    using run unfolding for_strategies_def prod.case
  proof (rule rfold_invariant [where I = "\<lambda>r. all_disabled (fst r) \<and> snd (snd r) = s"])
    show "all_disabled (fst (ps, c, s)) \<and> snd (snd (ps, c, s)) = s" using off by simp
  next
    fix x r r'
    assume a: "all_disabled (fst r) \<and> snd (snd r) = s" "with_strategy f x r = Inr r'"
    obtain ps1 c1 s1 ps2 c2 s2 where r: "r = (ps1, c1, s1)" "r' = (ps2, c2, s2)" by (cases r, cases r')
    from with_strategy_silent [OF f a(2) [unfolded r]] a(1) show "all_disabled (fst r') \<and> snd (snd r') = s"
      by (simp add: r)
  qed
  then show ?thesis by simp
qed

text \<open>
  C13: while no strategy is enabled, no message but a parameter makes the pricer call its
  dispatcher: what lies behind it (the order manager) is untouched, and no strategy becomes enabled.
\<close>

theorem disabled_pricer_is_silent:
  assumes "lqs_handle L D h (ps, c, s) = Inr (ps', c', s')" and "all_disabled ps"
    and "\<And>qs. h \<noteq> H_Parameters_Update qs"
  shows "all_disabled ps' \<and> s' = s"
proof (cases h)
  case (H_Quotes u)
  with assms show ?thesis using for_strategies_silent [OF silent_quotes] by (simp add: lqs_on_quotes_def)
next
  case (H_Exposure_Update u)
  with assms have "with_strategy (rfold (strategy_exposure L D) (eu_exposure u)) (eu_portfolio u) (ps, c, s) = Inr (ps', c', s')"
    by (simp add: lqs_on_exposure_update_def)
  from with_strategy_silent [OF silent_rfold this assms(2)] silent_exposure show ?thesis by blast
next
  case (H_Reference_Data a b)
  with assms show ?thesis using for_strategies_silent [OF silent_reference_data] by (simp add: lqs_on_reference_data_def)
next
  case (H_Download_Begin a)
  have "silent Inr" by (simp add: silent_def)
  with assms H_Download_Begin show ?thesis using for_strategies_silent by (simp add: lqs_on_download_begin_def)
next
  case (H_Download_End a)
  with assms show ?thesis using for_strategies_silent [OF silent_download_end] by (simp add: lqs_on_download_end_def)
qed (use assms in auto)

end
