(* ===== verification/Lqs_Results.thy ===== *)
theory Lqs_Results
  imports Lqs_Silent
begin

text \<open>
  Errors and prices of the computation of a leg, the delta of an underlying, and what the events
  that set up a strategy leave behind; the concrete legs at which the properties are evaluated.
\<close>

section \<open>Errors and prices\<close>

text \<open>
  C26: the computation of a leg fails only by an assertion, and exactly when the strategy is enabled,
  the market quotes can be used, and the execution mode is unknown or needs a tick size that is not
  known.
\<close>

theorem leg_compute_fails_iff:
  "leg_compute enabled uo leg = Inl e \<longleftrightarrow>
     e = Assert_Failed \<and> enabled \<and> check_market_quotes leg \<and>
     (lg_execution_mode leg = EM_UNDEFINED \<or>
      lg_execution_mode leg \<in> {JOIN_PLUS, CROSS_MINUS} \<and> isnan (lg_tick_size leg))"
proof (cases "enabled \<and> check_market_quotes leg")
  case False
  then show ?thesis by (auto simp: leg_compute_def)
next
  case True
  obtain buy sell where v: "limit_volumes uo leg (leg_volumes leg) = (buy, sell)" by fastforce
  have "leg_compute enabled uo leg = Inl e \<longleftrightarrow> leg_prices leg = Inl e"
    using True by (cases "leg_prices leg") (auto simp: leg_compute_def v Let_def)
  also have "\<dots> \<longleftrightarrow> e = Assert_Failed \<and> (lg_execution_mode leg = EM_UNDEFINED \<or>
      lg_execution_mode leg \<in> {JOIN_PLUS, CROSS_MINUS} \<and> isnan (lg_tick_size leg))"
    by (cases "lg_execution_mode leg"; cases "isnan (lg_tick_size leg)")
      (auto simp: leg_prices_def Let_def ensure_def)
  finally show ?thesis using True by simp
qed

text \<open>
  An \<open>execution_mode\<close> parameter whose value names no mode is accepted, and the next computation
  of the leg with usable quotes ends the program by a failed assertion.
\<close>

theorem unknown_execution_mode_aborts:
  assumes "execution_mode_cast (par_value p) = None"
  shows "leg_parameter p ''execution_mode'' leg = Inr (leg\<lparr>lg_execution_mode := EM_UNDEFINED\<rparr>) \<and>
    (check_market_quotes leg \<longrightarrow>
       leg_compute True uo (leg\<lparr>lg_execution_mode := EM_UNDEFINED\<rparr>) = Inl Assert_Failed)"
proof -
  have "check_market_quotes (leg\<lparr>lg_execution_mode := EM_UNDEFINED\<rparr>) = check_market_quotes leg"
    by (simp add: check_market_quotes_def)
  with assms show ?thesis by (simp add: leg_parameter_def leg_compute_fails_iff)
qed

text \<open>
  C27: in the mode \<open>JOIN_PLUS\<close> a quote improves the market by one tick, but a buy quote is never
  above one tick below the ask and a sell quote never below one tick above the bid, beyond the
  tolerance of the comparison.
\<close>

theorem join_plus_stays_inside:
  assumes "lg_execution_mode leg = JOIN_PLUS" and "leg_prices leg = Inr (buy, sell)"
  shows "\<not> isnan (lg_tick_size leg) \<and>
    double_compare buy (eq_price (bq_sell (lg_market_quotes leg)) - lg_tick_size leg) \<le> 0 \<and>
    double_compare buy (eq_price (bq_buy (lg_market_quotes leg)) + lg_tick_size leg) \<le> 0 \<and>
    0 \<le> double_compare sell (eq_price (bq_buy (lg_market_quotes leg)) + lg_tick_size leg) \<and>
    0 \<le> double_compare sell (eq_price (bq_sell (lg_market_quotes leg)) - lg_tick_size leg)"
  using assms by (auto simp: leg_prices_def Let_def res_simps double_min_le double_max_ge)

section \<open>The delta of an underlying\<close>

text \<open>
  C24: the delta of an underlying is the sum, in the order of its list and rounded at each step, of
  the positions of the legs it lists, each weighted by the leg's delta; a look-up changes no leg.
\<close>

theorem underlying_delta_sum:
  assumes "strategy_wf st" and "underlying_compute L u st = (u', st')"
  shows "ul_delta u' = foldl (\<lambda>d leg. d + delta_term u leg) (Fin 0) (linked_legs u st) \<and>
    ul_legs u' = ul_legs u \<and> (\<forall>k. hfind2 (ls_legs st') k = hfind2 (ls_legs st) k)"
  using underlying_compute_step [OF assms] by simp


section \<open>Set-up events\<close>

text \<open>
  \<open>ReferenceData\<close> never reaches a leg: the pricer builds the key of the leg from the market's
  entry, whose account is empty, while every leg is stored under the account it trades for.  The
  legs keep the tick size they have.
\<close>

theorem reference_data_reaches_no_leg:
  assumes "strategy_wf st" and "strategy_reference_data L symbol exch c st = Inr st'"
    and "\<And>i info. get_market i (c_markets c) = Some info \<Longrightarrow> info_account info = []"
  shows "hfind2 (ls_legs st') k = hfind2 (ls_legs st) k"
proof (cases "get_market_by_key (no_market\<lparr>m_symbol := symbol, m_exchange := exch\<rparr>) (c_markets c)")
  case None
  with assms(2) show ?thesis by (simp add: strategy_reference_data_def)
next
  case (Some info)
  then have acc: "info_account info = []" using assms(3) by (auto simp: get_market_by_key_def split: if_splits)
  let ?k = "([], info_market info) :: leg_key"
  obtain leg st1 where g: "lqs_get_leg L ?k st = (leg, st1)" by fastforce
  note s = lqs_get_leg_step [OF assms(1) g]
  have "hfind2 (ls_legs st) ?k = None"
    using strategy_wfD(3) [OF assms(1), of ?k] by (cases "hfind2 (ls_legs st) ?k") (auto simp: leg_ok_def)
  with s have "leg = None" by simp
  with Some assms(2) g acc have "st' = st1" by (auto simp: strategy_reference_data_def res_simps)
  with s(2) show ?thesis by simp
qed

text \<open>
  C28: a parameter that links a leg to an underlying takes it out of no other underlying: the list of
  every underlying only grows, so a leg that is moved is counted in the delta of both.
\<close>

theorem link_underlying_keeps_links:
  assumes "strategy_wf st" and "link_underlying L p (st, c) = Inr (st', c')"
    and "hfind (ls_underlyings st) j = Some u" and "l \<in> set (ul_legs u)"
  shows "\<exists>u'. hfind (ls_underlyings st') j = Some u' \<and> l \<in> set (ul_legs u') \<and> length (ul_legs u) \<le> length (ul_legs u')"
proof -
  from link_underlying_step(1) [OF assms(2,1)] assms(3) obtain u' extra where
    "hfind (ls_underlyings st') j = Some u'" "ul_legs u' = ul_legs u @ extra"
    unfolding strategy_step_def by blast
  with assms(4) show ?thesis by auto
qed


section \<open>Examples\<close>

text \<open>A leg that holds 5 more than its target, quotes at most 3, and sees the market at 100 to 101.\<close>

definition demo_leg :: lqs_leg where
  "demo_leg =
     default_leg\<lparr>lg_market := no_market\<lparr>m_market := 1, m_symbol := ''s'', m_exchange := ''e''\<rparr>, lg_account := ''a'',
       lg_position := \<lparr>bq_buy = no_exec_quote\<lparr>eq_volume := Fin 5\<rparr>, bq_sell = no_exec_quote\<lparr>eq_volume := Fin 0\<rparr>\<rparr>,
       lg_market_quotes := \<lparr>bq_buy = no_exec_quote\<lparr>eq_price := Fin 100\<rparr>, bq_sell = no_exec_quote\<lparr>eq_price := Fin 101\<rparr>\<rparr>,
       lg_buy_volume := Fin 3, lg_sell_volume := Fin 3, lg_tick_size := Fin 1\<rparr>"

definition demo_underlying :: lqs_underlying where
  "demo_underlying = default_underlying\<lparr>ul_market := no_market\<lparr>m_market := 7\<rparr>, ul_delta := Fin 5,
     ul_delta_min := Fin 4, ul_delta_max := Fin 6, ul_legs := [(1, ''a'')]\<rparr>"

lemmas leg_eval =
  demo_leg_def default_leg_def no_market_def no_exec_quote_def no_best_quotes_def demo_underlying_def
  default_underlying_def check_market_quotes_def exec_quote_empty_def leg_compute_def limit_volumes_def
  leg_volumes_def leg_prices_def set_quote_def double_empty_def dgt_def double_min_def double_max_def dlt_def
  minus_double_def compare_numerals Let_def

lemma demo_leg_checked: "check_market_quotes demo_leg"
  by (simp add: leg_eval)

lemma demo_leg_quotes:
  "\<exists>leg'. leg_compute True (Some demo_underlying) demo_leg = Inr leg' \<and> sell_volume_of leg' = Fin 1"
  by (simp add: leg_eval sell_volume_of_def)


theorem leg_volume_bounds_witness:
  "\<exists>leg'. leg_compute True (Some demo_underlying) demo_leg = Inr leg' \<and>
     double_compare (sell_volume_of leg') (Fin 3) \<le> 0"
proof -
  obtain leg' where r: "leg_compute True (Some demo_underlying) demo_leg = Inr leg'" using demo_leg_quotes by blast
  have "lg_sell_volume demo_leg = Fin 3" by (simp add: demo_leg_def)
  with leg_volume_bounds [OF r TrueI demo_leg_checked] r show ?thesis by auto
qed

theorem leg_quotes_one_side_witness:
  "\<exists>leg'. leg_compute True (Some demo_underlying) demo_leg = Inr leg' \<and> \<not> dgt (buy_volume_of leg') (Fin 0)"
proof -
  obtain leg' where r: "leg_compute True (Some demo_underlying) demo_leg = Inr leg'" "sell_volume_of leg' = Fin 1"
    using demo_leg_quotes by blast
  with leg_quotes_one_side [OF r(1)] show ?thesis by (simp add: dgt_def compare_numerals)
qed

definition mode_parameter :: parameter where
  "mode_parameter = \<lparr>par_label = ''lqs:execution_mode'', par_account = ''a'', par_exchange = ''e'', par_symbol = ''s'',
     par_strategy_id = 1, par_value = ''MARKET''\<rparr>"

theorem unknown_execution_mode_aborts_witness:
  "leg_compute True None (demo_leg\<lparr>lg_execution_mode := EM_UNDEFINED\<rparr>) = Inl Assert_Failed"
proof -
  have "execution_mode_cast (par_value mode_parameter) = None"
    by (simp add: execution_mode_cast_def mode_parameter_def)
  from unknown_execution_mode_aborts [OF this, of demo_leg None] demo_leg_checked show ?thesis by blast
qed

theorem join_plus_stays_inside_witness:
  "\<exists>buy sell. leg_prices (demo_leg\<lparr>lg_execution_mode := JOIN_PLUS\<rparr>) = Inr (buy, sell) \<and>
     double_compare buy (Fin 101 - Fin 1) \<le> 0"
proof -
  let ?leg = "demo_leg\<lparr>lg_execution_mode := JOIN_PLUS\<rparr>"
  obtain buy sell where r: "leg_prices ?leg = Inr (buy, sell)" by (simp add: leg_prices_def demo_leg_def Let_def)
  have "eq_price (bq_sell (lg_market_quotes ?leg)) = Fin 101" "lg_tick_size ?leg = Fin 1" by (simp_all add: demo_leg_def)
  with join_plus_stays_inside [OF _ r] r show ?thesis by auto
qed

definition demo_strategy :: lqs_strategy where
  "demo_strategy = default_strategy\<lparr>ls_enabled := True, ls_strategy := 1, ls_portfolio := 1,
     ls_underlyings := [(7, demo_underlying)], ls_legs := [(''a'', [(1, demo_leg\<lparr>lg_underlying := 7\<rparr>)])]\<rparr>"

lemma demo_strategy_wf: "strategy_wf demo_strategy"
  by (simp add: strategy_wf_def demo_strategy_def default_strategy_def hwf2_def hash_eval leg_ok_def underlying_ok_def
      demo_leg_def default_leg_def demo_underlying_def default_underlying_def no_market_def)

theorem underlying_delta_sum_witness:
  "ul_delta (fst (underlying_compute (\<lambda>n. [0..<n]) demo_underlying demo_strategy)) =
     Fin 0 + delta_term demo_underlying (demo_leg\<lparr>lg_underlying := 7\<rparr>)"
proof -
  obtain u st where r: "underlying_compute (\<lambda>n. [0..<n]) demo_underlying demo_strategy = (u, st)" by fastforce
  have "linked_legs demo_underlying demo_strategy = [demo_leg\<lparr>lg_underlying := 7\<rparr>]"
    by (simp add: linked_legs_def demo_strategy_def demo_underlying_def hash_eval List.map_filter_simps)
  with underlying_delta_sum [OF demo_strategy_wf r] r show ?thesis by simp
qed

lemma demo_accounts: "get_market i (c_markets demo_core) = Some info \<Longrightarrow> info_account info = []"
  by (auto simp: demo_eval get_market_def hash_eval split: if_splits)

theorem reference_data_reaches_no_leg_witness:
  "\<exists>st'. strategy_reference_data (\<lambda>n. [0..<n]) ''s'' ''e'' demo_core demo_strategy = Inr st' \<and>
     hfind2 (ls_legs st') (''a'', 1) = hfind2 (ls_legs demo_strategy) (''a'', 1)"
proof -
  obtain st' where r: "strategy_reference_data (\<lambda>n. [0..<n]) ''s'' ''e'' demo_core demo_strategy = Inr st'"
    by (simp add: strategy_reference_data_def get_market_by_key_def no_market_def get_market_def get_market_ident_def
        demo_eval hash_eval case_prod_unfold)
  from reference_data_reaches_no_leg [OF demo_strategy_wf r, of "(''a'', 1)"] demo_accounts r show ?thesis by blast
qed

definition link_parameter :: "string \<Rightarrow> parameter" where
  "link_parameter v = \<lparr>par_label = ''lqs:underlying'', par_account = ''a'', par_exchange = ''e'', par_symbol = ''s'',
     par_strategy_id = 1, par_value = v\<rparr>"

text \<open>The leg of the example is moved from the underlying 7 to the new market \<open>v\<close>.\<close>

theorem link_underlying_keeps_links_witness:
  "\<exists>st' c' u'. link_underlying (\<lambda>n. [0..<n]) (link_parameter ''e:v'') (demo_strategy, demo_core) = Inr (st', c') \<and>
     hfind (ls_underlyings st') 7 = Some u' \<and> (1, ''a'') \<in> set (ul_legs u')"
proof -
  obtain st' c' where r: "link_underlying (\<lambda>n. [0..<n]) (link_parameter ''e:v'') (demo_strategy, demo_core) = Inr (st', c')"
    by (simp add: link_underlying_def emplace_leg_def emplace_underlying_def parameter_market_def link_parameter_def
        emplace_market_def get_market_ident_def split_prefix_def split_at_sep_def put_leg_def put_underlying_def
        demo_strategy_def default_strategy_def info_to_market_def map_put_def demo_underlying_def default_underlying_def
        remove_leg_def remove_if_vector_def add_leg_def demo_leg_def default_leg_def no_market_def demo_eval hash_eval
        cong: eval_congs)
  have "hfind (ls_underlyings demo_strategy) 7 = Some demo_underlying" "(1, ''a'') \<in> set (ul_legs demo_underlying)"
    by (simp_all add: demo_strategy_def hash_eval demo_underlying_def)
  from link_underlying_keeps_links [OF demo_strategy_wf r this] r show ?thesis by blast
qed

end
