(* ===== verification/Lqs_Runs.thy ===== *)
theory Lqs_Runs
  imports Lqs_Results
begin

text \<open>
  A run of the pricer on the order manager: a quote reaches the leg of an enabled strategy, and an
  order is sent.
\<close>

definition market_quotes :: best_quotes where
  "market_quotes = \<lparr>bq_buy = no_exec_quote\<lparr>eq_price := Fin 100\<rparr>, bq_sell = no_exec_quote\<lparr>eq_price := Fin 101\<rparr>\<rparr>"

definition quoted_core :: "unit core" where
  "quoted_core = demo_core\<lparr>c_best_quotes := [(1, market_quotes)]\<rparr>"

definition demo_pricer :: "bool \<Rightarrow> lqs_pricer" where
  "demo_pricer on = [(1, default_strategy\<lparr>ls_enabled := on, ls_strategy := 1, ls_portfolio := 1,
     ls_legs := [(''a'', [(1, demo_leg)])]\<rparr>)]"

definition quotes_event :: handler_event where
  "quotes_event = H_Quotes \<lparr>qs_market = 1, qs_symbol = ''s'', qs_exchange = ''e'', qs_account = [], qs_portfolio = 0,
     qs_strategy = 0, qs_buy = [], qs_sell = []\<rparr>"

lemmas run_eval =
  quotes_event_def demo_pricer_def quoted_core_def market_quotes_def default_strategy_def lqs_on_quotes_def
  for_strategies_def with_strategy_def strategy_quotes_def lqs_get_leg_def bq_get_quotes_def put_leg_def
  compute_strategy_def compute_leg_def lqs_dispatch_def leg_target_quotes_def

lemma enabled_run:
  "\<exists>ps' c' s'. lqs_handle (x_layout plain_ext) (on_target_quotes plain_ext) quotes_event
     (demo_pricer True, quoted_core, start_oms) = Inr (ps', c', s') \<and> map (is_create \<circ> fst) (sent_requests s') = [True]"
  by (simp add: run_eval leg_eval quotes_eval get_source_def get_trade_gateway_def get_market_def double_compare_nan process_eval
      hash_eval demo_eval cong: eval_congs)


lemma demo_pricer_wf: "pricer_wf (demo_pricer on)"
  by (auto simp: pricer_wf_def demo_pricer_def strategy_wf_def default_strategy_def hwf2_def hash_eval leg_ok_def
      demo_leg_def default_leg_def no_market_def split: if_splits)

lemma start_oms_ok: "oms_wf start_oms" "safe X gws start_oms"
  by (simp_all add: start_oms_def oms_wf_initial) (simp add: initial_oms_def safe_def ids_below_def hd.find_empty)

theorem lqs_handle_wf_witness:
  "\<exists>ps' c' s'. lqs_handle (x_layout plain_ext) (on_target_quotes plain_ext) quotes_event
     (demo_pricer True, quoted_core, start_oms) = Inr (ps', c', s') \<and> sent_requests s' \<noteq> [] \<and> oms_wf s' \<and> pricer_wf ps'"
proof -
  obtain ps' c' s' where r: "lqs_handle (x_layout plain_ext) (on_target_quotes plain_ext) quotes_event
     (demo_pricer True, quoted_core, start_oms) = Inr (ps', c', s')" "map (is_create \<circ> fst) (sent_requests s') = [True]"
    using enabled_run by metis
  from lqs_handle_wf [OF r(1) demo_pricer_wf start_oms_ok] r show ?thesis by auto
qed

lemma disabled_run:
  "\<exists>ps' c' s'. lqs_handle (x_layout plain_ext) (on_target_quotes plain_ext) quotes_event
     (demo_pricer False, quoted_core, start_oms) = Inr (ps', c', s')"
  by (simp add: run_eval leg_eval hash_eval demo_eval cong: eval_congs)

theorem disabled_pricer_is_silent_witness:
  "\<exists>ps' c'. lqs_handle (x_layout plain_ext) (on_target_quotes plain_ext) quotes_event
     (demo_pricer False, quoted_core, start_oms) = Inr (ps', c', start_oms)"
proof -
  obtain ps' c' s' where r: "lqs_handle (x_layout plain_ext) (on_target_quotes plain_ext) quotes_event
     (demo_pricer False, quoted_core, start_oms) = Inr (ps', c', s')"
    using disabled_run by blast
  have "all_disabled (demo_pricer False)" by (simp add: all_disabled_def demo_pricer_def)
  from disabled_pricer_is_silent [OF r this] r show ?thesis by (simp add: quotes_event_def)
qed

end
