(* ===== verification/Strategy_Wf.thy ===== *)
theory Strategy_Wf
  imports Strategy Lqs_Runs
begin

text \<open>
  The invariant of the whole program.  What a strategy asks of its pricer is the locale
  \<open>handler_contract\<close>: every message keeps the pricer's own invariant and the order manager's.  From
  that, every event of the client library keeps both, through all callbacks; the pricer of \<open>lqs/\<close>
  on the order manager satisfies the contract.
\<close>

section \<open>The contract\<close>

locale handler_contract =
  fixes X :: "'g ext"
    and P :: "('p, ('g, 'p) strategy_state) pricer"
    and I :: "'p \<Rightarrow> bool"
  assumes contract: "P h (p, c, s) = Inr (p', c', s') \<Longrightarrow> I p \<Longrightarrow> oms_wf s \<Longrightarrow> safe X (c_gateways c) s \<Longrightarrow>
    I p' \<and> oms_wf s' \<and> safe X (c_gateways c') s'"

definition state_ok :: "'g ext \<Rightarrow> ('p \<Rightarrow> bool) \<Rightarrow> ('g, 'p) strategy_state \<Rightarrow> bool" where
  "state_ok X I = (\<lambda>(c, s). I (a_pricer c) \<and> oms_wf s \<and> safe X (c_gateways c) s)"

lemma state_ok_eq [simp]: "state_ok X I (c, s) \<longleftrightarrow> I (a_pricer c) \<and> oms_wf s \<and> safe X (c_gateways c) s"
  by (simp add: state_ok_def)

lemma pricer_app_only: "app_only (\<lambda>c :: ('g, 'p) app. I (a_pricer c))"
  unfolding app_only_def
proof (intro allI impI)
  fix c c' :: "('g, 'p) app"
  assume "core.more c = core.more c'"
  then show "I (a_pricer c) = I (a_pricer c')" by (cases c; cases c') simp
qed

text \<open>
  What an event must satisfy: no gateway gets ready through it while an identifier in use is above
  the counter, and an update of an order is for the book the order is in.
\<close>

definition client_event_ok :: "'g ext \<Rightarrow> 'g client_event \<Rightarrow> ('g, 'p) strategy_state \<Rightarrow> bool" where
  "client_event_ok X ev = (\<lambda>(c, s).
     let c1 = c\<lparr>c_gateways := gateways_event X ev (c_gateways c)\<rparr> in
     safe X (c_gateways c1) s \<and>
     (case ev_value ev of V_Order_Update u \<Rightarrow> update_placed X u (c1, s) | _ \<Rightarrow> True))"

text \<open>The states of a run: from an empty order manager and a pricer that satisfies \<open>I\<close>, by events.\<close>

inductive strategy_reachable ::
  "'g ext \<Rightarrow> bool \<Rightarrow> ('p, ('g, 'p) strategy_state) pricer \<Rightarrow> ('p \<Rightarrow> bool) \<Rightarrow> ('g, 'p) strategy_state \<Rightarrow> bool"
  for X flag P I where
  start: "I (a_pricer c) \<Longrightarrow> strategy_reachable X flag P I (c, initial_oms gws)"
| event: "strategy_reachable X flag P I r \<Longrightarrow> client_event_ok X ev r \<Longrightarrow> strategy_event X flag P ev r = Inr r' \<Longrightarrow>
    strategy_reachable X flag P I r'"

inductive_cases strategy_reachableE: "strategy_reachable X flag P I r"

lemma update_placed_cong:
  "c_gateways c' = c_gateways c \<Longrightarrow> c_markets c' = c_markets c \<Longrightarrow> update_placed X u (c', s) = update_placed X u (c, s)"
  by (auto simp: update_placed_def split: option.splits)

context handler_contract begin

lemma run_pricer_ok: "run_pricer P h r = Inr r' \<Longrightarrow> state_ok X I r \<Longrightarrow> state_ok X I r'"
  by (cases r) (auto simp: run_pricer_def res_simps dest: contract)

lemma exposure_ok: "on_exposure_update P x r = Inr r' \<Longrightarrow> state_ok X I r \<Longrightarrow> state_ok X I r'"
  by (auto simp: on_exposure_update_def dest: run_pricer_ok split: option.splits)

lemma trade_ok: "strategy_on_trade X P t r = Inr r' \<Longrightarrow> state_ok X I r \<Longrightarrow> state_ok X I r'"
  by (cases r) (auto simp: strategy_on_trade_def res_simps elim!: exposure_ok)

lemma trade_keeps: "keeps_wf_on (\<lambda>c. I (a_pricer c)) X (strategy_on_trade X P)"
  unfolding keeps_wf_on_def
proof (intro allI impI)
  fix t c s c' s'
  assume "I (a_pricer c) \<and> oms_wf s \<and> safe X (c_gateways c) s \<and> strategy_on_trade X P t (c, s) = Inr (c', s')"
  then show "I (a_pricer c') \<and> oms_wf s' \<and> safe X (c_gateways c') s'"
    using trade_ok [of t "(c, s)" "(c', s')"] by simp
qed

lemma core_event_ok:
  assumes run: "core_event X P ev (c, s) = Inr r'" and ok: "I (a_pricer c)" "oms_wf s"
    and safe: "safe X (gateways_event X ev (c_gateways c)) s"
  shows "state_ok X I r'"
proof (cases "ev_value ev")
  case (V_Position_Update u)
  with run obtain x c1 where "on_exposure_update P x (c1, s) = Inr r'" "a_pricer c1 = a_pricer c"
    "c_gateways c1 = gateways_event X ev (c_gateways c)"
    by (auto simp: core_event_def res_simps Let_def)
  with ok safe show ?thesis by (elim exposure_ok) simp
qed (use run ok safe in \<open>auto simp: core_event_def res_simps Let_def\<close>)

lemma oms_event_ok:
  assumes "oms_handle X flag (strategy_on_trade X P) e (c, s) = Inr r'" "event_placed X e (c, s)" "state_ok X I (c, s)"
  shows "state_ok X I r'"
proof (cases r')
  case (Pair c' s')
  have w: "I (a_pricer c)" "oms_wf s" "safe X (c_gateways c) s" using assms(3) by simp_all
  from oms_handle_wf_on [OF trade_keeps pricer_app_only w assms(2) assms(1) [unfolded Pair]] show ?thesis
    by (simp add: Pair)
qed

lemma core_event_order_update:
  "ev_value ev = V_Order_Update u \<Longrightarrow>
     core_event X P ev (c, s) = Inr (c\<lparr>c_gateways := gateways_event X ev (c_gateways c)\<rparr>, s)"
  by (simp add: core_event_def Let_def)

lemma dispatch_ok:
  assumes run: "strategy_dispatch X flag P ev (c, s) = Inr r'" and ok: "state_ok X I (c, s)"
    and ev: "client_event_ok X ev (c, s)"
  shows "state_ok X I r'"
proof -
  let ?c = "c\<lparr>a_config := config_event (ev_value ev) (a_config c)\<rparr>"
  obtain r1 r2 where
    1: "core_event X P ev (?c, s) = Inr r1" and
    2: "(case oms_event_of (ev_info ev) (ev_value ev) of None \<Rightarrow> Inr r1
         | Some e \<Rightarrow> oms_handle X flag (strategy_on_trade X P) e r1) = Inr r2" and
    3: "(case pricer_event_of (ev_value ev) of None \<Rightarrow> Inr r2 | Some h \<Rightarrow> run_pricer P h r2) = Inr r'"
    using run by (auto simp: strategy_dispatch_def res_simps)
  have ok1: "state_ok X I r1"
    by (rule core_event_ok [OF 1]) (use ok ev in \<open>simp_all add: client_event_ok_def Let_def\<close>)
  have placed: "event_placed X e r1" if "oms_event_of (ev_info ev) (ev_value ev) = Some e" for e
  proof (cases "ev_value ev")
    case (V_Order_Update u)
    with that have e: "e = Order_Update u" by (simp add: oms_event_of_def)
    let ?c0 = "c\<lparr>c_gateways := gateways_event X ev (c_gateways c)\<rparr>" and
      ?c1 = "?c\<lparr>c_gateways := gateways_event X ev (c_gateways c)\<rparr>"
    have "r1 = (?c1, s)" using 1 by (simp add: core_event_order_update [OF V_Order_Update])
    moreover have "update_placed X u (?c0, s)" using ev V_Order_Update by (simp add: client_event_ok_def)
    moreover have "update_placed X u (?c1, s) = update_placed X u (?c0, s)" by (rule update_placed_cong) simp_all
    ultimately show ?thesis by (simp add: e)
  qed (use that in \<open>auto simp: oms_event_of_def\<close>)
  obtain c1 s1 where r1: "r1 = (c1, s1)" by (cases r1)
  have ok2: "state_ok X I r2"
    using 2 ok1 placed oms_event_ok by (auto simp: r1 split: option.splits)
  show ?thesis using 3 ok2 by (auto dest: run_pricer_ok split: option.splits)
qed

lemma publish_ok:
  assumes "publish_quotes X P source f symbol exch r = Inr r'" "state_ok X I r"
  shows "state_ok X I r'"
proof (cases r)
  case (Pair c s)
  from assms show ?thesis
    by (auto simp: Pair publish_quotes_def Let_def split: if_splits option.splits prod.splits elim!: run_pricer_ok)
qed

lemma event_ok:
  assumes run: "strategy_event X flag P ev r = Inr r'" and ok: "state_ok X I r" and ev: "client_event_ok X ev r"
  shows "state_ok X I r'"
proof -
  obtain c s where r: "r = (c, s)" by (cases r)
  from run obtain r1 where 1: "strategy_dispatch X flag P ev (c, s) = Inr r1" and
    2: "(case ev_value ev of
          V_Top_Of_Book symbol exch l \<Rightarrow> publish_quotes X P BQS_TOP_OF_BOOK (set_top_of_book l) symbol exch
        | V_Market_By_Price symbol exch ls \<Rightarrow> publish_quotes X P BQS_MARKET_BY_PRICE (set_first_layer ls) symbol exch
        | _ \<Rightarrow> Inr) r1 = Inr r'"
    by (auto simp: strategy_event_def res_simps r)
  have "state_ok X I r1" by (rule dispatch_ok [OF 1]) (use ok ev in \<open>simp_all add: r\<close>)
  with 2 show ?thesis by (auto split: client_value.splits elim: publish_ok)
qed

lemma reachable_ok: "strategy_reachable X flag P I r \<Longrightarrow> state_ok X I r"
proof (induction rule: strategy_reachable.induct)
  case (start c gws)
  then show ?case
    by (simp add: oms_wf_initial) (simp add: initial_oms_def safe_def ids_below_def hd.find_empty)
next
  case (event r ev r')
  from event_ok [OF event.hyps(3) event.IH event.hyps(2)] show ?case .
qed

end

interpretation lqs_contract: handler_contract X "lqs_handle (x_layout X) (on_target_quotes X)" pricer_wf for X :: "'g ext"
proof
  fix h p and c c' :: "('g, lqs_pricer) app" and s p' s'
  assume "lqs_handle (x_layout X) (on_target_quotes X) h (p, c, s) = Inr (p', c', s')" "pricer_wf p" "oms_wf s"
    "safe X (c_gateways c) s"
  from keeps_pricerD [OF lq.lqs_handle_keeps this(1,2)] this(3,4) pricer_step_wf
  show "pricer_wf p' \<and> oms_wf s' \<and> safe X (c_gateways c') s'" by auto
qed


section \<open>The program\<close>

text \<open>
  In every state the program reaches, through whatever events and callbacks between the core,
  the order manager and the pricer, the index of live orders agrees with the books, no identifier in
  use is above the counter while a gateway can take orders, and the strategies of the pricer are
  well-formed.
\<close>

theorem program_invariant:
  assumes "strategy_reachable X flag (lqs_handle (x_layout X) (on_target_quotes X)) pricer_wf (c, s)"
  shows "pricer_wf (a_pricer c) \<and> oms_wf s \<and> safe X (c_gateways c) s"
  using lqs_contract.reachable_ok [OF assms] by simp


subsection \<open>A run\<close>

definition run_core :: "(unit, lqs_pricer) app" where
  "run_core =
     \<lparr>c_gateways = demo_gateways,
      c_markets = demo_markets\<lparr>market_by_id :=
        [(1, demo_info\<lparr>info_mdata_gateway_id := 0, info_best_quotes_source := BQS_MARKET_BY_PRICE\<rparr>)]\<rparr>,
      c_portfolios = demo_portfolios, c_best_quotes = [],
      a_config = \<lparr>cfg_parameters = [], cfg_is_downloading = False, cfg_start_time = 0\<rparr>, a_pricer = demo_pricer True\<rparr>"

definition book_event :: "unit client_event" where
  "book_event =
     \<lparr>ev_info = \<lparr>mi_source = 0, mi_source_name = ''g''\<rparr>, ev_gateway = Some (\<lambda>g. (g, True)),
      ev_value = V_Market_By_Price ''s'' ''e''
        [\<lparr>ly_bid_price = Fin 100, ly_bid_quantity = Fin 1, ly_ask_price = Fin 101, ly_ask_quantity = Fin 1\<rparr>]\<rparr>"

lemmas strategy_eval =
  strategy_event_def strategy_dispatch_def core_event_def gateways_event_def gateway_event_def emplace_gateway_def
  config_event_def oms_event_of_def pricer_event_of_def publish_quotes_def core_is_ready_def get_gateway_def
  hash_get_value_def gw_is_ready_def gw_is_downloading_def bq_emplace_quotes_def set_first_layer_def run_pricer_def
  get_market_ident_def

lemma run_ok:
  "\<exists>c' s'. strategy_event plain_ext False (lqs_handle (x_layout plain_ext) (on_target_quotes plain_ext)) book_event
     (run_core, start_oms) = Inr (c', s') \<and> map (is_create \<circ> fst) (sent_requests s') = [True]"
  by (simp add: book_event_def run_core_def strategy_eval run_eval leg_eval quotes_eval get_source_def
      get_trade_gateway_def get_market_def double_compare_nan process_eval hash_eval demo_eval cong: eval_congs)


lemma run_start: "strategy_reachable X flag P pricer_wf (run_core, start_oms)"
  unfolding start_oms_def by (rule strategy_reachable.start) (simp add: run_core_def demo_pricer_wf)

theorem program_invariant_witness:
  "\<exists>c' s'. strategy_event plain_ext False (lqs_handle (x_layout plain_ext) (on_target_quotes plain_ext)) book_event
     (run_core, start_oms) = Inr (c', s') \<and> sent_requests s' \<noteq> [] \<and> oms_wf s' \<and> pricer_wf (a_pricer c')"
proof -
  obtain c' s' where r: "strategy_event plain_ext False (lqs_handle (x_layout plain_ext) (on_target_quotes plain_ext)) book_event
     (run_core, start_oms) = Inr (c', s')" "map (is_create \<circ> fst) (sent_requests s') = [True]"
    using run_ok by metis
  have "client_event_ok plain_ext book_event (run_core, start_oms)"
    using start_oms_ok(2) by (simp add: client_event_ok_def book_event_def)
  from strategy_reachable.event [OF run_start this r(1)]
  have "strategy_reachable plain_ext False (lqs_handle (x_layout plain_ext) (on_target_quotes plain_ext)) pricer_wf (c', s')" .
  from program_invariant [OF this] r show ?thesis by auto
qed


section \<open>Quotes\<close>

text \<open>
  C34: the two sources of quotes, top of book and the first layer of the market by price, give the
  same cached quotes exactly when the bid and the ask show the same quantity and the sell side
  already has it: the handler of the top of book writes the quantity of the ask over the volume of
  the buy side and never sets the volume of the sell side.
\<close>

theorem top_of_book_agrees_iff:
  "set_top_of_book l b = set_first_layer [l] b \<longleftrightarrow>
     ly_bid_quantity l = ly_ask_quantity l \<and> eq_volume (bq_sell b) = ly_ask_quantity l"
  by (cases b; cases "bq_sell b"; cases "bq_buy b") (auto simp: set_top_of_book_def set_first_layer_def Let_def)

end
