(* ===== verification/Oms_Target.thy ===== *)
theory Oms_Target
  imports Oms_Requests
begin

text \<open>
  What it means that \<open>Manager::process\<close> has nothing to do: on a book where nothing is in flight it
  sends a request exactly when the orders are not at the target.  So the order manager does not rest
  before the target is met, and does not disturb orders that meet it.
\<close>

section \<open>Targets of the levels\<close>

definition level_aim :: "side \<Rightarrow> level_ident \<Rightarrow> book \<Rightarrow> double" where
  "level_aim side i b = (case hfind (side_levels side b) i of None \<Rightarrow> Fin 0 | Some l \<Rightarrow> lv_target_quantity l)"

lemma level_aim_put_levels:
  "side \<noteq> SIDE_UNDEFINED \<Longrightarrow>
     level_aim sd i (put_levels side ls b) =
       (if sd = side then (case hfind ls i of None \<Rightarrow> Fin 0 | Some l \<Rightarrow> lv_target_quantity l) else level_aim sd i b)"
  by (simp add: level_aim_def side_levels_put_levels)

lemma level_aim_bump [simp]: "level_aim sd i (bump_pending s b) = level_aim sd i b"
  by (cases sd) (simp_all add: level_aim_def side_levels_def bump_pending_def)

lemma level_aim_pending [simp]: "level_aim sd i (b\<lparr>b_pending := p\<rparr>) = level_aim sd i b"
  by (cases sd) (simp_all add: level_aim_def side_levels_def)

lemma emplace_level_aim:
  assumes run: "emplace_level X s p b = Inr (i, l, new, b')" and wf: "levels_wf b"
  shows "level_aim sd j b' = level_aim sd j b \<and> lv_target_quantity l = level_aim s i b"
proof -
  have s: "s \<noteq> SIDE_UNDEFINED" and i: "level_index p (b_tick_size b) = Some i"
    using run by (auto simp: emplace_level_def res_simps get_levels_Inr Let_def split: option.splits)
  note find = hd.find_put [OF levels_wf_side [OF wf, of s]]
  show ?thesis
  proof (cases "hfind (side_levels s b) i")
    case None
    with run s i have "b' = put_levels s (hput (x_layout X) i (default_level\<lparr>lv_price := p\<rparr>) (side_levels s b)) b"
      "l = default_level\<lparr>lv_price := p\<rparr>"
      by (auto simp: emplace_level_def res_simps get_levels_side Let_def)
    with None show ?thesis by (simp add: level_aim_put_levels [OF s] find default_level_def) (simp add: level_aim_def)
  next
    case (Some l0)
    with run s i show ?thesis by (auto simp: emplace_level_def res_simps get_levels_side level_aim_def)
  qed
qed

lemma put_level_aim:
  assumes "s \<noteq> SIDE_UNDEFINED" "hfind (side_levels s b) i = Some l0" "lv_target_quantity l = lv_target_quantity l0"
  shows "level_aim sd j (put_level s i l b) = level_aim sd j b"
  unfolding put_level_levels level_aim_put_levels [OF assms(1)]
  using assms by (simp add: hfind_hset_Some level_aim_def)

lemma accumulate_order_aim:
  assumes run: "accumulate_order X ord b = Inr b'" and wf: "levels_wf b"
  shows "level_aim sd i b' = level_aim sd i b"
proof (cases "is_done ord")
  case True
  with run show ?thesis by (simp add: accumulate_order_def)
next
  case False
  let ?b1 = "if is_pending ord then bump_pending (o_side ord) b else b"
  have wf1: "levels_wf ?b1" using wf by (simp add: levels_wf_def bump_pending_def)
  from run False obtain j l new b2 where
    e: "emplace_level X (o_side ord) (ov_price (o_expected ord)) ?b1 = Inr (j, l, new, b2)"
    and b': "b' = put_level (o_side ord) j
                  (l\<lparr>lv_expected_quantity := lv_expected_quantity l + ov_quantity (o_expected ord),
                     lv_confirmed_quantity := lv_confirmed_quantity l + ov_quantity (o_confirmed ord)\<rparr>) b2"
    by (auto simp: accumulate_order_def Let_def res_simps)
  from emplace_level_quantity(1,3) [OF e wf1] emplace_level_aim [OF e wf1, of sd i] show ?thesis
    by (simp add: b' put_level_aim)
qed

lemma accumulate_loop_keeps:
  assumes "rfold (\<lambda>(_, ord). accumulate_order X ord) os b = Inr b'" "levels_wf b"
  shows "levels_wf b' \<and> (\<forall>sd i. level_aim sd i b' = level_aim sd i b)"
  using assms(1) by (rule rfold_invariant) (use assms(2) in \<open>auto simp: accumulate_order_aim accumulate_order_quantity\<close>)

lemma accumulate_orders_keeps:
  assumes "accumulate_orders X b = Inr b'" "levels_wf b"
  shows "levels_wf b' \<and> level_aim sd i b' = level_aim sd i b"
  using accumulate_loop_keeps [OF assms(1) [unfolded accumulate_orders_def]] assms(2) by (simp add: levels_wf_def)


section \<open>The scan\<close>

text \<open>An order on a level that expects more than its target.\<close>

definition overfull :: "'g ext \<Rightarrow> book \<Rightarrow> oms_order \<Rightarrow> bool" where
  "overfull X b ord \<longleftrightarrow>
     (\<exists>i. level_index (ov_price (o_expected ord)) (b_tick_size b) = Some i \<and>
        x_compare X (level_quantity (o_side ord) i b) (level_aim (o_side ord) i b) = Greater)"

lemma request_grows:
  "modify_order X gws k ord q p (b, s) = Inr (b', s') \<Longrightarrow> length (sent_requests s) < length (sent_requests s')"
  "cancel_order X gws k ord (b, s) = Inr (b', s') \<Longrightarrow> length (sent_requests s) < length (sent_requests s')"
  by (auto simp: modify_order_def cancel_order_def send_request_def Let_def res_simps split: option.splits)

lemma scan_orders_decides:
  assumes run: "scan_orders X gws os (b, s) = Inr (again, b', s')" and "levels_wf b"
    and idle: "\<forall>(k, ord)\<in>set os. can_cancel ord"
  shows "if \<exists>(k, ord)\<in>set os. overfull X b ord then again \<and> length (sent_requests s) < length (sent_requests s')
    else \<not> again \<and> s' = s \<and> levels_wf b' \<and>
      (\<forall>sd i. level_quantity sd i b' = level_quantity sd i b \<and> level_aim sd i b' = level_aim sd i b)"
  using run assms(2) idle
proof (induction os arbitrary: b)
  case Nil
  then show ?case by simp
next
  case (Cons e os)
  obtain k ord where e: "e = (k, ord)" by (cases e)
  from Cons.prems(1) e obtain i l new b1 where
    lev: "emplace_level X (o_side ord) (ov_price (o_expected ord)) b = Inr (i, l, new, b1)"
    by (auto simp: res_simps)
  note q = emplace_level_quantity [OF lev Cons.prems(2)] and a = emplace_level_aim [OF lev Cons.prems(2)]
  have tick: "b_tick_size b1 = b_tick_size b" using emplace_level_frame [OF lev] by (rule same_frame_tick)
  have over: "overfull X b1 o' = overfull X b o'" for o' using q(4) a by (simp add: overfull_def tick)
  have here: "overfull X b ord \<longleftrightarrow> x_compare X (lv_expected_quantity l) (lv_target_quantity l) = Greater"
    using q(2,6) a by (simp add: overfull_def)
  show ?case
  proof (cases "overfull X b ord")
    case True
    with Cons.prems(1,3) e lev here show ?thesis
      by (auto simp: res_simps Let_def request_grows split: option.splits prod.splits if_splits)
  next
    case False
    with Cons.prems(1) e lev here have "scan_orders X gws os (b1, s) = Inr (again, b', s')" by (simp add: res_simps)
    from Cons.IH [OF this q(5)] Cons.prems(3) False q(4) a e show ?thesis by (simp add: over)
  qed
qed

lemma process_again_grows:
  assumes "process_again X gws (b, s) = Inr (b', s')"
  shows "length (sent_requests s) \<le> length (sent_requests s')"
proof -
  let ?I = "\<lambda>r. length (sent_requests s) \<le> length (sent_requests (snd r))"
  have "step_ok ?I X gws" by (fastforce simp: step_ok_def dest: request_grows)
  from process_again_invariant [OF this assms] show ?thesis by simp
qed


section \<open>What is missing\<close>

lemma missing_empty:
  assumes "levels_wf b" "compare_ok X" and idle: "\<And>sd. pending_of sd b = 0"
  shows "missing X info b = [] \<longleftrightarrow>
    (\<forall>side\<in>{BUY, SELL}. \<forall>i. x_compare X (level_aim side i b) (level_quantity side i b) = Greater \<longrightarrow>
       dlt (level_aim side i b - level_quantity side i b) (info_min_trade_vol info))"
proof -
  have none: "x_compare X (Fin 0) (Fin 0) \<noteq> Greater" using compare_refl [OF assms(2), of "Fin 0"] by simp
  have can: "can_create b info t \<longleftrightarrow> \<not> dlt (to_quantity t) (info_min_trade_vol info)" for t
    by (simp add: can_create_def is_throttled_def idle)
  have side: "missing_on X info b side (side_levels side b) = [] \<longleftrightarrow>
    (\<forall>i. x_compare X (level_aim side i b) (level_quantity side i b) = Greater \<longrightarrow>
       dlt (level_aim side i b - level_quantity side i b) (info_min_trade_vol info))" for side
  proof -
    have "missing_on X info b side (side_levels side b) = [] \<longleftrightarrow>
      (\<forall>i l. hfind (side_levels side b) i = Some l \<longrightarrow>
         x_compare X (lv_target_quantity l) (lv_expected_quantity l) = Greater \<longrightarrow>
         dlt (lv_target_quantity l - lv_expected_quantity l) (info_min_trade_vol info))"
      by (auto simp: missing_on_def filter_empty_conv can level_target_def hd.in_entries [OF levels_wf_side [OF assms(1)]])
    also have "\<dots> \<longleftrightarrow> (\<forall>i. x_compare X (level_aim side i b) (level_quantity side i b) = Greater \<longrightarrow>
       dlt (level_aim side i b - level_quantity side i b) (info_min_trade_vol info))"
      using none by (auto simp: level_aim_def level_quantity_def split: option.splits)
    finally show ?thesis .
  qed
  from side [of BUY] side [of SELL] show ?thesis by (simp add: missing_def side_levels_def)
qed


section \<open>The order manager rests at the target\<close>

text \<open>
  At the target: on every level of a side what is expected is not short of the target by the smallest
  quantity or more, and no order stands on a level where more than the target is expected.
\<close>

definition expected_at :: "book \<Rightarrow> side \<Rightarrow> level_ident \<Rightarrow> double" where
  "expected_at b side i = expected_on (b_tick_size b) side i (b_orders b) (Fin 0)"

definition at_target :: "'g ext \<Rightarrow> info \<Rightarrow> book \<Rightarrow> bool" where
  "at_target X info b \<longleftrightarrow>
     (\<forall>side\<in>{BUY, SELL}. \<forall>i. x_compare X (level_aim side i b) (expected_at b side i) = Greater \<longrightarrow>
        dlt (level_aim side i b - expected_at b side i) (info_min_trade_vol info)) \<and>
     (\<forall>(k, ord)\<in>set (b_orders b). \<forall>i. level_index (ov_price (o_expected ord)) (b_tick_size b) = Some i \<longrightarrow>
        x_compare X (expected_at b (o_side ord) i) (level_aim (o_side ord) i b) \<noteq> Greater)"

lemma level_aim_reset [simp]: "level_aim sd i (reset_levels b) = level_aim sd i b"
proof -
  have "hfind (map (\<lambda>(i, l). (i, l\<lparr>lv_expected_quantity := Fin 0, lv_confirmed_quantity := Fin 0\<rparr>)) ls) i =
      map_option (\<lambda>l. l\<lparr>lv_expected_quantity := Fin 0, lv_confirmed_quantity := Fin 0\<rparr>) (hfind ls i)" for ls :: levels
    by (induction ls) (auto simp: hfind_def)
  then show ?thesis
    by (cases sd) (auto simp: level_aim_def side_levels_def reset_levels_def Let_def hd.find_empty split: option.splits)
qed

lemma resolve_keeps_levels:
  "resolve_trade_gateway gws s b = (r, bg) \<Longrightarrow> b_bids bg = b_bids b \<and> b_asks bg = b_asks b"
  by (auto simp: resolve_trade_gateway_def Let_def split: if_splits)

lemma idle_no_flight: "\<forall>(k, ord)\<in>set os. can_cancel ord \<Longrightarrow> in_flight sd os = 0"
  by (auto simp: in_flight_def filter_empty_conv dest: can_cancel_idle)

lemma process_ready_cases:
  assumes run: "process X gws info (b, s) = Inr (b', s')"
    and ready: "b_account b \<noteq> []" "b_tick_size b = info_tick_size info" "\<not> isnan (info_tick_size info)" "b_ban_until b \<le> oms_now s"
    and gateway: "resolve_trade_gateway gws s b = (True, bg)"
      "gw_is_ready_account X {ST_CREATE_ORDER, ST_CANCEL_ORDER} (b_trade_gateway_id bg) (b_account b) gws"
  obtains b1 s1 b2 where "process_again X gws (reset_levels (bg\<lparr>b_ban_until := 0\<rparr>), s) = Inr (b1, s1)"
    "create_orders X gws info (b1, s1) = Inr (b2, s')" "erase_empty_levels X b2 = Inr b'"
proof -
  note keep = resolve_trade_gateway_keeps [OF gateway(1)]
  have "set_tick_size (info_tick_size info) bg = Inr b2 \<Longrightarrow> b2 = bg" for b2
    using ready(2,3) keep by (auto simp: set_tick_size_def double_empty_def Let_def res_simps)
  with run ready gateway keep that show thesis by (auto simp: process_def res_simps)
qed

lemma process_rests:
  assumes run: "process X gws info (b, s) = Inr (b', s')" and ok: "keys_ok b" "levels_wf b" "compare_ok X"
    and ready: "b_account b \<noteq> []" "b_tick_size b = info_tick_size info" "\<not> isnan (info_tick_size info)" "b_ban_until b \<le> oms_now s"
    and gateway: "resolve_trade_gateway gws s b = (True, bg)"
      "gw_is_ready_account X {ST_CREATE_ORDER, ST_CANCEL_ORDER} (b_trade_gateway_id bg) (b_account b) gws"
    and idle: "\<forall>(k, ord)\<in>set (b_orders b). can_cancel ord"
  shows "sent_requests s' = sent_requests s \<longleftrightarrow> at_target X info b"
proof -
  obtain b1 s1 b2 where pa: "process_again X gws (reset_levels (bg\<lparr>b_ban_until := 0\<rparr>), s) = Inr (b1, s1)"
    and cr: "create_orders X gws info (b1, s1) = Inr (b2, s')"
    using process_ready_cases [OF run ready gateway] by metis
  let ?b = "bg\<lparr>b_ban_until := 0\<rparr>"
  note keep = resolve_trade_gateway_keeps [OF gateway(1)] resolve_keeps_levels [OF gateway(1)]
  have b: "b_orders ?b = b_orders b" "b_tick_size ?b = b_tick_size b" "levels_wf ?b" "keys_ok ?b"
    "\<And>sd i. level_aim sd i ?b = level_aim sd i b"
    using keep ok(1,2) by (auto simp: levels_wf_def keys_ok_def level_aim_def side_levels_def cong: side.case_cong)
  from pa obtain ba again r where acc: "accumulate_orders X (reset_levels ?b) = Inr ba"
    and sc: "scan_orders X gws (b_orders ba) (ba, s) = Inr (again, r)"
    and rest: "(if again then process_again X gws r else Inr r) = Inr (b1, s1)"
    unfolding process_again.simps [of X gws "reset_levels ?b" s] by (auto simp: res_simps)
  obtain br sr where r: "r = (br, sr)" by (cases r)
  have ords: "b_orders ba = b_orders b" using accumulate_orders_orders [OF acc] b(1) by (simp add: reset_levels_keeps)
  have tick: "b_tick_size ba = b_tick_size b"
    using same_frame_tick [OF accumulate_orders_frame [OF acc]] b(2) by (simp add: reset_levels_keeps)
  have q: "level_quantity sd i ba = expected_at b sd i" for sd i
    using accumulate_reset_quantity [OF acc b(3)] b(1,2) by (simp add: expected_at_def)
  have a: "levels_wf ba" "level_aim sd i ba = level_aim sd i b" for sd i
    using accumulate_orders_keeps [OF acc levels_wf_reset [OF b(3)]] b(5) by simp_all
  have over: "overfull X ba ord \<longleftrightarrow> (\<exists>i. level_index (ov_price (o_expected ord)) (b_tick_size b) = Some i \<and>
      x_compare X (expected_at b (o_side ord) i) (level_aim (o_side ord) i b) = Greater)" for ord
    by (simp add: overfull_def tick q a)
  note decided = scan_orders_decides [OF sc [unfolded r] a(1) idle [folded ords]]
  have "hwf (b_orders b1)"
    using process_again_sent [OF pa] b(4) by (simp add: keys_ok_def reset_levels_keeps)
  from create_orders_sent [OF cr this] have sent:
    "sent_requests s' = sent_requests s1 @ numbered_creates b1 (max_order_id s1) (missing X info b1)"
    by (simp add: creates_sent_def Let_def)
  show ?thesis
  proof (cases "\<exists>(k, ord)\<in>set (b_orders ba). overfull X ba ord")
    case True
    with decided have again: again "length (sent_requests s) < length (sent_requests sr)" by auto
    with rest r process_again_grows have "length (sent_requests sr) \<le> length (sent_requests s1)" by auto
    with again sent have "length (sent_requests s) < length (sent_requests s')" by simp
    then have "sent_requests s' \<noteq> sent_requests s" by auto
    moreover have "\<not> at_target X info b" using True by (fastforce simp: at_target_def ords over)
    ultimately show ?thesis by simp
  next
    case False
    with decided rest r have s1: "s1 = s" and b1: "levels_wf b1"
      "\<And>sd i. level_quantity sd i b1 = expected_at b sd i" "\<And>sd i. level_aim sd i b1 = level_aim sd i b"
      and sc': "scan_orders X gws (b_orders ba) (ba, s) = Inr (False, b1, s1)"
      using sc q a by auto
    have "pending_of sd b1 = 0" for sd
      using process_again_pending [OF pa] scan_orders_end [OF sc'] idle_no_flight [OF idle] by (simp add: ords)
    from missing_empty [OF b1(1) ok(3) this] False have "missing X info b1 = [] \<longleftrightarrow> at_target X info b"
      by (auto simp: at_target_def b1 ords over)
    moreover have "numbered_creates b1 n ts = [] \<longleftrightarrow> ts = []" for n ts by (cases ts) simp_all
    ultimately show ?thesis using sent s1 by simp
  qed
qed

lemma book_ok_keys: "book_ok X tick ps b \<Longrightarrow> keys_ok b \<and> levels_wf b"
  by (auto simp: book_ok_def keys_ok_def levels_wf_def list_all_iff order_ok_def)

text \<open>
  C5: the order manager rests exactly at the target.  On a well-formed book with an account, on the
  tick grid of its market, not banned, whose gateway is resolved, ready to create and cancel, and
  supports modifications, and where every order is confirmed with nothing in flight (the dispatcher
  does not throw, the comparison with tolerance says "greater" only of greater numbers, identifiers
  are left), \<open>Manager::process\<close> returns; it sends at least one request unless the orders are at the
  target, and
  none if they are: on no level of either side is the target more than what is expected (but for less
  than the smallest quantity), and no order stands on a level where more than the target is expected.
\<close>

theorem process_rests_at_target:
  assumes book: "book_ok X (info_tick_size info) ps b" "b_tick_size b = info_tick_size info"
    and world: "requests_supported X gws (b_account b)" "sends_ok X" "compare_ok X"
    and ids: "ids_ok (b, s)" "unat (max_order_id s) + 2 * length ps < 2 ^ 64"
    and ready: "b_account b \<noteq> []" "b_ban_until b \<le> oms_now s"
    and gateway: "resolve_trade_gateway gws s b = (True, bg)"
      "gw_is_ready_account X {ST_CREATE_ORDER, ST_CANCEL_ORDER} (b_trade_gateway_id bg) (b_account b) gws"
    and idle: "\<forall>(k, ord)\<in>set (b_orders b). can_cancel ord"
  shows "\<exists>b' s'. process X gws info (b, s) = Inr (b', s') \<and>
    (sent_requests s' = sent_requests s \<longleftrightarrow> at_target X info b)"
proof -
  obtain b' s' where run: "process X gws info (b, s) = Inr (b', s')"
    using process_total [OF book(1) disjI1 [OF book(2)] refl world ids] by blast
  have "\<not> isnan (info_tick_size info)" using book(1) by (simp add: book_ok_def price_grid_def)
  with process_rests [OF run _ _ world(3) ready(1) book(2) _ ready(2) gateway idle] book_ok_keys [OF book(1)] run
  show ?thesis by blast
qed


section \<open>Example\<close>

text \<open>The target of 5 at 101 and one order that meets it.\<close>

definition rest_book :: book where
  "rest_book = demo_book\<lparr>b_orders := [(2, live_order 2 BUY (Fin 101) (Fin 5))]\<rparr>"

lemma rest_book_ok: "book_ok plain_ext (info_tick_size demo_info) [Fin 100, Fin 101] rest_book"
  by (simp add: book_ok_def price_grid_def order_ok_def level_ok_def hash_eval demo_eval level_index_def
      zero_double_def rest_book_def)

lemma rest_book_run:
  "\<exists>b' s'. process plain_ext demo_gateways demo_info (rest_book, demo_oms) = Inr (b', s') \<and> sent_requests s' = []"
  by (simp add: process_eval hash_eval demo_eval rest_book_def)

theorem process_rests_at_target_witness: "at_target plain_ext demo_info rest_book"
proof -
  obtain bg where g: "resolve_trade_gateway demo_gateways demo_oms rest_book = (True, bg)"
    by (simp add: resolve_trade_gateway_def hash_eval demo_eval rest_book_def)
  have "\<exists>b' s'. process plain_ext demo_gateways demo_info (rest_book, demo_oms) = Inr (b', s') \<and>
      (sent_requests s' = sent_requests demo_oms \<longleftrightarrow> at_target plain_ext demo_info rest_book)"
    by (rule process_rests_at_target [OF rest_book_ok _ _ _ _ _ _ _ _ g])
      (use g in \<open>auto simp: demo_eval requests_supported_def gw_is_ready_account_def hash_eval sends_ok_def
        plain_compare_ok ids_ok_def rest_book_def can_cancel_def is_pending_def resolve_trade_gateway_def\<close>)
  with rest_book_run show ?thesis by (auto simp: demo_oms_def)
qed

end
