(* ===== verification/Oms_Whole.thy ===== *)
theory Oms_Whole
  imports Oms_Target
begin

text \<open>
  Books whose quantities are whole numbers (of lots) below 2^53, where the arithmetic of doubles is
  exact: the orders on a level as a sum of natural numbers, whatever the order of the container, and
  what the requests of \<open>Manager::process\<close> do to it.
\<close>

section \<open>Counting in doubles\<close>

text \<open>
  A double that counts to \<open>n\<close>: exact below 2^53; beyond, sums are rounded, and all that is known is
  that they are at least 2^53 - 1.
\<close>

definition counts :: "double \<Rightarrow> nat \<Rightarrow> bool" where
  "counts q n \<longleftrightarrow> (if n < 2 ^ 53 then q = Fin (of_nat n) else Fin (2 ^ 53 - 1) \<le> q)"

lemma counts_exact [simp]: "n < 2 ^ 53 \<Longrightarrow> counts q n \<longleftrightarrow> q = Fin (of_nat n)"
  by (simp add: counts_def)

lemma fl_of_nat: "n < 2 ^ 53 \<Longrightarrow> fl False (of_nat n) = Fin (of_nat n)"
  using fl_of_int [of "int n" False] by simp

lemma fl_large:
  assumes "2 ^ 53 - 1 \<le> x"
  shows "Fin (2 ^ 53 - 1) \<le> fl s x"
proof -
  have "rnd (of_int (2 ^ 53 - 1)) \<le> rnd x" by (rule rnd_mono) (use assms in simp)
  then have "2 ^ 53 - 1 \<le> rnd x" using rnd_of_int [of "2 ^ 53 - 1"] by simp
  then show ?thesis by (auto simp: fl_def Let_def)
qed

lemma counts_nonneg: "counts q n \<Longrightarrow> q = Infty False \<or> (\<exists>r. q = Fin r \<and> 0 \<le> r \<and> min (of_nat n) (2 ^ 53 - 1) \<le> r)"
  by (cases q) (auto simp: counts_def split: if_splits)

lemma counts_add:
  assumes "counts q m" "counts r n"
  shows "counts (q + r) (m + n)"
proof (cases "m + n < 2 ^ 53")
  case True
  with assms fl_of_nat [OF True] show ?thesis by simp
next
  case False
  consider "q = Infty False \<or> r = Infty False"
    | x y where "q = Fin x" "r = Fin y" "0 \<le> x" "0 \<le> y" "min (of_nat m) (2 ^ 53 - 1) \<le> x" "min (of_nat n) (2 ^ 53 - 1) \<le> y"
    using counts_nonneg [OF assms(1)] counts_nonneg [OF assms(2)] by blast
  then show ?thesis
  proof cases
    case 1
    with counts_nonneg [OF assms(1)] counts_nonneg [OF assms(2)] have "q + r = Infty False" by auto
    with False show ?thesis by (simp add: counts_def)
  next
    case 2
    have "2 ^ 53 \<le> of_nat m + (of_nat n :: rat)"
      using False by (metis not_less of_nat_add of_nat_le_iff of_nat_numeral of_nat_power)
    with 2 have "2 ^ 53 - 1 \<le> x + y" by (auto simp: min_def split: if_splits)
    then have "Fin (2 ^ 53 - 1) \<le> fl False (x + y)" by (rule fl_large)
    with 2 False show ?thesis by (simp add: counts_def)
  qed
qed

lemma Fin_diff: "n \<le> m \<Longrightarrow> m < 2 ^ 53 \<Longrightarrow> Fin (of_nat m) - Fin (of_nat n) = Fin (of_nat (m - n))"
  using fl_of_nat [of "m - n"] by (auto simp: minus_double_def of_nat_diff)

text \<open>
  What is relied on of the comparison with tolerance besides \<open>compare_ok\<close>: different whole numbers
  are told apart.
\<close>

definition compare_whole :: "'g ext \<Rightarrow> bool" where
  "compare_whole X \<longleftrightarrow>
     (\<forall>m n. m < (2 :: nat) ^ 53 \<longrightarrow> n < m \<longrightarrow> x_compare X (Fin (of_nat m)) (Fin (of_nat n)) = Greater)"

lemma compare_target:
  assumes "compare_ok X" "compare_whole X" "counts q n" "t < 2 ^ 53 - 1"
  shows "x_compare X (Fin (of_nat t)) q = Greater \<longleftrightarrow> n < t"
proof
  assume "x_compare X (Fin (of_nat t)) q = Greater"
  then have "q < Fin (of_nat t)" by (rule compare_greater [OF assms(1)])
  moreover have "(of_nat t :: rat) < of_nat 9007199254740991" by (subst of_nat_less_iff) (use assms(4) in simp)
  ultimately show "n < t" using assms(3) by (cases q) (auto simp: counts_def split: if_splits)
qed (use assms in \<open>auto simp: compare_whole_def counts_def split: if_splits\<close>)

lemma compare_count:
  assumes "compare_ok X" "counts q n" "t < 2 ^ 53 - 1" "x_compare X q (Fin (of_nat t)) = Greater"
  shows "t < n"
proof -
  have "Fin (of_nat t) < q" using compare_greater [OF assms(1,4)] .
  with assms(2,3) show ?thesis by (auto simp: counts_def split: if_splits)
qed


section \<open>Sums over a hash\<close>

lemma sum_hset:
  assumes "hwf m" "hfind m k = Some v"
  shows "(\<Sum>e\<leftarrow>hset k w m. f (snd e)) + f v = (\<Sum>e\<leftarrow>m. f (snd e)) + (f w :: nat)"
  using assms
proof (induction m)
  case Nil
  then show ?case by (simp add: hfind_def)
next
  case (Cons e m)
  have rest: "hset k w m = m" if "k \<notin> set (hkeys m)"
    using that by (induction m) (auto simp: hset_def hkeys_def)
  from Cons show ?case
    by (cases e) (auto simp: hfind_def hset_def hwf_def hkeys_def rest [unfolded hset_def hkeys_def] simp del: map_map split: if_splits)
qed

lemma sum_filter:
  assumes "hwf m" "hfind m k = Some v"
  shows "(\<Sum>e\<leftarrow>filter (\<lambda>e. fst e \<noteq> k) m. f (snd e)) + f v = (\<Sum>e\<leftarrow>m. f (snd e) :: nat)"
  using assms
proof (induction m)
  case Nil
  then show ?case by (simp add: hfind_def)
next
  case (Cons e m)
  have rest: "filter (\<lambda>e. fst e \<noteq> k) m = m" if "k \<notin> set (hkeys m)"
    using that by (induction m) (auto simp: hkeys_def)
  from Cons show ?case
    by (cases e) (auto simp: hfind_def hwf_def hkeys_def rest [unfolded hkeys_def] split: if_splits)
qed

lemma sum_mset_list: "mset xs = mset ys \<Longrightarrow> (\<Sum>x\<leftarrow>xs. f x :: nat) = (\<Sum>x\<leftarrow>ys. f x)"
  using arg_cong [where f = "\<lambda>m. \<Sum>x\<in>#m. f x"] by (simp flip: sum_mset_sum_list)

lemma sum_herase:
  assumes "hwf m" "hfind m k = Some v"
  shows "(\<Sum>e\<leftarrow>herase L k m. f (snd e)) + f v = (\<Sum>e\<leftarrow>m. f (snd e) :: nat)"
proof -
  have "k \<in> set (hkeys m)" using assms(2) by (metis hfind_None option.distinct(1))
  then have "mset (herase L k m) = mset (filter (\<lambda>e. fst e \<noteq> k) m)" by (simp add: herase_def)
  from sum_mset_list [OF this] sum_filter [OF assms] show ?thesis by metis
qed


section \<open>Orders in whole numbers\<close>

definition amount :: "oms_order \<Rightarrow> nat" where
  "amount ord = nat \<lfloor>rval (ov_quantity (o_expected ord))\<rfloor>"

definition whole_order :: "oms_order \<Rightarrow> bool" where
  "whole_order ord \<longleftrightarrow>
     ov_quantity (o_expected ord) = Fin (of_nat (amount ord)) \<and> amount ord < 2 ^ 53 \<and>
     \<not> is_done ord \<and> isfin (o_traded_quantity ord) \<and>
     (ov_type (o_pending ord) = CANCEL_ORDER \<longrightarrow> amount ord = 0) \<and>
     (is_pending ord \<or> ov_version (o_confirmed ord) \<noteq> 0)"

definition stands :: "double \<Rightarrow> side \<Rightarrow> level_ident \<Rightarrow> oms_order \<Rightarrow> bool" where
  "stands tick side i ord \<longleftrightarrow> o_side ord = side \<and> level_index (ov_price (o_expected ord)) tick = Some i"

definition share :: "double \<Rightarrow> side \<Rightarrow> level_ident \<Rightarrow> oms_order \<Rightarrow> nat" where
  "share tick side i ord = (if stands tick side i ord then amount ord else 0)"

definition level_sum :: "double \<Rightarrow> (order_ident, oms_order) hash \<Rightarrow> side \<Rightarrow> level_ident \<Rightarrow> nat" where
  "level_sum tick os side i = (\<Sum>e\<leftarrow>os. share tick side i (snd e))"

lemma level_sum_simps [simp]:
  "level_sum tick [] side i = 0"
  "level_sum tick (e # os) side i = share tick side i (snd e) + level_sum tick os side i"
  "level_sum tick (os @ os') side i = level_sum tick os side i + level_sum tick os' side i"
  by (simp_all add: level_sum_def)

lemma level_sum_reorder [simp]: "level_sum tick (reorder L os) side i = level_sum tick os side i"
  unfolding level_sum_def by (rule sum_mset_list) simp

lemma level_sum_hset:
  "hwf os \<Longrightarrow> hfind os k = Some ord \<Longrightarrow>
     level_sum tick (hset k ord' os) side i + share tick side i ord = level_sum tick os side i + share tick side i ord'"
  unfolding level_sum_def by (rule sum_hset)

lemma level_sum_hput:
  "hfind os k = None \<Longrightarrow> level_sum tick (hput L k ord os) side i = level_sum tick os side i + share tick side i ord"
  by (simp add: hput_def hfind_None)

lemma level_sum_herase:
  "hwf os \<Longrightarrow> hfind os k = Some ord \<Longrightarrow>
     level_sum tick (herase L k os) side i + share tick side i ord = level_sum tick os side i"
  unfolding level_sum_def by (rule sum_herase)

text \<open>The code's sum over the orders of a level counts to this sum.\<close>

lemma expected_on_counts:
  assumes "list_all (whole_order \<circ> snd) os" "counts q n"
  shows "counts (expected_on tick side i os q) (n + level_sum tick os side i)"
  using assms
proof (induction os arbitrary: q n)
  case Nil
  then show ?case by (simp add: expected_on_def)
next
  case (Cons e os)
  obtain k ord where e: "e = (k, ord)" by (cases e)
  have w: "whole_order ord" and os: "list_all (whole_order \<circ> snd) os" using Cons.prems(1) e by (simp_all add: comp_def)
  have "counts (ov_quantity (o_expected ord)) (amount ord)" using w by (simp add: whole_order_def)
  with Cons.prems(2) w have "counts (expected_on tick side i [e] q) (n + share tick side i ord)"
    by (auto simp: expected_on_def e share_def stands_def whole_order_def intro: counts_add)
  from Cons.IH [OF os this] show ?case by (simp add: expected_on_Cons [of _ _ _ "(k, ord)" os] e add.assoc)
qed



section \<open>Orders on levels that hold too much\<close>

text \<open>
  An order that is not being canceled and stands on a level where the orders sum up to more than the
  target \<open>T\<close>.
\<close>

definition excess :: "(side \<Rightarrow> level_ident \<Rightarrow> nat) \<Rightarrow> double \<Rightarrow> (order_ident, oms_order) hash \<Rightarrow> order_ident \<Rightarrow> bool" where
  "excess T tick os k \<longleftrightarrow>
     (\<exists>ord i. hfind os k = Some ord \<and> ov_type (o_pending ord) \<noteq> CANCEL_ORDER \<and>
        level_index (ov_price (o_expected ord)) tick = Some i \<and>
        T (o_side ord) i < level_sum tick os (o_side ord) i)"

text \<open>What every request does: no level grows beyond its target, and no order gets in excess.\<close>

definition eases ::
  "(side \<Rightarrow> level_ident \<Rightarrow> nat) \<Rightarrow> double \<Rightarrow> (order_ident, oms_order) hash \<Rightarrow> (order_ident, oms_order) hash \<Rightarrow> bool" where
  "eases T tick os os' \<longleftrightarrow>
     (\<forall>side i. level_sum tick os' side i \<le> max (level_sum tick os side i) (T side i)) \<and>
     (\<forall>k. excess T tick os' k \<longrightarrow> excess T tick os k)"

lemma eases_refl [simp]: "eases T tick os os"
  by (simp add: eases_def)

lemma eases_trans [trans]: "eases T tick os os1 \<Longrightarrow> eases T tick os1 os2 \<Longrightarrow> eases T tick os os2"
  unfolding eases_def by (meson le_max_iff_disj order_trans)

text \<open>An order that is being canceled, or that fits into the room of its level.\<close>

definition fits :: "(side \<Rightarrow> level_ident \<Rightarrow> nat) \<Rightarrow> double \<Rightarrow> (order_ident, oms_order) hash \<Rightarrow> oms_order \<Rightarrow> bool" where
  "fits T tick os ord \<longleftrightarrow>
     (amount ord = 0 \<and> ov_type (o_pending ord) = CANCEL_ORDER) \<or>
     (\<exists>i n. level_index (ov_price (o_expected ord)) tick = Some i \<and> level_sum tick os (o_side ord) i \<le> n \<and>
        n < T (o_side ord) i \<and> amount ord = T (o_side ord) i - n)"

lemma share_fits:
  "fits T tick os ord \<Longrightarrow> level_sum tick os side i + share tick side i ord \<le> max (level_sum tick os side i) (T side i)"
  by (auto simp: fits_def share_def stands_def)

lemma fits_no_excess:
  assumes "fits T tick os ord" "hfind os' k = Some ord"
    and "\<And>side i. level_sum tick os' side i \<le> level_sum tick os side i + share tick side i ord"
  shows "\<not> excess T tick os' k"
proof
  assume "excess T tick os' k"
  then obtain i where i: "ov_type (o_pending ord) \<noteq> CANCEL_ORDER" "level_index (ov_price (o_expected ord)) tick = Some i"
    "T (o_side ord) i < level_sum tick os' (o_side ord) i"
    using assms(2) by (auto simp: excess_def)
  with assms(1) assms(3) [of "o_side ord" i] show False by (fastforce simp: fits_def share_def stands_def)
qed

lemma eases_step:
  assumes "fits T tick os ord" "hfind os' = (hfind os)(k \<mapsto> ord)"
    and "\<And>side i. level_sum tick os' side i \<le> level_sum tick os side i + share tick side i ord"
  shows "eases T tick os os' \<and> \<not> excess T tick os' k"
proof -
  have no: "\<not> excess T tick os' k" by (rule fits_no_excess [OF assms(1) _ assms(3)]) (simp add: assms(2))
  have le: "level_sum tick os' side i \<le> max (level_sum tick os side i) (T side i)" for side i
    using assms(3) share_fits [OF assms(1)] by (rule order_trans)
  have "excess T tick os l" if "excess T tick os' l" for l
  proof -
    from that no have "l \<noteq> k" by auto
    with that assms(2) obtain o' i where o: "hfind os l = Some o'" "ov_type (o_pending o') \<noteq> CANCEL_ORDER"
      "level_index (ov_price (o_expected o')) tick = Some i" "T (o_side o') i < level_sum tick os' (o_side o') i"
      by (auto simp: excess_def)
    with le [of "o_side o'" i] show ?thesis by (auto simp: excess_def le_max_iff_disj)
  qed
  with no le show ?thesis by (simp add: eases_def)
qed

lemma eases_hset:
  assumes "hwf os" "hfind os k = Some ord" "fits T tick os ord'"
  shows "eases T tick os (hset k ord' os) \<and> \<not> excess T tick (hset k ord' os) k"
proof (rule eases_step [OF assms(3)])
  show "hfind (hset k ord' os) = (hfind os)(k \<mapsto> ord')" by (rule hfind_hset_Some [OF assms(2)])
  show "level_sum tick (hset k ord' os) side i \<le> level_sum tick os side i + share tick side i ord'" for side i
    using level_sum_hset [OF assms(1,2), of tick ord' side i] by linarith
qed

lemma eases_hput:
  assumes "hwf os" "hfind os k = None" "fits T tick os ord"
  shows "eases T tick os (hput L k ord os)"
  using eases_step [OF assms(3) hd.find_put [OF assms(1)]] by (simp add: level_sum_hput [OF assms(2)])

text \<open>The number of orders in excess, and what makes it smaller.\<close>

definition excess_count :: "(side \<Rightarrow> level_ident \<Rightarrow> nat) \<Rightarrow> double \<Rightarrow> (order_ident, oms_order) hash \<Rightarrow> nat" where
  "excess_count T tick os = card {k. excess T tick os k}"

lemma finite_excess: "finite {k. excess T tick os k}"
  by (rule finite_subset [of _ "set (hkeys os)"]) (auto simp: excess_def, metis hfind_None option.distinct(1))

lemma eases_count: "eases T tick os os' \<Longrightarrow> excess_count T tick os' \<le> excess_count T tick os"
  unfolding excess_count_def by (rule card_mono [OF finite_excess]) (auto simp: eases_def)

lemma eases_count_less:
  assumes "eases T tick os os'" "excess T tick os k" "\<not> excess T tick os' k"
  shows "excess_count T tick os' < excess_count T tick os"
  unfolding excess_count_def by (rule psubset_card_mono [OF finite_excess]) (use assms in \<open>auto simp: eases_def\<close>)

end
