(* ===== verification/Oms_Replies.thy ===== *)
theory Oms_Replies
  imports Strategy
begin

text \<open>
  What the replies of a gateway do to an order and to the position of its book: fills, rejects,
  cancellations, the throttle of the timer, and the way a fill takes to the portfolios.
\<close>

section \<open>Orders of a book\<close>

lemma hfind_put_order:
  "hfind (b_orders b) i = Some old \<Longrightarrow> hfind (b_orders (put_order i ord b)) = (hfind (b_orders b))(i \<mapsto> ord)"
  by (simp add: put_order_def hfind_hset_Some)

lemma put_order_simps [simp]:
  "b_position_by_orders (put_order i ord b) = b_position_by_orders b"
  "b_market (put_order i ord b) = b_market b" "b_symbol (put_order i ord b) = b_symbol b"
  "b_exchange (put_order i ord b) = b_exchange b" "b_portfolio (put_order i ord b) = b_portfolio b"
  by (simp_all add: put_order_def)

lemma emplace_order_known:
  "hfind (b_orders b) i = Some ord \<Longrightarrow> emplace_order L i b = (ord, False, b)"
  by (simp add: emplace_order_def)


text \<open>What every creation keeps, the pass that creates keeps.\<close>

lemma create_orders_invariant:
  assumes run: "create_orders X gws info (b, s) = Inr r" and start: "I (b, s)"
    and step: "\<And>t b s r. create_order X gws t (b, s) = Inr r \<Longrightarrow> I (b, s) \<Longrightarrow> I r"
  shows "I r"
proof -
  have level: "I r'" if "create_on_level X gws info side e r0 = Inr r'" "I r0" for side e r0 r'
  proof (cases e)
    case e: (Pair i l)
    obtain b0 s0 where r0: "r0 = (b0, s0)" by (cases r0)
    from that(1) have "r' = r0 \<or> (\<exists>t. create_order X gws t (b0, s0) = Inr r')"
      by (auto simp: e r0 create_on_level_def res_simps Let_def split: if_splits)
    with that(2) step show ?thesis unfolding r0 by blast
  qed
  have loop: "I r'" if "rfold (create_on_level X gws info side) ls r0 = Inr r'" "I r0" for side ls r0 r'
    using that by (rule rfold_invariant) (auto intro: level)
  show ?thesis using run start by (auto simp: create_orders_def res_simps dest!: loop)
qed


section \<open>Fills\<close>

definition fill_of :: "order_update \<Rightarrow> oms_order \<Rightarrow> double" where
  "fill_of u ord = ou_traded_quantity u - o_traded_quantity ord"

lemma fill_reported:
  assumes ord: "hfind (b_orders b) (ou_order_id u) = Some ord" "o_order_id ord = ou_order_id u" "hwf (b_orders b)"
    and u: "ou_order_status u = WORKING \<or> ou_order_status u = COMPLETED" "ou_update_type u \<noteq> STALE"
      "ou_side u = BUY \<or> ou_side u = SELL" "\<not> isnan (ou_remaining_quantity u)" "\<not> isnan (fill_of u ord)"
  shows "\<exists>t b' s'. apply_order_update X u (b, s) = Inr (t, b', s') \<and>
    (if x_compare X (fill_of u ord) (Fin 0) = Greater then
       t = Some (trade_of b (ou_side u) (ou_last_traded_price u) (fill_of u ord)) \<and>
       b_position_by_orders b' =
         (if ou_side u = BUY then b_position_by_orders b + fill_of u ord else b_position_by_orders b - fill_of u ord)
     else t = None \<and> b_position_by_orders b' = b_position_by_orders b) \<and>
    hfind (b_orders b') (ou_order_id u) = (if ou_order_status u = WORKING then Some (confirmed_order ord u) else None) \<and>
    hwf (b_orders b')"
proof -
  have c: "\<not> isnan (ov_quantity (o_expected (confirmed_order ord u)))"
    "\<not> isnan (ov_quantity (o_expected (completed_order ord u)))"
    using u(4) by (simp_all add: confirmed_order_def completed_order_def Let_def)
  have id: "o_order_id (completed_order ord u) = ou_order_id u" using ord(2) by simp
  have h: "hfind (b_orders (put_order (ou_order_id u) x b)) (ou_order_id u) = Some x" for x
    by (simp add: hfind_put_order [OF ord(1)])
  have hw: "hwf (b_orders (put_order i x b))" for i x using ord(3) by (simp add: put_order_def)
  show ?thesis
    using u(1-3,5)
    by (elim disjE; simp add: apply_order_update_def emplace_order_known [OF ord(1)] ord(2) order_confirm_def order_complete_def
        order_fills_def erase_order_def fill_of_def [symmetric] c id h trade_of_def hd.find_erase [OF hw] hd.wf_erase hw Let_def)
qed

lemma order_fills_nothing:
  "x_compare X (Fin 0) (Fin 0) \<noteq> Greater \<Longrightarrow> order_fills X sd p (Fin 0) (b, s) = Inr (None, b, s)"
  by (simp add: order_fills_def)

text \<open>A message repeated: an unknown order that does not work is not kept.\<close>

lemma unknown_not_working:
  assumes "hfind (b_orders b) (ou_order_id u) = None" "hwf (b_orders b)"
    and "ou_update_type u \<noteq> STALE" "ou_order_status u \<noteq> WORKING"
  shows "\<exists>b' s'. apply_order_update X u (b, s) = Inr (None, b', s') \<and> b_position_by_orders b' = b_position_by_orders b"
proof -
  have h: "hfind (hput L i v (b_orders b)) i = Some v" for L i v using assms(2) by (simp add: hd.find_put)
  show ?thesis
    using assms by (simp add: apply_order_update_def emplace_order_def erase_order_def downloaded_order_def Let_def
        put_order_def h hfind_hset_Some)
qed

text \<open>
  C16: an update of a live order as working or completed books exactly the quantity traded since the
  last update: the position of the book moves by it in the direction of the side, the handler is
  told one trade of that quantity, or nothing changes when nothing was traded.  A completed order
  leaves the book; a working order stays with the traded quantity, the price, the remaining quantity
  and the version of the message, expected as it is confirmed and with nothing in flight.  The same
  message once more books nothing.
\<close>

theorem fill_accounting:
  assumes ord: "hfind (b_orders b) (ou_order_id u) = Some ord" "o_order_id ord = ou_order_id u" "hwf (b_orders b)"
    and u: "ou_order_status u = WORKING \<or> ou_order_status u = COMPLETED" "ou_update_type u \<noteq> STALE"
      "ou_side u = BUY \<or> ou_side u = SELL" "\<not> isnan (ou_remaining_quantity u)" "\<not> isnan (fill_of u ord)"
  shows "\<exists>t b' s'. apply_order_update X u (b, s) = Inr (t, b', s') \<and>
    (if x_compare X (fill_of u ord) (Fin 0) = Greater then
       t = Some (trade_of b (ou_side u) (ou_last_traded_price u) (fill_of u ord)) \<and>
       b_position_by_orders b' =
         (if ou_side u = BUY then b_position_by_orders b + fill_of u ord else b_position_by_orders b - fill_of u ord)
     else t = None \<and> b_position_by_orders b' = b_position_by_orders b) \<and>
    (if ou_order_status u = COMPLETED then hfind (b_orders b') (ou_order_id u) = None
     else \<exists>ord'. hfind (b_orders b') (ou_order_id u) = Some ord' \<and>
       o_traded_quantity ord' = ou_traded_quantity u \<and> o_side ord' = o_side ord \<and>
       ov_status (o_confirmed ord') = WORKING \<and> ov_price (o_confirmed ord') = ou_price u \<and>
       ov_quantity (o_confirmed ord') = ou_remaining_quantity u \<and>
       ov_version (o_confirmed ord') = ou_max_accepted_version u \<and>
       o_expected ord' = o_confirmed ord' \<and> \<not> is_pending ord') \<and>
    (isfin (ou_traded_quantity u) \<and> x_compare X (Fin 0) (Fin 0) \<noteq> Greater \<longrightarrow>
       (\<exists>b'' s''. apply_order_update X u (b', s') = Inr (None, b'', s'') \<and>
          b_position_by_orders b'' = b_position_by_orders b'))"
proof -
  obtain t b' s' where r: "apply_order_update X u (b, s) = Inr (t, b', s')"
    and t: "if x_compare X (fill_of u ord) (Fin 0) = Greater then
       t = Some (trade_of b (ou_side u) (ou_last_traded_price u) (fill_of u ord)) \<and>
       b_position_by_orders b' =
         (if ou_side u = BUY then b_position_by_orders b + fill_of u ord else b_position_by_orders b - fill_of u ord)
     else t = None \<and> b_position_by_orders b' = b_position_by_orders b"
    and f: "hfind (b_orders b') (ou_order_id u) = (if ou_order_status u = WORKING then Some (confirmed_order ord u) else None)"
    and w: "hwf (b_orders b')"
    using fill_reported [OF assms] by blast
  have again: "\<exists>b'' s''. apply_order_update X u (b', s') = Inr (None, b'', s'') \<and>
      b_position_by_orders b'' = b_position_by_orders b'"
    if T: "isfin (ou_traded_quantity u)" and c: "x_compare X (Fin 0) (Fin 0) \<noteq> Greater"
  proof (cases "ou_order_status u = WORKING")
    case False
    with f have "hfind (b_orders b') (ou_order_id u) = None" by simp
    from unknown_not_working [OF this w u(2) False] show ?thesis .
  next
    case True
    let ?ord = "confirmed_order ord u"
    have k: "hfind (b_orders b') (ou_order_id u) = Some ?ord" using f True by simp
    have id: "o_order_id ?ord = ou_order_id u" "o_traded_quantity ?ord = ou_traded_quantity u"
      using ord(2) by (simp_all add: confirmed_order_def Let_def)
    have z: "fill_of u ?ord = Fin 0" using T by (simp add: fill_of_def id minus_self)
    have n: "\<not> isnan (fill_of u ?ord)" by (simp add: z)
    obtain t2 b2 s2 where r2: "apply_order_update X u (b', s') = Inr (t2, b2, s2)"
      and t2: "if x_compare X (fill_of u ?ord) (Fin 0) = Greater then
       t2 = Some (trade_of b' (ou_side u) (ou_last_traded_price u) (fill_of u ?ord)) \<and>
       b_position_by_orders b2 =
         (if ou_side u = BUY then b_position_by_orders b' + fill_of u ?ord else b_position_by_orders b' - fill_of u ?ord)
     else t2 = None \<and> b_position_by_orders b2 = b_position_by_orders b'"
      using fill_reported [OF k id(1) w u(1-4) n, of X s'] by blast
    from t2 c have "t2 = None" "b_position_by_orders b2 = b_position_by_orders b'" by (simp_all add: z)
    with r2 show ?thesis by blast
  qed
  have c: "ou_order_status u \<noteq> COMPLETED \<Longrightarrow> ou_order_status u = WORKING" using u(1) by blast
  have conf: "o_traded_quantity (confirmed_order ord u) = ou_traded_quantity u"
    "o_side (confirmed_order ord u) = o_side ord" "ov_status (o_confirmed (confirmed_order ord u)) = ou_order_status u"
    "ov_price (o_confirmed (confirmed_order ord u)) = ou_price u"
    "ov_quantity (o_confirmed (confirmed_order ord u)) = ou_remaining_quantity u"
    "ov_version (o_confirmed (confirmed_order ord u)) = ou_max_accepted_version u"
    "o_expected (confirmed_order ord u) = o_confirmed (confirmed_order ord u)" "\<not> is_pending (confirmed_order ord u)"
    by (simp_all add: confirmed_order_def Let_def is_pending_def)
  show ?thesis using r t f again c conf by (intro exI [of _ t] exI [of _ b'] exI [of _ s']) auto
qed

text \<open>
  C29: an update of a live order as canceled takes it out of the book, but whatever the update says
  was traded since the last one is not booked: the position stays and no trade is reported.
\<close>

theorem canceled_fill_is_lost:
  assumes ord: "hfind (b_orders b) (ou_order_id u) = Some ord" "o_order_id ord = ou_order_id u" "hwf (b_orders b)"
    and u: "ou_order_status u = CANCELED" "ou_update_type u \<noteq> STALE"
  shows "\<exists>b' s'. apply_order_update X u (b, s) = Inr (None, b', s') \<and>
    b_position_by_orders b' = b_position_by_orders b \<and> hfind (b_orders b') (ou_order_id u) = None"
proof -
  have c: "\<not> isnan (ov_quantity (o_expected (canceled_order ord u)))"
    by (simp add: canceled_order_def Let_def)
  have id: "o_order_id (canceled_order ord u) = ou_order_id u" using ord(2) by simp
  have h: "hfind (b_orders (put_order (ou_order_id u) x b)) (ou_order_id u) = Some x" for x
    by (simp add: hfind_put_order [OF ord(1)])
  have hw: "hwf (b_orders (put_order i x b))" for i x using ord(3) by (simp add: put_order_def)
  show ?thesis
    using u by (simp add: apply_order_update_def emplace_order_known [OF ord(1)] ord(2) order_canceled_def
        erase_order_def c id h hd.find_erase [OF hw] Let_def)
qed

lemma applied_trade_account:
  assumes "apply_order_update X u (b, s) = Inr (Some t, b', s')"
  shows "t_account t = []"
proof -
  have f: "t_account t = []" if "order_fills X d p q r = Inr (Some t, r')" for d p q r r'
    using that by (cases r) (auto simp: order_fills_def trade_of_def res_simps Let_def split: if_splits side.splits)
  show ?thesis
    using assms
    by (auto simp: apply_order_update_def res_simps Let_def order_confirm_def order_complete_def
        split: prod.splits if_splits order_status.splits dest: f)
qed

text \<open>
  C30: no fill reaches a portfolio.  The trade the order manager reports has no account, so unless a
  portfolio is configured for the empty account, the portfolios find none: no position changes and
  the pricer is not told.
\<close>

theorem fills_reach_no_portfolio:
  assumes "apply_order_update X u (b, s) = Inr (Some t, b', s')"
    and "\<And>exch. hfind2 (portfolio_by_account (c_portfolios c)) (exch, []) = None"
  shows "\<exists>pm. strategy_on_trade X P t (c, s') = Inr (c\<lparr>c_portfolios := pm\<rparr>, s') \<and>
    portfolios_by_id pm = portfolios_by_id (c_portfolios c)"
proof -
  have acc: "t_account t = []" by (rule applied_trade_account [OF assms(1)])
  have "hfind (hget_or (portfolio_by_account (c_portfolios c)) (t_exchange t) []) [] = None"
    using assms(2) [of "t_exchange t"] by (auto simp: hget_or_def hfind2_def hd.find_empty split: option.splits)
  then obtain pm where "get_portfolio_by_account (x_layout X) [] (t_exchange t) (c_portfolios c) = (None, pm)"
    "portfolios_by_id pm = portfolios_by_id (c_portfolios c)"
    by (auto simp: get_portfolio_by_account_def Let_def)
  moreover have "c = c\<lparr>c_portfolios := c_portfolios c\<rparr>" by simp
  ultimately show ?thesis
    by (cases "pm_position_source (c_portfolios c) = PS_ORDERS")
      (auto simp: strategy_on_trade_def portfolios_on_trade_def acc on_exposure_update_def intro: exI [of _ "c_portfolios c"])
qed


section \<open>Rejects\<close>

text \<open>
  The runs of a book while it holds the order \<open>i\<close>: calls of \<open>process\<close> with whatever gateways and
  market, updates and replies of any order, and whatever else leaves the orders of the book alone
  and sends requests for other orders only (targets, bans and positions of the book, the clock, the
  other books).  An update that takes the order out of the book, or the rejection of its creation,
  which erases it, ends the run.  The counter of rejects is 32 bits wide and is taken not to come
  round to zero.
\<close>

inductive book_run :: "'g ext \<Rightarrow> order_ident \<Rightarrow> book \<times> oms \<Rightarrow> book \<times> oms \<Rightarrow> bool"
  for X :: "'g ext" and i :: order_ident and r0 :: "book \<times> oms" where
  start: "book_run X i r0 r0"
| process: "book_run X i r0 (b, s) \<Longrightarrow> process X gws info (b, s) = Inr (b', s') \<Longrightarrow> book_run X i r0 (b', s')"
| update: "book_run X i r0 (b, s) \<Longrightarrow> apply_order_update X u (b, s) = Inr (t, b', s') \<Longrightarrow>
    hfind (b_orders b') i \<noteq> None \<Longrightarrow> book_run X i r0 (b', s')"
| ack: "book_run X i r0 (b, s) \<Longrightarrow> hfind (b_orders b) (oa_order_id u) = Some ord \<Longrightarrow>
    (oa_order_id u = i \<longrightarrow> o_rejects_count ord \<noteq> - 1 \<and>
       \<not> (oa_request_type u = CREATE_ORDER \<and> oa_request_status u = REJECTED)) \<Longrightarrow>
    apply_order_ack X gws info ord u (b, s) = Inr (b', s') \<Longrightarrow> book_run X i r0 (b', s')"
| other: "book_run X i r0 (b, s) \<Longrightarrow> b_orders b' = b_orders b \<Longrightarrow> sent_requests s' = sent_requests s @ rs \<Longrightarrow>
    \<forall>e\<in>set rs. rid e \<noteq> i \<Longrightarrow> book_run X i r0 (b', s')"

text \<open>The order, while it is there, has a reject, and nothing but cancellations was sent for it.\<close>

definition shut :: "order_ident \<Rightarrow> (request \<times> ident) list \<Rightarrow> book \<times> oms \<Rightarrow> bool" where
  "shut i sent = (\<lambda>(b, s).
     keys_ok b \<and> (\<forall>ord. hfind (b_orders b) i = Some ord \<longrightarrow> o_rejects_count ord \<noteq> 0) \<and>
     (\<exists>rs. sent_requests s = sent @ rs \<and> (\<forall>e\<in>set rs. rid e = i \<longrightarrow> (\<exists>c. fst e = Cancel c))))"

lemma shut_keys: "shut i sent (b, s) \<Longrightarrow> keys_ok b"
  by (simp add: shut_def)

lemma shut_rejects: "shut i sent (b, s) \<Longrightarrow> hfind (b_orders b) i = Some ord \<Longrightarrow> o_rejects_count ord \<noteq> 0"
  by (simp add: shut_def)

lemma shut_sent:
  assumes "shut i sent (b, s)" "b_orders b' = b_orders b" "sent_requests s' = sent_requests s @ rs"
    and "\<forall>e\<in>set rs. rid e = i \<longrightarrow> (\<exists>c. fst e = Cancel c)"
  shows "shut i sent (b', s')"
proof -
  obtain rs0 where "sent_requests s = sent @ rs0" "\<forall>e\<in>set rs0. rid e = i \<longrightarrow> (\<exists>c. fst e = Cancel c)"
    using assms(1) by (auto simp: shut_def)
  with assms show ?thesis by (auto simp: shut_def keys_ok_def intro!: exI [of _ "rs0 @ rs"])
qed

lemma shut_orders:
  "shut i sent (b, s) \<Longrightarrow> b_orders b' = b_orders b \<Longrightarrow> sent_requests s' = sent_requests s \<Longrightarrow> shut i sent (b', s')"
  by (rule shut_sent [where rs = "[]"]) simp_all

text \<open>Orders are changed in place, entered under another identifier, or erased.\<close>

lemma shut_put_order:
  assumes "shut i sent (b, s)" "hfind (b_orders b) k = Some ord" "o_order_id ord' = k"
    and "k = i \<Longrightarrow> o_rejects_count ord' \<noteq> 0"
  shows "shut i sent (put_order k ord' b, s)"
  using assms keys_ok_put_order [of b ord' k] by (auto simp: shut_def hfind_put_order)

lemma shut_request:
  assumes "shut i sent (b, s)" "hfind (b_orders b) k = Some ord" "o_order_id ord' = k"
    and "k = i \<Longrightarrow> o_rejects_count ord' \<noteq> 0 \<and> (\<exists>c. fst e = Cancel c)" "rid e = k"
  shows "shut i sent (put_order k ord' b, s\<lparr>sent_requests := sent_requests s @ [e]\<rparr>)"
  by (rule shut_sent [OF shut_put_order [OF assms(1-3)] refl]) (use assms(4,5) in auto)

lemma shut_insert:
  assumes "shut i sent (b, s)" "k \<noteq> i" "o_order_id ord = k"
  shows "shut i sent (b\<lparr>b_orders := hput L k ord (b_orders b)\<rparr>, s)"
  using assms by (auto simp: shut_def keys_ok_def hd.find_put hd.wf_put list_all_hput)

lemma shut_erase:
  assumes "shut i sent (b, s)" "erase_order X k (b, s) = Inr (b', s')"
  shows "shut i sent (b', s')"
  using assms by (auto simp: shut_def keys_ok_def erase_order_def res_simps hd.find_erase hd.wf_erase list_all_herase
      split: if_splits)

definition holds :: "order_ident \<Rightarrow> book \<Rightarrow> bool" where
  "holds i b \<longleftrightarrow> hfind (b_orders b) i \<noteq> None"

lemma holds_put_order [simp]: "holds i (put_order k ord b) = holds i b"
  by (simp add: holds_def hfind_None del: not_None_eq)

lemma holds_orders: "b_orders b' = b_orders b \<Longrightarrow> holds i b' = holds i b"
  by (simp add: holds_def)

lemma shut_step_ok: "step_ok (\<lambda>r. shut i sent r \<and> holds i (fst r)) X gws"
  unfolding step_ok_def
proof (intro conjI allI impI)
  fix b s k ord q p r
  assume I: "shut i sent (b, s) \<and> holds i (fst (b, s))" and mem: "(k, ord) \<in> set (b_orders b)"
    and run: "o_rejects_count ord = 0 \<and> modify_order X gws k ord q p (b, s) = Inr r \<or> cancel_order X gws k ord (b, s) = Inr r"
  have S: "shut i sent (b, s)" using I by blast
  then have f: "hfind (b_orders b) k = Some ord" using shut_keys mem by (simp add: keys_ok_def hd.in_entries)
  have id: "o_order_id ord = k" by (rule keys_okD [OF shut_keys [OF S] f])
  have rej: "k = i \<Longrightarrow> o_rejects_count ord \<noteq> 0" using shut_rejects [OF S] f by auto
  from run obtain ord' e where r: "r = (put_order k ord' b, s\<lparr>sent_requests := sent_requests s @ [e]\<rparr>)"
    "o_order_id ord' = k" "o_rejects_count ord' = o_rejects_count ord" "rid e = k"
    "o_rejects_count ord = 0 \<or> (\<exists>c. fst e = Cancel c)"
    by (auto simp: modify_order_def cancel_order_def send_request_def Let_def res_simps id split: option.splits)
  have "shut i sent r" unfolding r(1) by (rule shut_request [OF S f r(2) _ r(4)]) (use rej r(3,5) in auto)
  with I r(1) show "shut i sent r" "holds i (fst r)" by simp_all
qed (auto intro: shut_orders simp: holds_def)

lemma shut_create_order:
  assumes run: "create_order X gws t (b, s) = Inr r" and I: "shut i sent (b, s)" "holds i b"
  shows "shut i sent r \<and> holds i (fst r)"
proof -
  obtain b' s' where r: "r = (b', s')" by (cases r)
  let ?k = "max_order_id s + 1"
  from run have k: "hfind (b_orders b) ?k = None"
    and b': "b' = b\<lparr>b_orders := hput (x_layout X) ?k (created_order ?k t) (b_orders b)\<rparr>"
    and s': "\<exists>c g. cr_order_id c = ?k \<and> sent_requests s' = sent_requests s @ [(Create c, g)]"
    by (auto simp: r create_order_def send_request_def Let_def res_simps create_request_of_def split: option.splits)
  have ki: "?k \<noteq> i" using I k by (auto simp: holds_def)
  with s' obtain rs where rs: "sent_requests s' = sent_requests s @ rs" "\<forall>e\<in>set rs. rid e = i \<longrightarrow> (\<exists>c. fst e = Cancel c)" by auto
  have "shut i sent (b', s)" unfolding b' by (rule shut_insert [OF I(1) ki]) (simp add: created_order_def Let_def)
  then have "shut i sent (b', s')" by (rule shut_sent [OF _ refl rs])
  moreover have "hwf (b_orders b)" using shut_keys [OF I(1)] by (simp add: keys_ok_def)
  ultimately show ?thesis using ki I(2) by (simp add: r b' hd.find_put holds_def)
qed

lemma shut_process:
  assumes run: "process X gws info (b, s) = Inr (b', s')" and I: "shut i sent (b, s)" "holds i b"
  shows "shut i sent (b', s') \<and> holds i b'"
  using run
proof (cases rule: process_cases)
  case quiet
  with shut_orders [OF I(1)] I(2) show ?thesis by (simp add: holds_def)
next
  case (active b0 b1 s1 b2)
  let ?I = "\<lambda>r. shut i sent r \<and> holds i (fst r)"
  have "?I (b0, s)" using shut_orders [OF I(1) active(5) refl] I(2) active(5) by (simp add: holds_def)
  then have "?I (b1, s1)" by (rule process_again_invariant [OF shut_step_ok active(8)])
  then have "?I (b2, s')" by (rule create_orders_invariant [OF active(9)]) (auto dest: shut_create_order)
  with shut_orders [of i sent b2 s' b' s'] erase_empty_levels_orders [OF active(10)] show ?thesis by (simp add: holds_def)
qed

lemma shut_fills:
  "order_fills X side p q (b, s) = Inr (t, b', s') \<Longrightarrow> shut i sent (b, s) \<Longrightarrow> shut i sent (b', s')"
  by (auto simp: order_fills_def res_simps Let_def split: if_splits side.splits elim!: shut_orders)

lemma report_keeps [simp]:
  "o_order_id (confirmed_order ord u) = o_order_id ord" "o_rejects_count (confirmed_order ord u) = o_rejects_count ord"
  "o_order_id (completed_order ord u) = o_order_id ord" "o_rejects_count (completed_order ord u) = o_rejects_count ord"
  "o_order_id (canceled_order ord u) = o_order_id ord" "o_rejects_count (canceled_order ord u) = o_rejects_count ord"
  "o_order_id (too_late_order ord) = o_order_id ord" "o_rejects_count (too_late_order ord) = o_rejects_count ord"
  "o_order_id (cancel_rejected ord) = o_order_id ord" "o_rejects_count (cancel_rejected ord) = o_rejects_count ord"
  "o_order_id (modify_rejected ord a) = o_order_id ord" "o_rejects_count (modify_rejected ord a) = o_rejects_count ord + 1"
  "o_order_id (create_rejected ord a) = o_order_id ord"
  by (simp_all add: confirmed_order_def completed_order_def canceled_order_def too_late_order_def cancel_rejected_def
      modify_rejected_def create_rejected_def Let_def)

lemma shut_update:
  assumes run: "apply_order_update X u (b, s) = Inr (t, b', s')" and I: "shut i sent (b, s)" "holds i b"
  shows "shut i sent (b', s')"
proof (cases "hfind (b_orders b) (ou_order_id u)")
  case None
  let ?o = "default_order\<lparr>o_order_id := ou_order_id u\<rparr>"
  let ?b1 = "b\<lparr>b_orders := hput (x_layout X) (ou_order_id u) ?o (b_orders b)\<rparr>"
  have ne: "ou_order_id u \<noteq> i" using None I(2) by (auto simp: holds_def)
  have S: "shut i sent (?b1, s)" by (rule shut_insert [OF I(1) ne]) simp
  have f: "hfind (b_orders ?b1) (ou_order_id u) = Some ?o"
    using shut_keys [OF I(1)] by (simp add: keys_ok_def hd.find_put)
  have "shut i sent (put_order (ou_order_id u) (downloaded_order ?o u) ?b1, s)"
    by (rule shut_put_order [OF S f]) (use ne in \<open>simp_all add: downloaded_order_def Let_def\<close>)
  then have S2: "shut i sent (put_order (ou_order_id u) (downloaded_order ?o u) ?b1, s\<lparr>market_by_order := m\<rparr>)" for m
    by (rule shut_orders) simp_all
  from run show ?thesis
    by (auto simp: apply_order_update_def emplace_order_def None Let_def res_simps split: if_splits
        intro: S2 shut_erase [OF S] shut_erase [OF S2])
next
  case (Some ord)
  have put: "shut i sent (put_order (ou_order_id u) ord' b, s)"
    if "o_order_id ord' = ou_order_id u" "o_rejects_count ord' = o_rejects_count ord" for ord'
    by (rule shut_put_order [OF I(1) Some that(1)]) (use that(2) shut_rejects [OF I(1)] Some in auto)
  have ban: "shut i sent (b1, s1) \<Longrightarrow> shut i sent (b1\<lparr>b_ban_until := n\<rparr>, s1)" for b1 s1 n
    by (erule shut_orders) simp_all
  have confirm: "shut i sent (b', s')" if "order_confirm X ord u (b, s) = Inr (t, b', s')"
    using that by (simp add: order_confirm_def res_simps Let_def) (elim conjE shut_fills, rule put, simp_all)
  have complete: "shut i sent (b', s')" if "order_complete X ord u (b, s) = Inr (t, b', s')"
    using that by (simp add: order_complete_def res_simps Let_def) (elim exE conjE shut_fills shut_erase [rotated], rule put, simp_all)
  have canceled: "shut i sent (b', s')" if c: "order_canceled X ord u (b, s) = Inr (b', s')"
  proof -
    from c obtain b1 where e: "erase_order X (o_order_id ord) (put_order (ou_order_id u) (canceled_order ord u) b, s) = Inr (b1, s')"
      "o_order_id ord = ou_order_id u" "b_orders b' = b_orders b1"
      by (auto simp: order_canceled_def res_simps Let_def)
    from shut_orders [OF shut_erase [OF put e(1)] e(3)] e(2) show ?thesis by simp
  qed
  from run I(1) show ?thesis
    by (auto simp: apply_order_update_def emplace_order_known [OF Some] Let_def res_simps
        split: if_splits order_status.splits intro: I(1) confirm complete canceled shut_erase [OF I(1)])
qed

lemma shut_ack:
  assumes run: "apply_order_ack X gws info ord u (b, s) = Inr (b', s')"
    and ord: "hfind (b_orders b) (oa_order_id u) = Some ord"
    and mine: "oa_order_id u = i \<longrightarrow> o_rejects_count ord \<noteq> - 1 \<and>
       \<not> (oa_request_type u = CREATE_ORDER \<and> oa_request_status u = REJECTED)"
    and I: "shut i sent (b, s)" "holds i b"
  shows "shut i sent (b', s') \<and> holds i b'"
proof (cases "oa_request_status u = REJECTED")
  case False
  have "o_order_id ord = oa_order_id u" by (rule keys_okD [OF shut_keys [OF I(1)] ord])
  then have "shut i sent (put_order (oa_order_id u) (ord\<lparr>o_accept_version := v\<rparr>) b, s)" for v
    by (intro shut_put_order [OF I(1) ord]) (use shut_rejects [OF I(1)] ord in auto)
  with False run I show ?thesis
    by (auto simp: apply_order_ack_def order_accept_def order_fwd_def res_simps split: if_splits)
next
  case True
  let ?I = "\<lambda>r. shut i sent r \<and> holds i (fst r)"
  have put: "?I (put_order (oa_order_id u) ord' b1, s1)"
    if "?I (b1, s1)" "hfind (b_orders b1) (oa_order_id u) = Some old" "o_order_id ord' = oa_order_id u"
      "oa_order_id u = i \<longrightarrow> o_rejects_count ord' \<noteq> 0" for ord' b1 s1 old
    using that shut_put_order [of i sent b1 s1 "oa_order_id u" old ord'] by simp
  have id: "o_order_id ord = oa_order_id u" by (rule keys_okD [OF shut_keys [OF I(1)] ord])
  have rej: "oa_order_id u = i \<Longrightarrow> o_rejects_count ord \<noteq> 0" using shut_rejects [OF I(1)] ord by auto
  have up: "oa_order_id u = i \<Longrightarrow> o_rejects_count ord + 1 \<noteq> 0" using mine by (metis add_eq_0_iff2 add.commute)
  from run True obtain b1 s1 b2 s2 where
    1: "(case oa_request_type u of CANCEL_ORDER \<Rightarrow> order_cancel_reject ord u (b, s)
         | CREATE_ORDER \<Rightarrow> order_create_reject X ord u (b, s)
         | MODIFY_ORDER \<Rightarrow> order_modify_reject ord u (b, s)
         | RT_UNDEFINED \<Rightarrow> Inr (b, s)) = Inr (b1, s1)" and
    2: "order_too_late u (b1, s1) = Inr (b2, s2)" and
    3: "ban_or_process X gws info u (b2, s2) = Inr (b', s')"
    by (auto simp: apply_order_ack_def res_simps)
  have I0: "?I (b, s)" using I by simp
  have I1: "?I (b1, s1)"
  proof (cases "oa_request_type u")
    case CREATE_ORDER
    with mine True have ne: "oa_order_id u \<noteq> i" by blast
    have p: "?I (put_order (oa_order_id u) (create_rejected ord u) b, s)"
      by (rule put [OF I0 ord]) (use ne id in auto)
    with 1 CREATE_ORDER id have e: "erase_order X (oa_order_id u) (put_order (oa_order_id u) (create_rejected ord u) b, s) = Inr (b1, s1)"
      by (simp add: order_create_reject_def)
    have "hwf (b_orders (put_order (oa_order_id u) (create_rejected ord u) b))" using p shut_keys by (auto simp: keys_ok_def)
    with e ne p have "holds i b1" by (auto simp: erase_order_def res_simps hd.find_erase holds_def)
    with shut_erase [OF conjunct1 [OF p] e] show ?thesis by simp
  qed (use 1 put [OF I0 ord] I0 id rej up in \<open>auto simp: order_modify_reject_def order_cancel_reject_def res_simps\<close>)
  have I2: "?I (b2, s2)"
  proof (cases "oa_error u = TOO_LATE_TO_MODIFY_OR_CANCEL")
    case False
    with 2 I1 show ?thesis by (simp add: order_too_late_def)
  next
    case True
    with 2 obtain o1 where o1: "hfind (b_orders b1) (oa_order_id u) = Some o1"
      "b2 = put_order (oa_order_id u) (too_late_order o1) b1" "s2 = s1"
      by (auto simp: order_too_late_def split: option.splits)
    have "keys_ok b1" using I1 shut_keys by blast
    then have "o_order_id (too_late_order o1) = oa_order_id u" using keys_okD [OF _ o1(1)] by simp
    moreover have "oa_order_id u = i \<longrightarrow> o_rejects_count (too_late_order o1) \<noteq> 0" using shut_rejects [of i sent b1 s1 o1] I1 o1(1) by auto
    ultimately show ?thesis using put [OF I1 o1(1)] o1(2,3) by blast
  qed
  show ?thesis
  proof (cases "oa_error u = REQUEST_RATE_LIMIT_REACHED \<or> oa_error u = GATEWAY_NOT_READY")
    case True
    with 3 I2 shut_orders [of i sent b2 s2] show ?thesis by (auto simp: ban_or_process_def holds_def)
  next
    case False
    with 3 I2 shut_process [of X gws info b2 s2 b' s' i sent] show ?thesis by (simp add: ban_or_process_def)
  qed
qed

lemma book_run_shut:
  assumes "book_run X i r0 r" "shut i sent r0" "holds i (fst r0)"
  shows "shut i sent r \<and> holds i (fst r)"
  using assms
proof (induction rule: book_run.induct)
  case (process b s gws info b' s')
  then show ?case using shut_process [OF process.hyps(2), of i sent] by simp
next
  case (update b s u t b' s')
  then show ?case using shut_update [OF update.hyps(2), of i sent] by (simp add: holds_def)
next
  case (ack b s u ord gws info b' s')
  then show ?case using shut_ack [OF ack.hyps(4) ack.hyps(2), of i sent] by simp
next
  case (other b s b' s' rs)
  then show ?case using shut_sent [of i sent b s b' s' rs] by (auto simp: holds_def)
qed simp

text \<open>
  C31: when a modification is rejected the order is back at its confirmed version with nothing in
  flight, and from then on, as long as it is in its book, it is never modified again: in every run of
  the book that follows, the only requests sent for it are cancellations, and no gateway makes it
  fit for modification (the counter of rejects is 32 bits wide and is assumed not to come round).
\<close>

theorem rejected_order_is_only_canceled:
  assumes reject: "order_modify_reject ord u (b, s) = Inr (b1, s1)" and ord: "hfind (b_orders b) (oa_order_id u) = Some ord"
    and ok: "keys_ok b" "o_rejects_count ord \<noteq> - 1"
    and run: "book_run X (oa_order_id u) (b1, s1) (b', s')"
  shows "(\<exists>ord1. hfind (b_orders b1) (oa_order_id u) = Some ord1 \<and> o_confirmed ord1 = o_confirmed ord \<and>
       o_expected ord1 = o_confirmed ord \<and> \<not> is_pending ord1) \<and>
    (\<exists>ord' rs. hfind (b_orders b') (oa_order_id u) = Some ord' \<and> can_modify X gws b' ord' = (False, False) \<and>
       sent_requests s' = sent_requests s @ rs \<and> (\<forall>e\<in>set rs. rid e = oa_order_id u \<longrightarrow> (\<exists>c. fst e = Cancel c)))"
proof
  let ?ord = "modify_rejected ord u"
  have b1: "b1 = put_order (oa_order_id u) ?ord b" "s1 = s" using reject by (auto simp: order_modify_reject_def res_simps)
  have f: "hfind (b_orders b1) (oa_order_id u) = Some ?ord" by (simp add: b1 hfind_put_order [OF ord])
  then show "\<exists>ord1. hfind (b_orders b1) (oa_order_id u) = Some ord1 \<and> o_confirmed ord1 = o_confirmed ord \<and>
       o_expected ord1 = o_confirmed ord \<and> \<not> is_pending ord1"
    by (simp add: modify_rejected_def is_pending_def)
  have "o_rejects_count ord + 1 \<noteq> 0" using ok(2) by (metis add_eq_0_iff2 add.commute)
  moreover have "keys_ok b1" unfolding b1 by (rule keys_ok_put_order [OF ok(1)]) (simp add: keys_okD [OF ok(1) ord])
  ultimately have "shut (oa_order_id u) (sent_requests s) (b1, s1)" using f by (simp add: shut_def b1(2))
  with book_run_shut [OF run] f holds_def have S: "shut (oa_order_id u) (sent_requests s) (b', s')" and h: "holds (oa_order_id u) b'" by auto
  then obtain ord' where ord': "hfind (b_orders b') (oa_order_id u) = Some ord'" by (auto simp: holds_def)
  have "can_modify X gws b' ord' = (False, False)" using shut_rejects [OF S ord'] by (simp add: can_modify_def)
  with S ord' show "\<exists>ord' rs. hfind (b_orders b') (oa_order_id u) = Some ord' \<and> can_modify X gws b' ord' = (False, False) \<and>
       sent_requests s' = sent_requests s @ rs \<and> (\<forall>e\<in>set rs. rid e = oa_order_id u \<longrightarrow> (\<exists>c. fst e = Cancel c))"
    by (auto simp: shut_def)
qed

text \<open>
  C32: a rejected \<open>CREATE_ORDER\<close> erases its order, and when the error says that it was too late to
  modify or cancel, the handler goes on to write to the erased order: the behaviour is undefined.
\<close>

theorem create_reject_too_late_undefined:
  assumes "hfind (b_orders b) (oa_order_id u) = Some ord" "o_order_id ord = oa_order_id u" "hwf (b_orders b)"
    and "oa_request_type u = CREATE_ORDER" "oa_request_status u = REJECTED" "oa_error u = TOO_LATE_TO_MODIFY_OR_CANCEL"
  shows "apply_order_ack X gws info ord u (b, s) = Inl Undefined_Behaviour"
proof -
  have hw: "hwf (b_orders (put_order i x b))" for i x using assms(3) by (simp add: put_order_def)
  show ?thesis
    using assms by (simp add: apply_order_ack_def order_create_reject_def erase_order_def order_too_late_def
        hfind_put_order [OF assms(1)] hd.find_erase [OF hw])
qed


section \<open>The timer\<close>

text \<open>A run of a book leaves the clock alone.\<close>

lemma request_now:
  "create_order X gws t (b, s) = Inr (b', s') \<Longrightarrow> oms_now s' = oms_now s"
  "modify_order X gws k ord q p (b, s) = Inr (b', s') \<Longrightarrow> oms_now s' = oms_now s"
  "cancel_order X gws k ord (b, s) = Inr (b', s') \<Longrightarrow> oms_now s' = oms_now s"
  by (auto simp: create_order_def modify_order_def cancel_order_def send_request_def Let_def res_simps split: option.splits)

lemma scan_orders_now: "scan_orders X gws os (b, s) = Inr (again, b', s') \<Longrightarrow> oms_now s' = oms_now s"
proof (induction os arbitrary: b)
  case (Cons e os)
  obtain k ord where e: "e = (k, ord)" by (cases e)
  from Cons.prems e obtain i l new b1 where
    lev: "emplace_level X (o_side ord) (ov_price (o_expected ord)) b = Inr (i, l, new, b1)" by (auto simp: res_simps)
  obtain cp cv where cm: "can_modify X gws b1 ord = (cp, cv)" by (cases "can_modify X gws b1 ord")
  from Cons.prems e lev cm Cons.IH show ?case
    by (auto simp: res_simps Let_def dest: request_now split: if_splits option.splits)
qed simp

lemma process_again_now: "process_again X gws (b, s) = Inr (b', s') \<Longrightarrow> oms_now s' = oms_now s"
proof (induction X gws "(b, s)" arbitrary: b s rule: process_again.induct)
  case (1 X gws b s)
  obtain b1 again b2 s2 where
    a: "accumulate_orders X b = Inr b1" "scan_orders X gws (b_orders b1) (b1, s) = Inr (again, b2, s2)" and
    r: "(if again then process_again X gws (b2, s2) else Inr (b2, s2)) = Inr (b', s')"
    using "1.prems" by (subst (asm) process_again.simps) (auto simp: res_simps)
  note now = scan_orders_now [OF a(2)]
  show ?case
  proof (cases again)
    case True
    with r have "process_again X gws (b2, s2) = Inr (b', s')" by simp
    from "1.hyps" [OF a refl True this] now show ?thesis by simp
  next
    case False
    with r now show ?thesis by simp
  qed
qed

lemma create_orders_now: "create_orders X gws info (b, s) = Inr (b', s') \<Longrightarrow> oms_now s' = oms_now s"
  by (drule create_orders_invariant [where I = "\<lambda>r. oms_now (snd r) = oms_now s"]) (auto dest: request_now(1))

lemma process_now: "process X gws info (b, s) = Inr (b', s') \<Longrightarrow> oms_now s' = oms_now s"
proof (erule process_cases)
  fix b0 b1 s1 b2
  assume "process_again X gws (b0, s) = Inr (b1, s1)" "create_orders X gws info (b1, s1) = Inr (b2, s')"
  from process_again_now [OF this(1)] create_orders_now [OF this(2)] show ?thesis by simp
qed simp

lemma get_books_now:
  assumes "get_books X ms (process X gws) s = Inr s'"
  shows "oms_now s' = oms_now s"
  using assms unfolding get_books_def
  by (rule rfold_invariant [where I = "\<lambda>s'. oms_now s' = oms_now s"])
    (auto simp: res_simps store_book_def dest: process_now split: option.splits)

text \<open>
   the timer runs the books at most once a second: a call within a second of the last run only
  sets the clock, and after a run every call within the next second does.
\<close>

theorem timer_throttle:
  fixes c :: "('g, 'z) core_scheme"
  assumes "on_timer X now c s = Inr s'"
  shows "oms_now s' = now \<and>
    (if now - last_process s < 1000000000 then s' = s\<lparr>oms_now := now\<rparr>
     else \<forall>now' (c' :: ('g, 'z) core_scheme). now' - now < 1000000000 \<longrightarrow> on_timer X now' c' s' = Inr (s'\<lparr>oms_now := now'\<rparr>))"
  using assms by (auto simp: on_timer_def res_simps Let_def dest!: get_books_now split: if_splits)



section \<open>Examples\<close>

text \<open>Order 1 of the example's book, 5 to buy at 100, of which 2 get traded.\<close>

definition demo_update :: "order_status \<Rightarrow> order_update" where
  "demo_update st =
     \<lparr>ou_account = ''a'', ou_order_id = 1, ou_exchange = ''e'', ou_symbol = ''s'', ou_side = BUY, ou_order_status = st,
      ou_update_type = UT_UNDEFINED, ou_price = Fin 100, ou_remaining_quantity = Fin 3, ou_traded_quantity = Fin 2,
      ou_last_traded_price = Fin 100, ou_max_accepted_version = 1, ou_max_response_version = 1,
      ou_external_order_id = [], ou_strategy_id = 1\<rparr>"

definition demo_order :: oms_order where
  "demo_order = live_order 1 BUY (Fin 100) (Fin 5)"

lemma demo_order_facts:
  "hfind (b_orders demo_book) (ou_order_id (demo_update st)) = Some demo_order"
  "o_order_id demo_order = ou_order_id (demo_update st)" "hwf (b_orders demo_book)"
  "ou_update_type (demo_update st) \<noteq> STALE" "fill_of (demo_update st) demo_order = Fin 2"
  "ou_order_status (demo_update st) = st" "ou_side (demo_update st) = BUY" "ou_remaining_quantity (demo_update st) = Fin 3"
  by (simp_all add: demo_eval hash_eval demo_update_def demo_order_def fill_of_def)

theorem fill_accounting_witness:
  "\<exists>t b' s' b'' s''. apply_order_update plain_ext (demo_update WORKING) (demo_book, demo_oms) = Inr (Some t, b', s') \<and>
     b_position_by_orders b' = Fin 2 \<and>
     (\<exists>ord. hfind (b_orders b') 1 = Some ord \<and> o_traded_quantity ord = Fin 2 \<and> ov_quantity (o_confirmed ord) = Fin 3) \<and>
     apply_order_update plain_ext (demo_update WORKING) (b', s') = Inr (None, b'', s'') \<and> b_position_by_orders b'' = Fin 2"
proof -
  have p: "b_position_by_orders demo_book + Fin 2 = Fin 2" "ou_order_id (demo_update WORKING) = 1"
    "ou_traded_quantity (demo_update WORKING) = Fin 2"
    by (simp_all add: demo_eval demo_update_def)
  have c: "x_compare plain_ext (Fin 2) (Fin 0) = Greater" "x_compare plain_ext (Fin 0) (Fin 0) \<noteq> Greater"
    by (simp_all add: demo_eval)
  obtain t b' s' where "apply_order_update plain_ext (demo_update WORKING) (demo_book, demo_oms) = Inr (t, b', s')" "t \<noteq> None"
    "b_position_by_orders b' = Fin 2"
    "\<exists>ord. hfind (b_orders b') 1 = Some ord \<and> o_traded_quantity ord = Fin 2 \<and> ov_quantity (o_confirmed ord) = Fin 3"
    "\<exists>b'' s''. apply_order_update plain_ext (demo_update WORKING) (b', s') = Inr (None, b'', s'') \<and>
       b_position_by_orders b'' = b_position_by_orders b'"
    using fill_accounting [OF demo_order_facts(1-3), of WORKING plain_ext demo_oms] p c by (auto simp: demo_order_facts)
  then show ?thesis by (metis not_None_eq)
qed

theorem canceled_fill_is_lost_witness:
  "\<exists>b' s'. apply_order_update plain_ext (demo_update CANCELED) (demo_book, demo_oms) = Inr (None, b', s') \<and>
     b_position_by_orders b' = b_position_by_orders demo_book \<and> fill_of (demo_update CANCELED) demo_order = Fin 2"
  using canceled_fill_is_lost [OF demo_order_facts(1-3), of CANCELED plain_ext demo_oms] demo_order_facts(4-6) by blast

lemma demo_trade:
  "\<exists>t b' s'. apply_order_update plain_ext (demo_update WORKING) (demo_book, demo_oms) = Inr (Some t, b', s')"
  using fill_reported [OF demo_order_facts(1-3), of WORKING plain_ext demo_oms] by (simp add: demo_order_facts) blast

definition demo_app :: "(unit, unit) app" where
  "demo_app = \<lparr>c_gateways = demo_gateways, c_markets = demo_markets, c_portfolios = demo_portfolios, c_best_quotes = [],
     a_config = \<lparr>cfg_parameters = [], cfg_is_downloading = False, cfg_start_time = 0\<rparr>, a_pricer = ()\<rparr>"

theorem fills_reach_no_portfolio_witness:
  "\<exists>t b' s' pm. apply_order_update plain_ext (demo_update WORKING) (demo_book, demo_oms) = Inr (Some t, b', s') \<and>
     strategy_on_trade plain_ext (\<lambda>h. Inr) t (demo_app, s') = Inr (demo_app\<lparr>c_portfolios := pm\<rparr>, s') \<and>
     portfolios_by_id pm = portfolios_by_id demo_portfolios"
proof -
  have c: "c_portfolios demo_app = demo_portfolios" by (simp add: demo_app_def)
  obtain t b' s' where r: "apply_order_update plain_ext (demo_update WORKING) (demo_book, demo_oms) = Inr (Some t, b', s')"
    using demo_trade by blast
  have "hfind2 (portfolio_by_account (c_portfolios demo_app)) (exch, []) = None" for exch
    by (simp add: c demo_portfolios_def hash_eval)
  from fills_reach_no_portfolio [OF r this] r show ?thesis unfolding c by blast
qed

definition demo_ack :: "request_type \<Rightarrow> order_ack" where
  "demo_ack rt = \<lparr>oa_order_id = 1, oa_request_type = rt, oa_request_status = REJECTED, oa_version = 2,
     oa_error = TOO_LATE_TO_MODIFY_OR_CANCEL, oa_text = []\<rparr>"

text \<open>After the reject the book is processed: the order, which no target wants, is canceled.\<close>

theorem rejected_order_is_only_canceled_witness:
  "\<exists>b1 s1 b' s'. order_modify_reject demo_order (demo_ack MODIFY_ORDER) (demo_book, demo_oms) = Inr (b1, s1) \<and>
     process plain_ext demo_gateways demo_info (b1, s1) = Inr (b', s') \<and> (\<exists>e\<in>set (sent_requests s'). rid e = 1) \<and>
     (\<forall>e\<in>set (sent_requests s'). rid e = 1 \<longrightarrow> (\<exists>c. fst e = Cancel c))"
proof -
  let ?b1 = "put_order 1 (modify_rejected demo_order (demo_ack MODIFY_ORDER)) demo_book"
  have r: "order_modify_reject demo_order (demo_ack MODIFY_ORDER) (demo_book, demo_oms) = Inr (?b1, demo_oms)"
    by (simp add: order_modify_reject_def demo_ack_def demo_order_def live_order_def Let_def)
  have "case_sum (\<lambda>_. False) (\<lambda>(b', s'). \<exists>e\<in>set (sent_requests s'). rid e = 1) (process plain_ext demo_gateways demo_info (?b1, demo_oms))"
    by (simp add: process_eval hash_eval demo_eval demo_ack_def demo_order_def modify_rejected_def put_order_def)
  then obtain b' s' where p: "process plain_ext demo_gateways demo_info (?b1, demo_oms) = Inr (b', s')" "\<exists>e\<in>set (sent_requests s'). rid e = 1"
    by (auto split: sum.splits)
  have run: "book_run plain_ext (oa_order_id (demo_ack MODIFY_ORDER)) (?b1, demo_oms) (b', s')"
    by (rule book_run.process [OF book_run.start p(1)])
  have o: "hfind (b_orders demo_book) (oa_order_id (demo_ack MODIFY_ORDER)) = Some demo_order" "o_rejects_count demo_order \<noteq> - 1"
    "oa_order_id (demo_ack MODIFY_ORDER) = 1" "sent_requests demo_oms = []" "keys_ok demo_book"
    by (simp_all add: demo_ack_def demo_eval hash_eval demo_order_def keys_ok_def)
  from rejected_order_is_only_canceled [OF r o(1,5,2) run] o(3,4) p r show ?thesis by auto
qed

theorem create_reject_too_late_undefined_witness:
  "apply_order_ack plain_ext demo_gateways demo_info demo_order (demo_ack CREATE_ORDER) (demo_book, demo_oms) =
     Inl Undefined_Behaviour"
  by (rule create_reject_too_late_undefined) (simp_all add: demo_ack_def demo_eval hash_eval demo_order_def)

theorem timer_throttle_witness:
  "\<exists>s'. on_timer plain_ext 2000000000 demo_core start_oms = Inr s' \<and>
     on_timer plain_ext 2500000000 demo_core s' = Inr (s'\<lparr>oms_now := 2500000000\<rparr>)"
proof -
  obtain s' where r: "on_timer plain_ext 2000000000 demo_core start_oms = Inr s'"
    by (simp add: on_timer_def start_oms_def initial_oms_def get_books_def hash_eval)
  have "last_process start_oms = 0" by (simp add: start_oms_def initial_oms_def)
  with timer_throttle [OF r] have
    "\<forall>now' (c' :: unit core). now' - 2000000000 < 1000000000 \<longrightarrow> on_timer plain_ext now' c' s' = Inr (s'\<lparr>oms_now := now'\<rparr>)"
    by simp
  with r show ?thesis by simp
qed

end
