(* ===== verification/Oms_Converge.thy ===== *)
theory Oms_Converge
  imports Oms_Whole Oms_Replies
begin

text \<open>
  What one call of \<open>Manager::process\<close> does to a book in whole numbers: a pass over the orders requests
  one change, which takes an order out of a level that holds too much; what is created fills a level
  up to its target.  So a call changes nothing, or leaves fewer orders in excess or fewer sides
  unfilled.
\<close>

section \<open>The passes of \<open>process\<close> in whole numbers\<close>

text \<open>A well-formed book in whole numbers with targets \<open>T\<close>.\<close>

definition steady ::
  "'g ext \<Rightarrow> double \<Rightarrow> double list \<Rightarrow> (side \<Rightarrow> level_ident \<Rightarrow> nat) \<Rightarrow> book \<Rightarrow> bool" where
  "steady X tick ps T b \<longleftrightarrow>
     book_ok X tick ps b \<and> b_tick_size b = tick \<and> list_all (whole_order \<circ> snd) (b_orders b) \<and>
     (\<forall>side i. T side i < 2 ^ 53 - 1 \<and> level_aim side i b = Fin (of_nat (T side i)))"

definition covered :: "double \<Rightarrow> book \<Rightarrow> bool" where
  "covered tick b \<longleftrightarrow>
     (\<forall>side i. \<exists>n. counts (level_quantity side i b) n \<and> level_sum tick (b_orders b) side i \<le> n)"

lemma covered_counts: "covered tick b \<Longrightarrow> \<exists>n. counts (level_quantity side i b) n"
  unfolding covered_def by blast

lemma steadyD:
  assumes "steady X tick ps T b"
  shows "book_ok X tick ps b" "b_tick_size b = tick" "levels_wf b" "keys_ok b" "hwf (b_orders b)"
    "T side i < 2 ^ 53 - 1" "level_aim side i b = Fin (of_nat (T side i))"
  using assms book_ok_keys by (auto simp: steady_def book_ok_def)

lemma steady_order:
  assumes "steady X tick ps T b" "(k, ord) \<in> set (b_orders b)"
  shows "order_ok ps (k, ord)" "whole_order ord" "hfind (b_orders b) k = Some ord"
  using assms hd.in_entries [OF steadyD(5) [OF assms(1)], of k ord]
  by (auto simp: steady_def book_ok_def list_all_iff)

lemma steady_levels:
  assumes "steady X tick ps T b" "book_ok X tick ps b'" "b_orders b' = b_orders b" "b_tick_size b' = b_tick_size b"
    and "\<And>side i. level_aim side i b' = level_aim side i b"
  shows "steady X tick ps T b'"
  using assms by (simp add: steady_def)

lemma emplace_level_steady:
  assumes run: "emplace_level X (o_side ord) (ov_price (o_expected ord)) b = Inr (i, l, new, b')"
    and b: "steady X tick ps T b" and ord: "(k, ord) \<in> set (b_orders b)"
  shows "steady X tick ps T b'" "b_orders b' = b_orders b" "level_quantity sd j b' = level_quantity sd j b"
    "lv_expected_quantity l = level_quantity (o_side ord) i b" "lv_target_quantity l = level_aim (o_side ord) i b"
    "level_index (ov_price (o_expected ord)) tick = Some i"
proof -
  note d = steadyD [OF b] and q = emplace_level_quantity [OF run steadyD(3) [OF b]] and a = emplace_level_aim [OF run steadyD(3) [OF b]]
  from steady_order(1) [OF b ord] have "o_side ord \<noteq> SIDE_UNDEFINED" "ov_price (o_expected ord) \<in> set ps"
    by (simp_all add: order_ok_def)
  with emplace_level_total [OF d(1,2)] run have ok: "book_ok X tick ps b'" "same_frame b b'" by (metis Inr_inject Pair_inject)+
  show "b_orders b' = b_orders b" by (rule emplace_level_orders [OF run])
  with ok a b show "steady X tick ps T b'" by (intro steady_levels [OF b]) (simp_all add: same_frame_tick)
  show "level_quantity sd j b' = level_quantity sd j b" "lv_expected_quantity l = level_quantity (o_side ord) i b"
    "level_index (ov_price (o_expected ord)) tick = Some i" using q d(2) by auto
  show "lv_target_quantity l = level_aim (o_side ord) i b" using a by simp
qed

lemma accumulate_steady:
  assumes run: "accumulate_orders X b = Inr b'" and b: "steady X tick ps T b"
    and q: "counts (level_quantity sd i b) n"
  shows "steady X tick ps T b'" "b_orders b' = b_orders b"
    "counts (level_quantity sd i b') (n + level_sum tick (b_orders b) sd i)"
proof -
  note d = steadyD [OF b]
  have ok: "book_ok X tick ps b'" "same_frame b b'" "b_orders b' = b_orders b"
    using accumulate_orders_total [OF d(1,2)] run by (metis Inr_inject)+
  then show "b_orders b' = b_orders b" by simp
  show "steady X tick ps T b'"
    using ok accumulate_orders_keeps [OF run d(3)] by (intro steady_levels [OF b]) (simp_all add: same_frame_tick)
  have "level_quantity sd i b' = expected_on tick sd i (b_orders b) (level_quantity sd i b)"
    using accumulate_orders_quantity [OF run d(3)] d(2) by simp
  with expected_on_counts [OF _ q] b show "counts (level_quantity sd i b') (n + level_sum tick (b_orders b) sd i)"
    by (simp add: steady_def)
qed

text \<open>A level with room is the first found, and the new quantity fills it.\<close>

lemma find_new_level_result:
  "find_new_level X True True ord ls = Inr (Some (q, p)) \<Longrightarrow>
     \<exists>e\<in>set ls. q = lv_target_quantity (snd e) - lv_expected_quantity (snd e) \<and> p = lv_price (snd e) \<and>
       x_compare X (lv_target_quantity (snd e)) (lv_expected_quantity (snd e)) = Greater"
  by (induction ls) (auto simp: res_simps split: if_splits)

lemma level_room:
  assumes b: "steady X tick ps T b" "covered tick b" and cmp: "compare_ok X" "compare_whole X"
    and l: "(i, l) \<in> set (side_levels side b)" "x_compare X (lv_target_quantity l) (lv_expected_quantity l) = Greater"
  shows "\<exists>n. level_sum tick (b_orders b) side i \<le> n \<and> n < T side i \<and> counts (lv_expected_quantity l) n \<and>
    lv_target_quantity l - lv_expected_quantity l = Fin (of_nat (T side i - n)) \<and>
    level_index (lv_price l) tick = Some i \<and> lv_price l \<in> set ps"
proof -
  note d = steadyD [OF b(1)]
  have f: "hfind (side_levels side b) i = Some l" using l(1) hd.in_entries [OF levels_wf_side [OF d(3)]] by blast
  then have e: "lv_target_quantity l = Fin (of_nat (T side i))" "lv_expected_quantity l = level_quantity side i b"
    using d(7) [of side i] by (simp_all add: level_aim_def level_quantity_def)
  from b(2) obtain n where n: "counts (level_quantity side i b) n" "level_sum tick (b_orders b) side i \<le> n"
    by (auto simp: covered_def)
  have lt: "n < T side i" using l(2) compare_target [OF cmp n(1) d(6)] by (simp add: e)
  have "level_ok tick ps (i, l)" using book_ok_side [OF d(1), of side] l(1) by (auto simp: list_all_iff)
  moreover have "n < 2 ^ 53" "T side i < 2 ^ 53" using lt d(6) [of side i] by simp_all
  ultimately show ?thesis using n lt by (auto simp: e level_ok_def Fin_diff intro!: exI [of _ n])
qed


lemma put_order_levels [simp]:
  "level_aim sd i (put_order k ord b) = level_aim sd i b" "level_quantity sd i (put_order k ord b) = level_quantity sd i b"
  by (cases sd; simp add: level_aim_def level_quantity_def side_levels_def put_order_def)+

lemma steady_put_order:
  assumes "steady X tick ps T b" "order_ok ps (k, ord)" "whole_order ord"
  shows "steady X tick ps T (put_order k ord b)"
proof -
  have "book_ok X tick ps (put_order k ord b)" by (rule book_ok_put_order [OF _ assms(2)]) (rule steadyD [OF assms(1)])
  with assms show ?thesis by (simp add: steady_def) (simp add: put_order_def list_all_hset)
qed

text \<open>The order after a request: in flight, and canceled or fit for its level.\<close>

definition requested :: "'g ext \<Rightarrow> double \<Rightarrow> double list \<Rightarrow> (side \<Rightarrow> level_ident \<Rightarrow> nat) \<Rightarrow> book \<Rightarrow> order_ident \<Rightarrow> book \<Rightarrow> bool" where
  "requested X tick ps T b k b' \<longleftrightarrow>
     (\<exists>ord ord'. hfind (b_orders b) k = Some ord \<and> \<not> is_pending ord \<and> overfull X b ord \<and>
        is_pending ord' \<and> fits T tick (b_orders b) ord' \<and> b_orders b' = hset k ord' (b_orders b))"

lemma modify_requested:
  assumes run: "modify_order X gws k ord q p (b, s) = Inr (b', s')"
    and b: "steady X tick ps T b" and ord: "(k, ord) \<in> set (b_orders b)" "can_cancel ord" "overfull X b ord"
    and room: "level_sum tick (b_orders b) (o_side ord) i \<le> n" "n < T (o_side ord) i"
      "q = Fin (of_nat (T (o_side ord) i - n))" "level_index p tick = Some i" "p \<in> set ps"
  shows "requested X tick ps T b k b' \<and> steady X tick ps T b' \<and> (\<forall>sd j. level_quantity sd j b' = level_quantity sd j b)"
proof -
  let ?p = "(o_pending ord)\<lparr>ov_version := ov_version (o_pending ord) + 1, ov_type := MODIFY_ORDER,
              ov_price := p, ov_quantity := q\<rparr>"
  let ?ord = "ord\<lparr>o_pending := ?p, o_expected := ?p\<rparr>"
  have b': "b' = put_order k ?ord b" using run by (auto simp: modify_order_def Let_def res_simps)
  note o = steady_order [OF b ord(1)]
  have "T (o_side ord) i - n < 2 ^ 53" using steadyD(6) [OF b, of "o_side ord" i] by linarith
  with o(2) have "whole_order ?ord" by (simp add: whole_order_def amount_def room(3) is_pending_def is_done_def)
  moreover have "order_ok ps (k, ?ord)" using o(1) room(3,5) by (simp add: order_ok_def zero_double_def)
  moreover have "fits T tick (b_orders b) ?ord"
  proof -
    have "amount ?ord = T (o_side ord) i - n" using room(3) by (simp add: amount_def del: of_nat_diff)
    with room(1,2,4) show ?thesis by (auto simp: fits_def)
  qed
  moreover have "is_pending ?ord" "\<not> is_pending ord" using ord(2) by (auto simp: is_pending_def dest: can_cancel_idle)
  moreover have "b_orders b' = hset k ?ord (b_orders b)" by (simp add: b' put_order_def)
  ultimately show ?thesis
    using o(3) ord(3) steady_put_order [OF b, of k ?ord] unfolding requested_def b' by auto
qed

lemma cancel_requested:
  assumes run: "cancel_order X gws k ord (b, s) = Inr (b', s')"
    and b: "steady X tick ps T b" and ord: "(k, ord) \<in> set (b_orders b)" "can_cancel ord" "overfull X b ord"
  shows "requested X tick ps T b k b' \<and> steady X tick ps T b' \<and> (\<forall>sd j. level_quantity sd j b' = level_quantity sd j b)"
proof -
  let ?p = "(o_pending ord)\<lparr>ov_version := ov_version (o_pending ord) + 1, ov_type := CANCEL_ORDER,
              ov_price := ov_price (o_expected ord), ov_quantity := Fin 0\<rparr>"
  let ?ord = "ord\<lparr>o_pending := ?p, o_expected := ?p\<rparr>"
  have b': "b' = put_order k ?ord b" using run by (auto simp: cancel_order_def Let_def res_simps)
  note o = steady_order [OF b ord(1)]
  have amt: "amount ?ord = 0" by (simp add: amount_def)
  from o(2) have "whole_order ?ord" by (simp add: whole_order_def amt is_pending_def is_done_def)
  moreover have "order_ok ps (k, ?ord)" using o(1) by (simp add: order_ok_def zero_double_def)
  moreover have "fits T tick (b_orders b) ?ord" by (simp add: fits_def amt)
  moreover have "is_pending ?ord" "\<not> is_pending ord" using ord(2) by (auto simp: is_pending_def dest: can_cancel_idle)
  moreover have "b_orders b' = hset k ?ord (b_orders b)" by (simp add: b' put_order_def)
  ultimately show ?thesis
    using o(3) ord(3) steady_put_order [OF b, of k ?ord] unfolding requested_def b' by auto
qed

lemma can_cancel_whole: "whole_order ord \<Longrightarrow> can_cancel ord \<longleftrightarrow> \<not> is_pending ord"
  by (auto simp: can_cancel_def whole_order_def)

text \<open>A pass over the orders does nothing, or requests one change.\<close>

lemma scan_steady:
  assumes run: "scan_orders X gws os (b, s) = Inr (again, b', s')" and b: "steady X tick ps T b" "covered tick b"
    and cmp: "compare_ok X" "compare_whole X" and os: "set os \<subseteq> set (b_orders b)"
  shows "steady X tick ps T b' \<and> (\<forall>sd j. level_quantity sd j b' = level_quantity sd j b) \<and>
    (if again then \<exists>k. requested X tick ps T b k b' else b_orders b' = b_orders b \<and> s' = s)"
  using run b os
proof (induction os arbitrary: b)
  case Nil
  then show ?case by simp
next
  case (Cons e os)
  obtain k ord where e: "e = (k, ord)" by (cases e)
  from Cons.prems(1) e obtain i l new b1 where
    lev: "emplace_level X (o_side ord) (ov_price (o_expected ord)) b = Inr (i, l, new, b1)"
    by (auto simp: res_simps)
  have mem: "(k, ord) \<in> set (b_orders b)" using Cons.prems(4) e by simp
  note p = emplace_level_steady [OF lev Cons.prems(2) mem]
  have cov: "covered tick b1" using Cons.prems(3) by (simp add: covered_def p)
  have mem1: "(k, ord) \<in> set (b_orders b1)" "set os \<subseteq> set (b_orders b1)" using Cons.prems(4) e p(2) by auto
  have tick: "b_tick_size b = tick" "b_tick_size b1 = tick" using steadyD(2) [OF Cons.prems(2)] steadyD(2) [OF p(1)] by simp_all
  have aim: "level_aim sd j b1 = level_aim sd j b" for sd j using steadyD(7) [OF p(1)] steadyD(7) [OF Cons.prems(2)] by simp
  have over: "overfull X b1 o' = overfull X b o'" for o' by (simp add: overfull_def p(3) aim tick)
  have here: "overfull X b ord \<longleftrightarrow> x_compare X (lv_expected_quantity l) (lv_target_quantity l) = Greater"
    using p(4,5,6) by (simp add: overfull_def tick)
  have lift: "requested X tick ps T b1 k' b' \<Longrightarrow> requested X tick ps T b k' b'" for k'
    by (simp add: requested_def over p(2))
  have rest: ?case if "scan_orders X gws os (b1, s) = Inr (again, b', s')"
    using Cons.IH [OF that p(1) cov mem1(2)] lift by (auto simp: p(2,3) split: if_splits)
  have change: ?case if "again" "steady X tick ps T b'" "\<forall>sd j. level_quantity sd j b' = level_quantity sd j b1"
      "requested X tick ps T b1 k b'"
    using that lift by (auto simp: p(3))
  obtain cp cv where cm: "can_modify X gws b1 ord = (cp, cv)" by (cases "can_modify X gws b1 ord")
  show ?case
  proof (cases "overfull X b ord")
    case False
    with Cons.prems(1) e lev here show ?thesis by (intro rest) (simp add: res_simps)
  next
    case True
    note o1 = mem1(1) _ True [folded over]
    show ?thesis
    proof (cases "\<exists>q p. modify_order X gws k ord q p (b1, s) = Inr (b', s') \<and> again \<and> can_cancel ord \<and>
        find_new_level X True True ord (side_levels (o_side ord) b1) = Inr (Some (q, p))")
      case True
      then obtain q pr where m: "modify_order X gws k ord q pr (b1, s) = Inr (b', s')" again "can_cancel ord"
        "find_new_level X True True ord (side_levels (o_side ord) b1) = Inr (Some (q, pr))" by blast
      from find_new_level_result [OF m(4)] obtain j lv where "(j, lv) \<in> set (side_levels (o_side ord) b1)"
        "q = lv_target_quantity lv - lv_expected_quantity lv" "pr = lv_price lv"
        "x_compare X (lv_target_quantity lv) (lv_expected_quantity lv) = Greater" by auto
      with level_room [OF p(1) cov cmp this(1,4)] obtain n where "level_sum tick (b_orders b1) (o_side ord) j \<le> n"
        "n < T (o_side ord) j" "q = Fin (of_nat (T (o_side ord) j - n))" "level_index pr tick = Some j" "pr \<in> set ps" by auto
      from modify_requested [OF m(1) p(1) o1(1) m(3) o1(3) this] m(2) show ?thesis by (intro change) auto
    next
      case noMod: False
      have cc: "can_cancel ord" if "cp \<or> cv"
        using can_modify_idle [OF cm that] can_modify_confirmed [OF cm that] by (simp add: can_cancel_def)
      have "(cancel_order X gws k ord (b1, s) = Inr (b', s') \<and> again \<and> can_cancel ord) \<or>
          scan_orders X gws os (b1, s) = Inr (again, b', s')"
        using Cons.prems(1) e lev here True cm noMod cc can_modify_both [OF cm]
        by (auto simp: res_simps Let_def get_levels_Inr split: if_splits option.splits)
      then show ?thesis
      proof
        assume c: "cancel_order X gws k ord (b1, s) = Inr (b', s') \<and> again \<and> can_cancel ord"
        with cancel_requested [OF _ p(1) o1(1) _ o1(3)] show ?thesis by (intro change) auto
      qed (rule rest)
    qed
  qed
qed


text \<open>The counting is exact when no order is counted twice.\<close>

definition exact :: "double \<Rightarrow> side \<Rightarrow> book \<Rightarrow> bool" where
  "exact tick side b \<longleftrightarrow> (\<forall>i. counts (level_quantity side i b) (level_sum tick (b_orders b) side i))"

definition some_pending :: "book \<Rightarrow> bool" where
  "some_pending b \<longleftrightarrow> (\<exists>k ord. hfind (b_orders b) k = Some ord \<and> is_pending ord)"

lemma requested_eases:
  assumes "steady X tick ps T b" "requested X tick ps T b k b'"
  shows "eases T tick (b_orders b) (b_orders b') \<and> \<not> excess T tick (b_orders b') k \<and> some_pending b'"
proof -
  from assms(2) obtain ord ord' where o: "hfind (b_orders b) k = Some ord" "fits T tick (b_orders b) ord'" "is_pending ord'"
    "b_orders b' = hset k ord' (b_orders b)" by (auto simp: requested_def)
  then have "hfind (b_orders b') k = Some ord'" by (simp add: hfind_hset_Some)
  with o eases_hset [OF steadyD(5) [OF assms(1)] o(1,2)] show ?thesis by (auto simp: some_pending_def)
qed

lemma requested_excess:
  assumes b: "steady X tick ps T b" "\<And>side. exact tick side b" and cmp: "compare_ok X" and req: "requested X tick ps T b k b'"
  shows "excess T tick (b_orders b) k"
proof -
  from req obtain ord i where o: "hfind (b_orders b) k = Some ord" "\<not> is_pending ord"
    "level_index (ov_price (o_expected ord)) tick = Some i"
    "x_compare X (level_quantity (o_side ord) i b) (level_aim (o_side ord) i b) = Greater"
    using steadyD(2) [OF b(1)] by (auto simp: requested_def overfull_def)
  have "T (o_side ord) i < level_sum tick (b_orders b) (o_side ord) i"
    by (rule compare_count [OF cmp _ steadyD(6) [OF b(1)]])
      (use b(2) [of "o_side ord"] o(4) steadyD(7) [OF b(1)] in \<open>auto simp: exact_def\<close>)
  with o show ?thesis by (auto simp: excess_def is_pending_def)
qed

lemma process_again_steady:
  assumes "process_again X gws (b, s) = Inr (b', s')" "steady X tick ps T b" "compare_ok X" "compare_whole X"
    and "\<And>sd i. \<exists>n. counts (level_quantity sd i b) n"
  shows "steady X tick ps T b' \<and> covered tick b' \<and> eases T tick (b_orders b) (b_orders b')"
  using assms
proof (induction X gws "(b, s)" arbitrary: b s rule: process_again.induct)
  case (1 X gws b s)
  from "1.prems"(1) obtain ba again r where acc: "accumulate_orders X b = Inr ba"
    and sc: "scan_orders X gws (b_orders ba) (ba, s) = Inr (again, r)"
    and rest: "(if again then process_again X gws r else Inr r) = Inr (b', s')"
    unfolding process_again.simps [of X gws b s] by (auto simp: res_simps)
  obtain br sr where r: "r = (br, sr)" by (cases r)
  note as = accumulate_steady [OF acc "1.prems"(2)]
  have cov: "covered tick ba" using as(2,3) "1.prems"(5) unfolding covered_def by (metis le_add2)
  have ba: "steady X tick ps T ba" "b_orders ba = b_orders b"
    using as(1,2) "1.prems"(5) by metis+
  note d = scan_steady [OF sc [unfolded r] ba(1) cov "1.prems"(3,4) subset_refl]
  show ?case
  proof (cases again)
    case False
    with rest r d cov ba show ?thesis by (auto simp: covered_def)
  next
    case True
    with d obtain k where k: "requested X tick ps T ba k br" "steady X tick ps T br" by auto
    have q: "\<exists>n. counts (level_quantity sd i br) n" for sd i using d covered_counts [OF cov] by simp
    from rest r True have "process_again X gws (br, sr) = Inr (b', s')" by simp
    from "1.hyps" [OF acc sc [unfolded r] refl True this k(2) "1.prems"(3,4) q]
    have "steady X tick ps T b' \<and> covered tick b' \<and> eases T tick (b_orders br) (b_orders b')" .
    moreover have "eases T tick (b_orders b) (b_orders br)" using requested_eases [OF ba(1) k(1)] ba(2) by simp
    ultimately show ?thesis by (blast intro: eases_trans)
  qed
qed

lemma process_again_pends:
  assumes "process_again X gws (b, s) = Inr (b', s')" "some_pending b"
  shows "some_pending b'"
proof -
  obtain k ord where k: "hfind (b_orders b) k = Some ord" "is_pending ord" using assms(2) by (auto simp: some_pending_def)
  let ?I = "\<lambda>r. \<exists>ord. hfind (b_orders (fst r)) k = Some ord \<and> is_pending ord"
  have put: "\<exists>o1. hfind (b_orders (put_order l o' b)) k = Some o1 \<and> is_pending o1"
    if "hfind (b_orders b) k = Some o2" "is_pending o2" "is_pending o'" for b l o' o2
  proof (cases "l = k")
    case True
    with that show ?thesis by (simp add: put_order_def hfind_hset_Some)
  qed (use that in \<open>simp add: put_order_def hfind_hset_other\<close>)
  have "step_ok ?I X gws"
    unfolding step_ok_def
    by (auto simp: modify_order_def cancel_order_def Let_def res_simps is_pending_def intro!: put [unfolded is_pending_def])
  from process_again_invariant [OF this assms(1)] k show ?thesis by (auto simp: some_pending_def)
qed

text \<open>The first counting is exact: either nothing is requested, or there is one order less in excess.\<close>

lemma process_again_cases:
  assumes run: "process_again X gws (b, s) = Inr (b', s')" and b: "steady X tick ps T b" and cmp: "compare_ok X" "compare_whole X"
    and zero: "\<And>sd i. level_quantity sd i b = Fin 0"
  shows "steady X tick ps T b' \<and> covered tick b' \<and> eases T tick (b_orders b) (b_orders b') \<and>
    (b_orders b' = b_orders b \<and> s' = s \<and> (\<forall>side. exact tick side b') \<or>
     excess_count T tick (b_orders b') < excess_count T tick (b_orders b) \<and> some_pending b')"
proof -
  have z: "counts (level_quantity sd i b) 0" for sd i by (simp add: zero)
  from run obtain ba again r where acc: "accumulate_orders X b = Inr ba"
    and sc: "scan_orders X gws (b_orders ba) (ba, s) = Inr (again, r)"
    and rest: "(if again then process_again X gws r else Inr r) = Inr (b', s')"
    unfolding process_again.simps [of X gws b s] by (auto simp: res_simps)
  obtain br sr where r: "r = (br, sr)" by (cases r)
  note as = accumulate_steady [OF acc b z]
  have ex: "exact tick side ba" for side using as(2,3) by (simp add: exact_def)
  then have cov: "covered tick ba" by (auto simp: covered_def exact_def)
  note d = scan_steady [OF sc [unfolded r] as(1) cov cmp subset_refl]
  note all = process_again_steady [OF run b cmp] 
  show ?thesis
  proof (cases again)
    case False
    with rest r d as(2) ex have "b_orders b' = b_orders b" "s' = s" "\<forall>side. exact tick side b'" by (auto simp: exact_def)
    with all z show ?thesis by blast
  next
    case True
    with d obtain k where k: "requested X tick ps T ba k br" "steady X tick ps T br" by auto
    have q: "\<exists>n. counts (level_quantity sd i br) n" for sd i using d covered_counts [OF cov] by simp
    from rest r True have pa: "process_again X gws (br, sr) = Inr (b', s')" by simp
    note req = requested_eases [OF as(1) k(1)]
    have e: "eases T tick (b_orders br) (b_orders b')" using process_again_steady [OF pa k(2) cmp q] by simp
    then have no: "\<not> excess T tick (b_orders b') k" using req by (auto simp: eases_def)
    have "excess T tick (b_orders b) k" using requested_excess [OF as(1) ex cmp(1) k(1)] as(2) by simp
    moreover have "eases T tick (b_orders b) (b_orders b')" using eases_trans req e as(2) by metis
    ultimately have "excess_count T tick (b_orders b') < excess_count T tick (b_orders b)" using no by (intro eases_count_less)
    with all z process_again_pends [OF pa] req show ?thesis by blast
  qed
qed


section \<open>Creating orders\<close>

definition wanted :: "'g ext \<Rightarrow> info \<Rightarrow> book \<Rightarrow> side \<Rightarrow> level \<Rightarrow> bool" where
  "wanted X info b side l \<longleftrightarrow>
     x_compare X (lv_target_quantity l) (lv_expected_quantity l) = Greater \<and> can_create b info (level_target b side l)"

lemma create_on_level_eq:
  "create_on_level X gws info side (i, l) (b, s) = Inr r \<Longrightarrow>
     if wanted X info b side l then create_order X gws (level_target b side l) (b, s) = Inr r else r = (b, s)"
  by (auto simp: create_on_level_def wanted_def level_target_def Let_def res_simps split: if_splits)

text \<open>The order created for a level fills it.\<close>

lemma create_on_level_steady:
  assumes run: "create_on_level X gws info side (i, l) (b, s) = Inr (b', s')" and b: "steady X tick ps T b"
    and cmp: "compare_ok X" "compare_whole X" and side: "side \<noteq> SIDE_UNDEFINED"
    and l: "hfind (side_levels side b) i = Some l"
    and n: "counts (lv_expected_quantity l) n" "level_sum tick (b_orders b) side i \<le> n"
  shows "steady X tick ps T b' \<and> (\<forall>sd. side_levels sd b' = side_levels sd b) \<and> b_pending b' = b_pending b \<and>
    eases T tick (b_orders b) (b_orders b') \<and>
    (if wanted X info b side l
     then n < T side i \<and> some_pending b' \<and> (\<forall>sd j. level_sum tick (b_orders b') sd j =
       level_sum tick (b_orders b) sd j + (if sd = side \<and> j = i then T side i - n else 0))
     else b' = b \<and> s' = s)"
proof (cases "wanted X info b side l")
  case False
  with create_on_level_eq [OF run] b show ?thesis by simp
next
  case True
  note d = steadyD [OF b]
  let ?t = "level_target b side l" and ?k = "max_order_id s + 1"
  let ?ord = "created_order ?k ?t"
  have "create_order X gws ?t (b, s) = Inr (b', s')" using create_on_level_eq [OF run] True by simp
  then have fresh: "hfind (b_orders b) ?k = None" and b': "b' = b\<lparr>b_orders := hput (x_layout X) ?k ?ord (b_orders b)\<rparr>"
    by (auto simp: create_order_def res_simps Let_def)
  have e: "lv_target_quantity l = Fin (of_nat (T side i))" using d(7) [of side i] l by (simp add: level_aim_def)
  have "(i, l) \<in> set (side_levels side b)" using l hd.in_entries [OF levels_wf_side [OF d(3)]] by blast
  then have lok: "level_ok tick ps (i, l)" using book_ok_side [OF d(1), of side] by (auto simp: list_all_iff)
  have lt: "n < T side i" using True compare_target [OF cmp n(1) d(6)] by (simp add: wanted_def e)
  then have "n < 2 ^ 53" "T side i < 2 ^ 53" using d(6) [of side i] by simp_all
  then have q: "to_quantity ?t = Fin (of_nat (T side i - n))" using n(1) lt by (simp add: level_target_def e Fin_diff del: of_nat_diff)
  have o: "o_side ?ord = side" "ov_price (o_expected ?ord) = lv_price l" "is_pending ?ord"
    "ov_type (o_pending ?ord) = CREATE_ORDER" "o_traded_quantity ?ord = Fin 0" "ov_status (o_confirmed ?ord) = OS_UNDEFINED"
    by (simp_all add: created_order_def level_target_def is_pending_def Let_def default_order_def no_version_def)
  have amt: "amount ?ord = T side i - n" using q by (simp add: amount_def del: of_nat_diff)
  have w: "whole_order ?ord"
    using o amt q d(6) [of side i] by (simp add: whole_order_def is_done_def del: of_nat_diff)
  have "order_ok ps (?k, ?ord)"
    by (rule created_order_ok) (use side lok q in \<open>auto simp: level_ok_def level_target_def zero_double_def\<close>)
  then have "book_ok X tick ps b'"
    using d(1) by (simp add: b' book_ok_def hd.wf_put list_all_hput)
  moreover have "list_all (whole_order \<circ> snd) (b_orders b')" using b w by (simp add: b' steady_def list_all_hput)
  moreover have same: "side_levels sd b' = side_levels sd b" "b_tick_size b' = b_tick_size b" for sd
    by (cases sd; simp add: b' side_levels_def)+
  ultimately have "steady X tick ps T b'" using b by (simp add: steady_def level_aim_def)
  moreover have st: "stands tick sd j ?ord \<longleftrightarrow> sd = side \<and> j = i" for sd j
    using lok by (auto simp: stands_def o level_ok_def)
  moreover have "fits T tick (b_orders b) ?ord"
    using lok lt n(2) by (auto simp: fits_def o amt level_ok_def)
  then have "eases T tick (b_orders b) (b_orders b')" using eases_hput [OF d(5) fresh] by (simp add: b')
  moreover have "some_pending b'" using o(3) by (auto simp: some_pending_def b' hd.find_put [OF d(5)])
  moreover have "level_sum tick (b_orders b') sd j = level_sum tick (b_orders b) sd j + (if sd = side \<and> j = i then T side i - n else 0)" for sd j
    by (simp add: b' level_sum_hput [OF fresh] share_def st amt)
  ultimately show ?thesis using True same lt by (simp add: b')
qed

lemma create_on_level_pends:
  assumes "create_on_level X gws info side e (b, s) = Inr (b', s')" "some_pending b" "hwf (b_orders b)"
  shows "some_pending b'"
proof (cases e)
  case (Pair i l)
  from assms(2) obtain k ord where k: "hfind (b_orders b) k = Some ord" "is_pending ord" by (auto simp: some_pending_def)
  from create_on_level_eq [OF assms(1) [unfolded Pair]] have "hfind (b_orders b') k = Some ord"
    using k hd.find_put [OF assms(3)] by (auto simp: create_order_def Let_def res_simps split: if_splits)
  with k show ?thesis by (auto simp: some_pending_def)
qed

lemma wanted_cong: "b_pending b' = b_pending b \<Longrightarrow> wanted X info b' side l = wanted X info b side l"
  by (simp add: wanted_def can_create_def pending_of_def is_throttled_def level_target_def)

text \<open>All levels of a side.\<close>

lemma create_levels_steady:
  assumes "rfold (create_on_level X gws info side) ls (b, s) = Inr (b', s')" "steady X tick ps T b"
    and "compare_ok X" "compare_whole X" "side \<noteq> SIDE_UNDEFINED" "distinct (map fst ls)"
    and "\<And>i l. (i, l) \<in> set ls \<Longrightarrow> hfind (side_levels side b) i = Some l \<and>
      (\<exists>n. counts (lv_expected_quantity l) n \<and> level_sum tick (b_orders b) side i \<le> n)"
  shows "steady X tick ps T b' \<and> (\<forall>sd. side_levels sd b' = side_levels sd b) \<and> b_pending b' = b_pending b \<and>
    eases T tick (b_orders b) (b_orders b') \<and> (some_pending b \<longrightarrow> some_pending b') \<and>
    (if \<exists>e\<in>set ls. wanted X info b side (snd e) then some_pending b' else b' = b \<and> s' = s) \<and>
    (\<forall>sd j. sd \<noteq> side \<or> j \<notin> fst ` set ls \<longrightarrow> level_sum tick (b_orders b') sd j = level_sum tick (b_orders b) sd j) \<and>
    (\<forall>(i, l)\<in>set ls. if wanted X info b side l
       then \<exists>n. counts (lv_expected_quantity l) n \<and> n < T side i \<and>
         level_sum tick (b_orders b') side i = level_sum tick (b_orders b) side i + (T side i - n)
       else level_sum tick (b_orders b') side i = level_sum tick (b_orders b) side i)"
  using assms
proof (induction ls arbitrary: b s)
  case Nil
  then show ?case by simp
next
  case (Cons e ls)
  obtain i l where e: "e = (i, l)" by (cases e)
  from Cons.prems(1) obtain b1 s1 where 1: "create_on_level X gws info side (i, l) (b, s) = Inr (b1, s1)"
    and 2: "rfold (create_on_level X gws info side) ls (b1, s1) = Inr (b', s')"
    by (auto simp: e res_simps)
  from Cons.prems(7) [of i l] obtain n where l: "hfind (side_levels side b) i = Some l"
    and n: "counts (lv_expected_quantity l) n" "level_sum tick (b_orders b) side i \<le> n" by (auto simp: e)
  note st = create_on_level_steady [OF 1 Cons.prems(2-5) l n]
  have i: "i \<notin> fst ` set ls" "distinct (map fst ls)" using Cons.prems(6) e by auto
  have sum: "level_sum tick (b_orders b1) sd j = level_sum tick (b_orders b) sd j + (if sd = side \<and> j = i \<and> wanted X info b side l then T side i - n else 0)" for sd j
    using st by (cases "wanted X info b side l") auto
  have want: "wanted X info b1 side l' = wanted X info b side l'" for l' using st by (intro wanted_cong) simp
  have rest: "hfind (side_levels side b1) j = Some l' \<and>
      (\<exists>n. counts (lv_expected_quantity l') n \<and> level_sum tick (b_orders b1) side j \<le> n)" if "(j, l') \<in> set ls" for j l'
    using Cons.prems(7) [of j l'] that st i(1) by (force simp: e sum)
  note ih = Cons.IH [OF 2 conjunct1 [OF st] Cons.prems(3-5) i(2) rest]
  have pend: "some_pending b \<longrightarrow> some_pending b1" using create_on_level_pends [OF 1] steadyD(5) [OF Cons.prems(2)] by blast
  have ease: "eases T tick (b_orders b) (b_orders b')" using st ih by (blast intro: eases_trans)
  have outside: "level_sum tick (b_orders b') sd j = level_sum tick (b_orders b1) sd j" if "sd \<noteq> side \<or> j \<notin> fst ` set ls" for sd j
    using ih that by blast
  have inside: "if wanted X info b side l'
       then \<exists>n. counts (lv_expected_quantity l') n \<and> n < T side j \<and>
         level_sum tick (b_orders b') side j = level_sum tick (b_orders b) side j + (T side j - n)
       else level_sum tick (b_orders b') side j = level_sum tick (b_orders b) side j" if "(j, l') \<in> set ls" for j l'
  proof -
    have "j \<noteq> i" using that i(1) by force
    with ih that sum [of side j] show ?thesis by (auto simp: want)
  qed
  have here: "if wanted X info b side l
       then \<exists>n. counts (lv_expected_quantity l) n \<and> n < T side i \<and>
         level_sum tick (b_orders b') side i = level_sum tick (b_orders b) side i + (T side i - n)
       else level_sum tick (b_orders b') side i = level_sum tick (b_orders b) side i"
    using outside [of side i] i(1) sum [of side i] n(1) st by auto
  have act: "if \<exists>e\<in>set (e # ls). wanted X info b side (snd e) then some_pending b' else b' = b \<and> s' = s"
    using ih st by (auto simp: want e split: if_splits)
  from ih st pend ease act here inside outside sum show ?case by (auto simp: e)
qed


text \<open>A side on which an order of at least the smallest quantity is missing.\<close>

definition unfilled ::
  "(side \<Rightarrow> level_ident \<Rightarrow> nat) \<Rightarrow> double \<Rightarrow> info \<Rightarrow> (order_ident, oms_order) hash \<Rightarrow> side \<Rightarrow> bool" where
  "unfilled T tick info os side \<longleftrightarrow>
     (\<exists>i. level_sum tick os side i < T side i \<and>
        \<not> dlt (Fin (of_nat (T side i - level_sum tick os side i))) (info_min_trade_vol info))"

definition unfilled_count ::
  "(side \<Rightarrow> level_ident \<Rightarrow> nat) \<Rightarrow> double \<Rightarrow> info \<Rightarrow> (order_ident, oms_order) hash \<Rightarrow> nat" where
  "unfilled_count T tick info os =
     of_bool (unfilled T tick info os BUY) + of_bool (unfilled T tick info os SELL)"

lemma unfilled_cong:
  "(\<And>i. level_sum tick os' side i = level_sum tick os side i) \<Longrightarrow> unfilled T tick info os' side = unfilled T tick info os side"
  by (simp add: unfilled_def)

lemma create_side_steady:
  assumes run: "rfold (create_on_level X gws info side) (side_levels side b) (b, s) = Inr (b', s')"
    and b: "steady X tick ps T b" "\<And>i. \<exists>n. counts (level_quantity side i b) n \<and> level_sum tick (b_orders b) side i \<le> n"
    and cmp: "compare_ok X" "compare_whole X" and side: "side \<noteq> SIDE_UNDEFINED"
  shows "steady X tick ps T b' \<and> (\<forall>sd. side_levels sd b' = side_levels sd b) \<and> b_pending b' = b_pending b \<and>
    eases T tick (b_orders b) (b_orders b') \<and> (some_pending b \<longrightarrow> some_pending b') \<and>
    (\<forall>sd i. sd \<noteq> side \<longrightarrow> level_sum tick (b_orders b') sd i = level_sum tick (b_orders b) sd i) \<and>
    (exact tick side b \<longrightarrow> b' = b \<and> s' = s \<or>
       some_pending b' \<and> unfilled T tick info (b_orders b) side \<and> \<not> unfilled T tick info (b_orders b') side)"
proof -
  note d = steadyD [OF b(1)]
  let ?ls = "side_levels side b"
  have hw: "hwf ?ls" by (rule levels_wf_side [OF d(3)])
  have dist: "distinct (map fst ?ls)" by (rule hwf_distinct [OF hw])
  have find: "hfind ?ls i = Some l" if "(i, l) \<in> set ?ls" for i l using that hd.in_entries [OF hw] by blast
  then have lq: "lv_expected_quantity l = level_quantity side i b" "lv_target_quantity l = Fin (of_nat (T side i))" if "(i, l) \<in> set ?ls" for i l
    using that d(7) [of side i] by (auto simp: level_quantity_def level_aim_def)
  have cov: "hfind ?ls i = Some l \<and> (\<exists>n. counts (lv_expected_quantity l) n \<and> level_sum tick (b_orders b) side i \<le> n)" if "(i, l) \<in> set ?ls" for i l
    using find [OF that] lq [OF that] b(2) [of i] by simp
  note cl = create_levels_steady [OF run b(1) cmp side dist cov]
  have "b' = b \<and> s' = s \<or>
       some_pending b' \<and> unfilled T tick info (b_orders b) side \<and> \<not> unfilled T tick info (b_orders b') side" if ex: "exact tick side b"
  proof (cases "\<exists>e\<in>set ?ls. wanted X info b side (snd e)")
    case False
    with cl show ?thesis by presburger
  next
    case True
    then obtain i l where l: "(i, l) \<in> set ?ls" "wanted X info b side l" by auto
    have cnt: "counts (lv_expected_quantity l') (level_sum tick (b_orders b) side j)" if "(j, l') \<in> set ?ls" for j l'
      using lq [OF that] ex by (simp add: exact_def)
    have target: "wanted X info b side l' \<longleftrightarrow> can_create b info (level_target b side l') \<and> level_sum tick (b_orders b) side j < T side j"
      if "(j, l') \<in> set ?ls" for j l'
      using compare_target [OF cmp cnt [OF that] d(6)] by (auto simp: wanted_def lq(2) [OF that])
    have diff: "to_quantity (level_target b side l') = Fin (of_nat (T side j - level_sum tick (b_orders b) side j))"
      if "(j, l') \<in> set ?ls" "level_sum tick (b_orders b) side j < T side j" for j l'
      using cnt [OF that(1)] that(2) d(6) [of side j] by (simp add: level_target_def lq(2) [OF that(1)] Fin_diff del: of_nat_diff)
    have idle: "pending_of side b = 0" using l(2) by (auto simp: wanted_def can_create_def level_target_def word_gt_0 split: if_splits)
    then have can: "can_create b info (level_target b side l') \<longleftrightarrow> \<not> dlt (to_quantity (level_target b side l')) (info_min_trade_vol info)" for l'
      by (simp add: can_create_def level_target_def is_throttled_def)
    have before: "unfilled T tick info (b_orders b) side"
      using l target [OF l(1)] diff [OF l(1)] can [of l] by (auto simp: unfilled_def)
    have "\<not> unfilled T tick info (b_orders b') side"
    proof
      assume "unfilled T tick info (b_orders b') side"
      then obtain j where j: "level_sum tick (b_orders b') side j < T side j"
        "\<not> dlt (Fin (of_nat (T side j - level_sum tick (b_orders b') side j))) (info_min_trade_vol info)" by (auto simp: unfilled_def)
      have "T side j \<noteq> 0" using j(1) by simp
      then obtain l' where l': "hfind ?ls j = Some l'" using d(7) [of side j] by (cases "hfind ?ls j") (auto simp: level_aim_def)
      then have mem: "(j, l') \<in> set ?ls" using hd.in_entries [OF hw] by blast
      from cl mem have step: "if wanted X info b side l'
         then \<exists>n. counts (lv_expected_quantity l') n \<and> n < T side j \<and>
           level_sum tick (b_orders b') side j = level_sum tick (b_orders b) side j + (T side j - n)
         else level_sum tick (b_orders b') side j = level_sum tick (b_orders b) side j" by blast
      show False
      proof (cases "wanted X info b side l'")
        case True
        with step obtain n where n: "counts (lv_expected_quantity l') n" "n < T side j"
          "level_sum tick (b_orders b') side j = level_sum tick (b_orders b) side j + (T side j - n)" by auto
        have lt: "level_sum tick (b_orders b) side j < T side j" using True target [OF mem] by simp
        then have "n < 2 ^ 53" "level_sum tick (b_orders b) side j < 2 ^ 53" using n(2) d(6) [of side j] by simp_all
        with n(1) cnt [OF mem] have "n = level_sum tick (b_orders b) side j" by simp
        with n(3) lt j(1) show False by simp
      next
        case False
        with step j target [OF mem] diff [OF mem] can [of l'] show False by simp
      qed
    qed
    with before True cl show ?thesis by presburger
  qed
  with cl show ?thesis by blast
qed

text \<open>Creating either changes nothing, or fills a side.\<close>

lemma create_orders_steady:
  assumes run: "create_orders X gws info (b, s) = Inr (b', s')" and b: "steady X tick ps T b" "covered tick b"
    and cmp: "compare_ok X" "compare_whole X"
  shows "steady X tick ps T b' \<and> eases T tick (b_orders b) (b_orders b') \<and> (some_pending b \<longrightarrow> some_pending b') \<and>
    ((\<forall>side. exact tick side b) \<longrightarrow> b' = b \<and> s' = s \<or>
       some_pending b' \<and> unfilled_count T tick info (b_orders b') < unfilled_count T tick info (b_orders b))"
proof -
  from run obtain b1 s1 where
    1: "rfold (create_on_level X gws info BUY) (side_levels BUY b) (b, s) = Inr (b1, s1)" and
    2: "rfold (create_on_level X gws info SELL) (side_levels SELL b1) (b1, s1) = Inr (b', s')"
    by (auto simp: create_orders_def get_levels_side res_simps)
  have "\<exists>n. counts (level_quantity BUY i b) n \<and> level_sum tick (b_orders b) BUY i \<le> n" for i
    using b(2) by (simp add: covered_def)
  note c1 = create_side_steady [OF 1 b(1) this cmp side.distinct(2)]
  have same: "level_quantity sd i b1 = level_quantity sd i b" "level_sum tick (b_orders b1) SELL i = level_sum tick (b_orders b) SELL i" for sd i
    using c1 by (auto simp: level_quantity_def)
  have "\<exists>n. counts (level_quantity SELL i b1) n \<and> level_sum tick (b_orders b1) SELL i \<le> n" for i
    using b(2) by (simp add: covered_def same)
  note c2 = create_side_steady [OF 2 conjunct1 [OF c1] this cmp side.distinct(4)]
  have sell: "unfilled T tick info (b_orders b1) SELL = unfilled T tick info (b_orders b) SELL" by (rule unfilled_cong) (rule same(2))
  have buy: "unfilled T tick info (b_orders b') BUY = unfilled T tick info (b_orders b1) BUY" using c2 by (intro unfilled_cong) simp
  have "b' = b \<and> s' = s \<or> some_pending b' \<and> unfilled_count T tick info (b_orders b') < unfilled_count T tick info (b_orders b)"
    if "\<forall>side. exact tick side b"
  proof -
    have "exact tick SELL b1" using that by (simp add: exact_def same)
    with c2 have 2: "b' = b1 \<and> s' = s1 \<or>
       some_pending b' \<and> unfilled T tick info (b_orders b) SELL \<and> \<not> unfilled T tick info (b_orders b') SELL" by (simp add: sell)
    from c1 that have 1: "b1 = b \<and> s1 = s \<or>
       some_pending b1 \<and> unfilled T tick info (b_orders b) BUY \<and> \<not> unfilled T tick info (b_orders b') BUY" by (simp add: buy)
    have buy': "unfilled T tick info (b_orders b') BUY \<longrightarrow> unfilled T tick info (b_orders b) BUY" using 1 buy by auto
    have sell': "unfilled T tick info (b_orders b') SELL \<longrightarrow> unfilled T tick info (b_orders b) SELL" using 2 sell by auto
    from 1 2 buy' sell' c2 show ?thesis by (auto simp: unfilled_count_def of_bool_def)
  qed
  with c1 c2 show ?thesis by (blast intro: eases_trans)
qed


section \<open>Erasing levels\<close>

lemma erase_side_aims:
  assumes run: "rfold (\<lambda>(i, l) ls'.
      ensure (\<not> isnan (lv_price l))
       (ensure (\<not> isnan (lv_target_quantity l))
         (ensure (\<not> isnan (lv_expected_quantity l))
           (Inr (if level_is_empty X l then herase (x_layout X) i ls' else ls'))))) es ls = Inr ls'"
    and cmp: "compare_whole X" and ls: "hwf ls" "\<And>i. T i < 2 ^ 53 \<and> (case hfind ls i of None \<Rightarrow> Fin 0 | Some l \<Rightarrow> lv_target_quantity l) = Fin (of_nat (T i))"
    and es: "\<And>i l. (i, l) \<in> set es \<Longrightarrow> lv_target_quantity l = Fin (of_nat (T i))"
  shows "(case hfind ls' i of None \<Rightarrow> Fin 0 | Some l \<Rightarrow> lv_target_quantity l) = Fin (of_nat (T i))"
proof -
  have "hwf ls' \<and> (\<forall>i. (case hfind ls' i of None \<Rightarrow> Fin 0 | Some l \<Rightarrow> lv_target_quantity l) = Fin (of_nat (T i)))"
  proof (rule rfold_invariant [OF run])
    fix e ls1 ls2
    assume e: "e \<in> set es"
      and ok: "hwf ls1 \<and> (\<forall>i. (case hfind ls1 i of None \<Rightarrow> Fin 0 | Some l \<Rightarrow> lv_target_quantity l) = Fin (of_nat (T i)))"
      and step: "(case e of (i, l) \<Rightarrow> \<lambda>ls'.
        ensure (\<not> isnan (lv_price l))
         (ensure (\<not> isnan (lv_target_quantity l))
           (ensure (\<not> isnan (lv_expected_quantity l))
             (Inr (if level_is_empty X l then herase (x_layout X) i ls' else ls'))))) ls1 = Inr ls2"
    obtain i l where il: "e = (i, l)" by (cases e)
    have "T i = 0" if "level_is_empty X l"
    proof (rule ccontr)
      assume "T i \<noteq> 0"
      then have "x_compare X (Fin (of_nat (T i))) (Fin (of_nat 0)) = Greater"
        using cmp ls(2) [of i] unfolding compare_whole_def by blast
      with that es [of i l] e il show False by (simp add: level_is_empty_def)
    qed
    with step ok show "hwf ls2 \<and> (\<forall>i. (case hfind ls2 i of None \<Rightarrow> Fin 0 | Some l \<Rightarrow> lv_target_quantity l) = Fin (of_nat (T i)))"
      by (auto simp: il res_simps hd.find_erase hd.wf_erase split: if_splits)
  qed (use ls in auto)
  then show ?thesis by blast
qed

lemma erase_empty_levels_steady:
  assumes run: "erase_empty_levels X b = Inr b'" and b: "steady X tick ps T b" and cmp: "compare_whole X"
  shows "steady X tick ps T b' \<and> b_orders b' = b_orders b"
proof -
  note d = steadyD [OF b]
  have ok: "book_ok X tick ps b'" "same_frame b b'" "b_orders b' = b_orders b"
    using erase_empty_levels_total [OF d(1)] run by auto
  let ?I = "\<lambda>b'. levels_wf b' \<and> (\<forall>sd i. level_aim sd i b' = Fin (of_nat (T sd i)))"
  have "?I b'"
  proof (rule rfold_invariant [OF run [unfolded erase_empty_levels_def], where I = ?I])
    show "?I b" using d by blast
    fix side b1 b2
    assume side: "side \<in> set [BUY, SELL]" and I: "?I b1"
      and step: "rbind (get_levels side b1) (\<lambda>ls.
       rbind (rfold (\<lambda>(i, l) ls'.
           ensure (\<not> isnan (lv_price l))
            (ensure (\<not> isnan (lv_target_quantity l))
              (ensure (\<not> isnan (lv_expected_quantity l))
                (Inr (if level_is_empty X l then herase (x_layout X) i ls' else ls'))))) ls ls)
         (\<lambda>ls'. Inr (put_levels side ls' b1))) = Inr b2"
    have s: "side \<noteq> SIDE_UNDEFINED" using side by auto
    let ?ls = "side_levels side b1"
    have hw: "hwf ?ls" using I by (simp add: levels_wf_side)
    from step obtain ls' where r: "rfold (\<lambda>(i, l) ls'.
           ensure (\<not> isnan (lv_price l))
            (ensure (\<not> isnan (lv_target_quantity l))
              (ensure (\<not> isnan (lv_expected_quantity l))
                (Inr (if level_is_empty X l then herase (x_layout X) i ls' else ls'))))) ?ls ?ls = Inr ls'"
      and b2: "b2 = put_levels side ls' b1"
      by (auto simp: get_levels_side [OF s] res_simps)
    have T: "T side i < 2 ^ 53 \<and> (case hfind ?ls i of None \<Rightarrow> Fin 0 | Some l \<Rightarrow> lv_target_quantity l) = Fin (of_nat (T side i))" for i
      using I d(6) [of side i] by (simp add: level_aim_def)
    have es: "lv_target_quantity l = Fin (of_nat (T side i))" if "(i, l) \<in> set ?ls" for i l
      using T [of i] that hd.in_entries [OF hw] by auto
    have "hwf ls'" by (rule rfold_invariant [OF r]) (auto simp: hw res_simps hd.wf_erase split: if_splits)
    with I show "?I b2"
      by (simp add: b2 levels_wf_put level_aim_put_levels [OF s] erase_side_aims [OF r cmp hw T es])
  qed
  with ok b show ?thesis by (simp add: steady_def same_frame_tick)
qed


section \<open>The whole step in whole numbers\<close>

text \<open>A book that a gateway serves and that is never banned.\<close>

definition served :: "'g ext \<Rightarrow> 'g gateways \<Rightarrow> book \<times> oms \<Rightarrow> bool" where
  "served X gws = (\<lambda>(b, s).
     b_account b \<noteq> [] \<and> b_trade_gateway_name b \<noteq> [] \<and> 0 \<le> sint (b_trade_gateway_id b) \<and>
     gw_is_ready_account X {ST_CREATE_ORDER, ST_CANCEL_ORDER} (b_trade_gateway_id b) (b_account b) gws \<and>
     b_ban_until b \<le> oms_now s \<and> 0 \<le> oms_now s \<and> b_post_cancel_timeout b = 0)"

lemma served_resolved: "served X gws (b, s) \<Longrightarrow> resolve_trade_gateway gws s b = (True, b)"
  by (simp add: served_def resolve_trade_gateway_def)

lemma steady_start:
  assumes "steady X tick ps T b"
  shows "steady X tick ps T (reset_levels (b\<lparr>b_ban_until := t\<rparr>))"
proof -
  have "book_ok X tick ps (reset_levels (b\<lparr>b_ban_until := t\<rparr>))"
    by (rule book_ok_reset) (simp add: steadyD [OF assms])
  moreover have "level_aim sd i (b\<lparr>b_ban_until := t\<rparr>) = level_aim sd i b" for sd i
    by (cases sd) (simp_all add: level_aim_def side_levels_def)
  ultimately show ?thesis using assms by (simp add: steady_def reset_levels_keeps)
qed

lemma process_frame:
  assumes "process_again X gws (b, s) = Inr (b1, s1)" "create_orders X gws info (b1, s1) = Inr (b2, s')"
    "erase_empty_levels X b2 = Inr b'" "keys_ok b"
  shows "same_frame b b'"
proof -
  have b1: "same_frame b b1" "hwf (b_orders b1)"
    using process_again_sent [OF assms(1,4)] by (auto simp: updates_sent_def keys_ok_def)
  moreover have "same_frame b1 b2"
    using create_orders_sent [OF assms(2) b1(2)] by (simp add: creates_sent_def Let_def)
  moreover have "same_frame b2 b'" using erase_empty_levels_orders [OF assms(3)] by simp
  ultimately show ?thesis by (blast intro: same_frame_trans)
qed

lemma process_steady:
  assumes run: "process X gws info (b, s) = Inr (b', s')" and b: "steady X (info_tick_size info) ps T b" and served: "served X gws (b, s)"
    and cmp: "compare_ok X" "compare_whole X"
  defines "tick \<equiv> info_tick_size info"
  shows "steady X tick ps T b' \<and> served X gws (b', s') \<and>
    b_account b' = b_account b \<and> b_post_fill_timeout b' = b_post_fill_timeout b \<and>
    eases T tick (b_orders b) (b_orders b') \<and>
    (b_orders b' = b_orders b \<and> s' = s \<or>
     some_pending b' \<and>
       (excess_count T tick (b_orders b') < excess_count T tick (b_orders b) \<or>
        unfilled_count T tick info (b_orders b') < unfilled_count T tick info (b_orders b)))"
proof -
  note d = steadyD [OF b]
  let ?b = "reset_levels (b\<lparr>b_ban_until := 0\<rparr>)"
  have ready: "b_account b \<noteq> []" "b_tick_size b = info_tick_size info" "\<not> isnan (info_tick_size info)" "b_ban_until b \<le> oms_now s"
    "gw_is_ready_account X {ST_CREATE_ORDER, ST_CANCEL_ORDER} (b_trade_gateway_id b) (b_account b) gws"
    using served d(1,2) by (simp_all add: served_def book_ok_def price_grid_def)
  obtain b1 s1 b2 where pa: "process_again X gws (?b, s) = Inr (b1, s1)"
    and cr: "create_orders X gws info (b1, s1) = Inr (b2, s')" and er: "erase_empty_levels X b2 = Inr b'"
    by (rule process_ready_cases [OF run ready(1-4) served_resolved [OF served] ready(5)])
  have st: "steady X tick ps T ?b" unfolding tick_def by (rule steady_start [OF b])
  have ords: "b_orders ?b = b_orders b" by (simp add: reset_levels_keeps)
  note 1 = process_again_cases [OF pa st cmp reset_level_quantity, unfolded ords]
  from 1 have "steady X tick ps T b1" "covered tick b1" by blast+
  note 2 = create_orders_steady [OF cr this cmp]
  note 3 = erase_empty_levels_steady [OF er conjunct1 [OF 2] cmp(2)]
  have frame: "same_frame ?b b'" by (rule process_frame [OF pa cr er]) (rule steadyD [OF st])
  have "oms_now s' = oms_now s" by (rule process_now [OF run])
  with frame served have "served X gws (b', s')" "b_account b' = b_account b" "b_post_fill_timeout b' = b_post_fill_timeout b"
    by (simp_all add: served_def same_frame_def reset_levels_def Let_def)
  moreover have "eases T tick (b_orders b) (b_orders b')" using 1 2 3 eases_trans by metis
  moreover have "b_orders b' = b_orders b \<and> s' = s \<or>
     some_pending b' \<and>
       (excess_count T tick (b_orders b') < excess_count T tick (b_orders b) \<or>
        unfilled_count T tick info (b_orders b') < unfilled_count T tick info (b_orders b))"
  proof -
    have p: "some_pending b' = some_pending b2" using 3 by (simp add: some_pending_def)
    from 1 consider "b_orders b1 = b_orders b" "s1 = s" "\<forall>side. exact tick side b1"
      | "excess_count T tick (b_orders b1) < excess_count T tick (b_orders b)" "some_pending b1" by blast
    then show ?thesis
    proof cases
      case 1
      with 2 3 p show ?thesis by auto
    next
      case a: 2
      have "excess_count T tick (b_orders b2) \<le> excess_count T tick (b_orders b1)" using 2 by (intro eases_count) simp
      with a 2 3 p show ?thesis by auto
    qed
  qed
  ultimately show ?thesis using 3 by simp
qed

end
