(* ===== verification/Oms_Liveness.thy ===== *)
theory Oms_Liveness
  imports Oms_Converge
begin

text \<open>
  The order manager converges: when a gateway confirms what it is asked, one request at a time and in
  any order, there are finitely many requests, and when the last is confirmed the orders are at the
  target.
\<close>

section \<open>Replies\<close>

text \<open>
  A gateway that does what it is asked, without a fill: it confirms the price and the quantity of a
  new or modified order under some version, and reports a canceled order as canceled.
\<close>

definition answers :: "oms_order \<Rightarrow> order_update \<Rightarrow> bool" where
  "answers ord u \<longleftrightarrow>
     ou_order_id u = o_order_id ord \<and> ou_update_type u \<noteq> STALE \<and>
     ou_order_status u = (if ov_type (o_pending ord) = CANCEL_ORDER then CANCELED else WORKING) \<and>
     ou_price u = ov_price (o_expected ord) \<and> ou_remaining_quantity u = ov_quantity (o_expected ord) \<and>
     ou_traded_quantity u = o_traded_quantity ord \<and> ou_max_accepted_version u \<noteq> 0"

text \<open>
  What \<open>OrderUpdate\<close> does for the book stored under \<open>key\<close> (\<open>on_order_update_reply\<close> below): the order
  is updated, the book is stored, and the book is processed.
\<close>

inductive reply :: "'g ext \<Rightarrow> 'g gateways \<Rightarrow> info \<Rightarrow> book_ident \<Rightarrow> book \<times> oms \<Rightarrow> book \<times> oms \<Rightarrow> bool"
  for X gws info key where
  reply: "reply X gws info key (b, s) (b2, store_book (x_layout X) key b2 s2)"
    if "hfind (b_orders b) k = Some ord" "is_pending ord" "answers ord u"
      "apply_order_update X u (b, s) = Inr (t, b1, s1)"
      "process X gws info (b1, store_book (x_layout X) key b1 s1) = Inr (b2, s2)"

inductive_cases replyE: "reply X gws info key (b, s) r"

definition pending_count :: "(order_ident, oms_order) hash \<Rightarrow> nat" where
  "pending_count os = (\<Sum>e\<leftarrow>os. of_bool (is_pending (snd e)))"

text \<open>A confirmed order keeps its place and its quantity; a canceled one had none.\<close>

lemma confirmed_whole:
  assumes "answers ord u" "whole_order ord" "order_ok ps (k, ord)" "ov_type (o_pending ord) \<noteq> CANCEL_ORDER"
  shows "whole_order (confirmed_order ord u) \<and> order_ok ps (k, confirmed_order ord u) \<and> \<not> is_pending (confirmed_order ord u) \<and>
    (\<forall>tick side i. share tick side i (confirmed_order ord u) = share tick side i ord) \<and>
    o_side (confirmed_order ord u) = o_side ord \<and> ov_price (o_expected (confirmed_order ord u)) = ov_price (o_expected ord)"
  using assms
  by (auto simp: answers_def whole_order_def order_ok_def confirmed_order_def Let_def is_pending_def is_done_def share_def
      stands_def amount_def dest: nonneg_not_nan)

lemma herase_hset: "herase L k (hset k v m) = herase L k m"
proof -
  have "filter (\<lambda>e. fst e \<noteq> k) (hset k v m) = filter (\<lambda>e. fst e \<noteq> k) m"
    by (induction m) (auto simp: hset_def)
  moreover have "hset k v m = m" if "k \<notin> set (hkeys m)"
    using that by (induction m) (auto simp: hset_def hkeys_def)
  ultimately show ?thesis by (simp add: herase_def)
qed

text \<open>What an answer does to the orders of the book.\<close>

definition answered :: "'g ext \<Rightarrow> order_ident \<Rightarrow> oms_order \<Rightarrow> order_update \<Rightarrow> book \<Rightarrow> book" where
  "answered X k ord u b =
     (if ov_type (o_pending ord) = CANCEL_ORDER then b\<lparr>b_orders := herase (x_layout X) k (b_orders b)\<rparr>
      else put_order k (confirmed_order ord u) b)"

lemma apply_answer:
  assumes b: "steady X tick ps T b" and cmp: "compare_ok X" and ord: "hfind (b_orders b) k = Some ord"
    and u: "answers ord u" and timeout: "b_post_cancel_timeout b = 0"
  shows "\<exists>s1. apply_order_update X u (b, s) = Inr (None, answered X k ord u b, s1) \<and>
    oms_now s1 = oms_now s \<and> max_order_id s1 = max_order_id s \<and> books s1 = books s"
proof -
  have mem: "(k, ord) \<in> set (b_orders b)" using ord hd.in_entries [OF steadyD(5) [OF b]] by blast
  note o = steady_order [OF b mem]
  have id: "o_order_id ord = k" "ou_order_id u = k" using o(1) u by (simp_all add: order_ok_def answers_def)
  have em: "emplace_order (x_layout X) k b = (ord, False, b)" by (simp add: emplace_order_def ord)
  have fin: "isfin (o_traded_quantity ord)" using o(2) by (simp add: whole_order_def)
  have zero: "x_compare X (Fin 0) (Fin 0) \<noteq> Greater" using compare_refl [OF cmp, of "Fin 0"] by simp
  show ?thesis
  proof (cases "ov_type (o_pending ord) = CANCEL_ORDER")
    case True
    with u ord timeout show ?thesis
      by (auto simp: apply_order_update_def id em answers_def order_canceled_def Let_def canceled_order_def erase_order_def
          put_order_def hfind_hset_Some herase_hset answered_def)
  next
    case False
    have "\<not> isnan (ov_quantity (o_expected ord))" using o(2) by (auto simp: whole_order_def)
    with False u zero minus_self [OF fin] show ?thesis
      by (auto simp: apply_order_update_def id em answers_def order_confirm_def Let_def order_fills_def answered_def confirmed_order_def)
  qed
qed

text \<open>An order that is taken out.\<close>

lemma erased_steady:
  fixes k :: order_ident
  assumes b: "steady X tick ps T b"
  defines "b1 \<equiv> b\<lparr>b_orders := herase (x_layout X) k (b_orders b)\<rparr>"
  shows "steady X tick ps T b1 \<and> set (hkeys (b_orders b1)) \<subseteq> set (hkeys (b_orders b)) \<and> same_frame b b1"
proof -
  note d = steadyD [OF b]
  have sub: "set (herase (x_layout X) k (b_orders b)) \<subseteq> set (b_orders b)" by (auto simp: herase_def)
  have "book_ok X tick ps b1" using d(1) sub by (auto simp: b1_def book_ok_def hd.wf_erase list_all_iff)
  moreover have "level_aim sd i b1 = level_aim sd i b" for sd i by (cases sd) (simp_all add: b1_def level_aim_def side_levels_def)
  ultimately have "steady X tick ps T b1" using b sub by (auto simp: steady_def b1_def list_all_iff)
  with sub show ?thesis by (auto simp: b1_def hkeys_def)
qed

lemma answered_steady:
  assumes b: "steady X tick ps T b" and ord: "hfind (b_orders b) k = Some ord" "is_pending ord" and u: "answers ord u"
  defines "b1 \<equiv> answered X k ord u b"
  shows "steady X tick ps T b1 \<and> (\<forall>side i. level_sum tick (b_orders b1) side i = level_sum tick (b_orders b) side i) \<and>
    excess_count T tick (b_orders b1) \<le> excess_count T tick (b_orders b) \<and>
    pending_count (b_orders b1) < pending_count (b_orders b) \<and> set (hkeys (b_orders b1)) \<subseteq> set (hkeys (b_orders b)) \<and>
    (same_frame b b1 \<and> b_tick_size b1 = b_tick_size b)"
proof -
  note d = steadyD [OF b]
  have mem: "(k, ord) \<in> set (b_orders b)" using ord hd.in_entries [OF d(5)] by blast
  note o = steady_order [OF b mem]
  show ?thesis
  proof (cases "ov_type (o_pending ord) = CANCEL_ORDER")
    case True
    let ?os = "herase (x_layout X) k (b_orders b)"
    have b1: "b1 = b\<lparr>b_orders := ?os\<rparr>" using True by (simp add: b1_def answered_def)
    have find: "hfind ?os = (hfind (b_orders b))(k := None)" by (rule hd.find_erase [OF d(5)])
    have z: "share tick side i ord = 0" for side i using o(2) True by (simp add: whole_order_def share_def)
    have sum: "level_sum tick ?os side i = level_sum tick (b_orders b) side i" for side i
      using level_sum_herase [OF d(5) ord(1), of tick "x_layout X" side i] by (simp add: z)
    note er = erased_steady [OF b, of k, folded b1]
    have "excess T tick ?os l \<Longrightarrow> excess T tick (b_orders b) l" for l
      by (auto simp: excess_def find sum split: if_splits)
    then have "excess_count T tick ?os \<le> excess_count T tick (b_orders b)"
      unfolding excess_count_def by (intro card_mono [OF finite_excess]) auto
    moreover have "pending_count ?os < pending_count (b_orders b)"
      using sum_herase [OF d(5) ord(1), where L = "x_layout X" and f = "\<lambda>x. of_bool (is_pending x)"] ord(2) by (simp add: pending_count_def)
    ultimately show ?thesis using sum er by (simp add: b1)
  next
    case False
    let ?ord = "confirmed_order ord u" and ?os = "hset k (confirmed_order ord u) (b_orders b)"
    note w = confirmed_whole [OF u o(2,1) False]
    have b1: "b1 = put_order k ?ord b" using False by (simp add: b1_def answered_def)
    have "steady X tick ps T b1" unfolding b1 by (rule steady_put_order [OF b]) (use w in auto)
    moreover have sum: "level_sum tick ?os side i = level_sum tick (b_orders b) side i" for side i
      using level_sum_hset [OF d(5) ord(1), of tick ?ord side i] w by simp
    moreover have "excess T tick ?os l \<Longrightarrow> excess T tick (b_orders b) l" for l
      using w ord False by (cases "l = k") (auto simp: excess_def hfind_hset_Some sum)
    then have "excess_count T tick ?os \<le> excess_count T tick (b_orders b)"
      unfolding excess_count_def by (intro card_mono [OF finite_excess]) auto
    moreover have "pending_count ?os < pending_count (b_orders b)"
      using sum_hset [OF d(5) ord(1), where w = ?ord and f = "\<lambda>x. of_bool (is_pending x)"] ord(2) w by (simp add: pending_count_def)
    ultimately show ?thesis by (simp add: b1 put_order_def)
  qed
qed



section \<open>Every step comes closer\<close>

definition progress ::
  "(side \<Rightarrow> level_ident \<Rightarrow> nat) \<Rightarrow> info \<Rightarrow> ((book \<times> oms) \<times> (book \<times> oms)) set" where
  "progress T info =
     measures [\<lambda>(b, _). excess_count T (info_tick_size info) (b_orders b),
               \<lambda>(b, _). unfilled_count T (info_tick_size info) info (b_orders b),
               \<lambda>(b, _). pending_count (b_orders b)]"

lemma at_target_cong:
  assumes "b_orders b' = b_orders b" "b_tick_size b' = b_tick_size b" "\<And>sd i. level_aim sd i b' = level_aim sd i b"
  shows "at_target X info b' = at_target X info b"
  using assms by (simp add: at_target_def expected_at_def)

lemma served_cong:
  "same_frame b b' \<Longrightarrow> oms_now s' = oms_now s \<Longrightarrow> served X gws (b, s) \<Longrightarrow> served X gws (b', s')"
  by (simp add: served_def same_frame_def)

text \<open>What holds whenever \<open>process\<close> has run.\<close>

definition settled ::
  "'g ext \<Rightarrow> 'g gateways \<Rightarrow> info \<Rightarrow> double list \<Rightarrow> (side \<Rightarrow> level_ident \<Rightarrow> nat) \<Rightarrow> book \<times> oms \<Rightarrow> bool" where
  "settled X gws info ps T = (\<lambda>(b, s).
     steady X (info_tick_size info) ps T b \<and> served X gws (b, s) \<and> ids_ok (b, s) \<and>
     (some_pending b \<or> at_target X info b))"

lemma process_keeps_ids:
  assumes "process X gws info (b, s) = Inr (b', s')" "ids_ok (b, s)" "keys_ok b"
  shows "ids_ok (b', s')"
  using assms(1)
proof (cases rule: process_cases)
  case quiet
  with assms(2) show ?thesis by (simp add: ids_ok_def)
next
  case (active b0 b1 s1 b2)
  have "keys_ok b0" using assms(3) active(5) by (simp add: keys_ok_def)
  with process_again_sent [OF active(8)] obtain us where us: "keys_ok b1" "updates_sent (b0, s) (b1, s1) us" by blast
  let ?cs = "numbered_creates b1 (max_order_id s1) (missing X info b1)"
  have cr: "creates_sent (missing X info b1) (b1, s1) (b2, s')"
    using create_orders_sent [OF active(9)] us(1) by (simp add: keys_ok_def)
  have s1: "max_order_id s1 = max_order_id s" "hkeys (b_orders b1) = hkeys (b_orders b)"
    using us(2) active(5) by (simp_all add: updates_sent_def)
  have "k \<le> max_order_id s'" if "k \<in> set (hkeys (b_orders b'))" for k
  proof (cases "k \<in> rid ` set ?cs")
    case True
    with cr show ?thesis unfolding creates_sent_def Let_def prod.case by blast
  next
    case False
    have "hfind (b_orders b2) k \<noteq> None" using that erase_empty_levels_orders [OF active(10)] by (simp add: hfind_None)
    with cr False have "hfind (b_orders b1) k \<noteq> None" unfolding creates_sent_def Let_def prod.case by metis
    then have "k \<le> max_order_id s1" using assms(2) s1 by (simp add: hfind_None ids_ok_def)
    also have "max_order_id s1 \<le> max_order_id s'" using cr unfolding creates_sent_def Let_def prod.case by blast
    finally show ?thesis .
  qed
  then show ?thesis by (simp add: ids_ok_def)
qed

lemma process_settles:
  assumes run: "process X gws info (b, s) = Inr (b', s')" and b: "steady X (info_tick_size info) ps T b" and served: "served X gws (b, s)"
    and cmp: "compare_ok X" "compare_whole X" and ids: "ids_ok (b, s)"
  shows "settled X gws info ps T (b', s')"
proof -
  note d = steadyD [OF b]
  note p = process_steady [OF run b served cmp]
  have "some_pending b' \<or> at_target X info b'"
  proof (cases "some_pending b'")
    case False
    with p have same: "b_orders b' = b_orders b" "s' = s" by auto
    have idle: "\<forall>(k, ord)\<in>set (b_orders b). can_cancel ord"
    proof safe
      fix k ord assume "(k, ord) \<in> set (b_orders b)"
      from steady_order [OF b this] False same(1) show "can_cancel ord"
        by (auto simp: can_cancel_whole some_pending_def)
    qed
    have "b_account b \<noteq> []" "b_ban_until b \<le> oms_now s" "\<not> isnan (info_tick_size info)"
      "gw_is_ready_account X {ST_CREATE_ORDER, ST_CANCEL_ORDER} (b_trade_gateway_id b) (b_account b) gws"
      using served d(1) by (simp_all add: served_def book_ok_def price_grid_def)
    with process_rests [OF run d(4,3) cmp(1) _ d(2) _ _ served_resolved [OF served] _ idle] same
    have "at_target X info b" by simp
    moreover have "at_target X info b' = at_target X info b"
      using same(1) p steadyD(2,7) [OF b] steadyD(2,7) [OF conjunct1 [OF p]] by (intro at_target_cong) simp_all
    ultimately show ?thesis by simp
  qed simp
  with p process_keeps_ids [OF run ids d(4)] show ?thesis by (simp add: settled_def)
qed

lemma reply_step:
  assumes step: "reply X gws info key (b, s) r" and b: "settled X gws info ps T (b, s)" and cmp: "compare_ok X" "compare_whole X"
  shows "settled X gws info ps T r \<and> (r, (b, s)) \<in> progress T info \<and>
    b_account (fst r) = b_account b \<and> b_post_fill_timeout (fst r) = b_post_fill_timeout b"
proof -
  from step obtain k ord u t b1 s1 b2 s2 where
    reply: "r = (b2, store_book (x_layout X) key b2 s2)" "hfind (b_orders b) k = Some ord" "is_pending ord" "answers ord u"
      "apply_order_update X u (b, s) = Inr (t, b1, s1)"
      "process X gws info (b1, store_book (x_layout X) key b1 s1) = Inr (b2, s2)" by (elim replyE) blast
  let ?tick = "info_tick_size info"
  have st: "steady X ?tick ps T b" and sv: "served X gws (b, s)" and ids: "ids_ok (b, s)" using b by (simp_all add: settled_def)
  have "b_post_cancel_timeout b = 0" using sv by (simp add: served_def)
  from apply_answer [OF st cmp(1) reply(2,4) this, of s] reply(5) have b1: "b1 = answered X k ord u b"
    and s1: "oms_now s1 = oms_now s" "max_order_id s1 = max_order_id s" by auto
  let ?s1 = "store_book (x_layout X) key b1 s1"
  note a = answered_steady [OF st reply(2,3,4), folded b1]
  have sv1: "served X gws (b1, ?s1)" by (rule served_cong [OF _ _ sv]) (use a s1 in \<open>auto simp: store_book_def\<close>)
  have ids1: "ids_ok (b1, ?s1)" using ids a s1 by (auto simp: ids_ok_def store_book_def)
  note p = process_steady [OF reply(6) conjunct1 [OF a] sv1 cmp]
  have "settled X gws info ps T (b2, s2)" by (rule process_settles [OF reply(6) conjunct1 [OF a] sv1 cmp ids1])
  moreover have "settled X gws info ps T (b2, store_book (x_layout X) key b2 s2) = settled X gws info ps T (b2, s2)"
    by (simp add: settled_def served_def ids_ok_def store_book_def)
  moreover have "unfilled T ?tick info (b_orders b1) sd = unfilled T ?tick info (b_orders b) sd" for sd
    using a by (intro unfilled_cong) simp
  then have u: "unfilled_count T ?tick info (b_orders b1) = unfilled_count T ?tick info (b_orders b)" by (simp add: unfilled_count_def)
  have "excess_count T ?tick (b_orders b2) \<le> excess_count T ?tick (b_orders b1)" using p by (intro eases_count) simp
  with p a u have "((b2, store_book (x_layout X) key b2 s2), (b, s)) \<in> progress T info"
    by (auto simp: progress_def)
  moreover have "b_account b2 = b_account b" "b_post_fill_timeout b2 = b_post_fill_timeout b" using p a by (simp_all add: same_frame_def)
  ultimately show ?thesis using reply(1) by simp
qed


text \<open>An order in flight can be answered.\<close>

definition answer_of :: "oms_order \<Rightarrow> order_update" where
  "answer_of ord =
     \<lparr>ou_account = [], ou_order_id = o_order_id ord, ou_exchange = [], ou_symbol = [], ou_side = o_side ord,
      ou_order_status = (if ov_type (o_pending ord) = CANCEL_ORDER then CANCELED else WORKING),
      ou_update_type = UT_UNDEFINED, ou_price = ov_price (o_expected ord), ou_remaining_quantity = ov_quantity (o_expected ord),
      ou_traded_quantity = o_traded_quantity ord, ou_last_traded_price = NaN, ou_max_accepted_version = 1,
      ou_max_response_version = 1, ou_external_order_id = [], ou_strategy_id = 0\<rparr>"

lemma reply_exists:
  assumes b: "settled X gws info ps T (b, s)" and pending: "some_pending b"
    and world: "requests_supported X gws (b_account b)" "sends_ok X" "compare_ok X"
    and room: "unat (max_order_id s) + 2 * length ps < 2 ^ 64"
  shows "\<exists>r. reply X gws info key (b, s) r"
proof -
  from pending obtain k ord where ord: "hfind (b_orders b) k = Some ord" "is_pending ord" by (auto simp: some_pending_def)
  have st: "steady X (info_tick_size info) ps T b" and sv: "served X gws (b, s)" and ids: "ids_ok (b, s)"
    using b by (simp_all add: settled_def)
  have u: "answers ord (answer_of ord)" by (simp add: answers_def answer_of_def)
  have "b_post_cancel_timeout b = 0" using sv by (simp add: served_def)
  from apply_answer [OF st world(3) ord(1) u this, of s] obtain s1 where
    ap: "apply_order_update X (answer_of ord) (b, s) = Inr (None, answered X k ord (answer_of ord) b, s1)"
    and s1: "max_order_id s1 = max_order_id s" by blast
  let ?b1 = "answered X k ord (answer_of ord) b" and ?s1 = "store_book (x_layout X) key (answered X k ord (answer_of ord) b) s1"
  note a = answered_steady [OF st ord u]
  have "ids_ok (?b1, ?s1)" using ids a s1 by (auto simp: ids_ok_def store_book_def)
  moreover have "book_ok X (info_tick_size info) ps ?b1" "b_tick_size ?b1 = info_tick_size info" "b_account ?b1 = b_account b"
    using a steadyD(1,2) [OF conjunct1 [OF a]] by (simp_all add: same_frame_def)
  moreover have "unat (max_order_id ?s1) + 2 * length ps < 2 ^ 64" using room s1 by (simp add: store_book_def)
  ultimately obtain b2 s2 where "process X gws info (?b1, ?s1) = Inr (b2, s2)"
    using process_total [of X "info_tick_size info" ps ?b1 info gws ?s1] world by metis
  from reply.reply [OF ord u ap this] show ?thesis by blast
qed

text \<open>So confirmations alone come to an end, wherever they start.\<close>

lemma replies_end:
  assumes "settled X gws info ps T (f 0)" and cmp: "compare_ok X" "compare_whole X"
    and f: "\<And>n. reply X gws info key (f n) (f (Suc n))"
  shows False
proof -
  have step: "settled X gws info ps T r' \<and> (r', r) \<in> progress T info" if "settled X gws info ps T r" "reply X gws info key r r'" for r r'
    using reply_step [OF _ _ cmp, of gws info key "fst r" "snd r" r' ps T] that by simp
  have I: "settled X gws info ps T (f n)" for n
  proof (induction n)
    case (Suc n)
    show ?case using step [OF Suc f] by (rule conjunct1)
  qed (rule assms(1))
  have "\<forall>n. (f (Suc n), f n) \<in> progress T info" using step [OF I f] by blast
  moreover have "wf (progress T info)" by (simp add: progress_def)
  ultimately show False by (auto simp: wf_iff_no_infinite_down_chain)
qed

text \<open>
   the order manager converges.  Start with a well-formed book in whole numbers, served by a
  gateway, with orders in flight or not, and process it.  Then let the gateway confirm the orders in
  flight one by one, in any order, the book being processed after each reply as \<open>OrderUpdate\<close> does.
  This comes to an end, whatever the gateway picks; it goes on as long as an order is in flight and
  identifiers are left; and when no order is in flight, the orders are at the target.  So the order
  manager neither stops early nor goes on for ever, although orders that are wanted may be canceled
  and sent again on the way.
\<close>

theorem orders_converge:
  assumes book: "steady X (info_tick_size info) ps T b" "served X gws (b, s)" "ids_ok (b, s)"
    and world: "requests_supported X gws (b_account b)" "sends_ok X" "compare_ok X" "compare_whole X"
    and room: "unat (max_order_id s) + 2 * length ps < 2 ^ 64"
  shows "\<exists>r. process X gws info (b, s) = Inr r \<and>
    \<not> (\<exists>f. f 0 = r \<and> (\<forall>n. reply X gws info key (f n) (f (Suc n)))) \<and>
    (\<forall>b' s'. (reply X gws info key)\<^sup>*\<^sup>* r (b', s') \<longrightarrow>
       (if some_pending b' then unat (max_order_id s') + 2 * length ps < 2 ^ 64 \<longrightarrow> (\<exists>r'. reply X gws info key (b', s') r')
        else at_target X info b'))"
proof -
  note d = steadyD [OF book(1)]
  obtain b1 s1 where run: "process X gws info (b, s) = Inr (b1, s1)"
    using process_total [OF d(1) disjI1 [OF d(2)] refl world(1-3) book(3) room] by blast
  let ?I = "\<lambda>r. settled X gws info ps T r \<and> b_account (fst r) = b_account b"
  have "b_account b1 = b_account b" using process_steady [OF run book(1,2) world(3,4)] by simp
  then have start: "?I (b1, s1)" using process_settles [OF run book(1,2) world(3,4) book(3)] by simp
  have reply_ok: "?I r' \<and> (r', r) \<in> progress T info" if "?I r" "reply X gws info key r r'" for r r'
    using reply_step [OF _ _ world(3,4), of gws info key "fst r" "snd r" r' ps T] that by simp
  have "\<not> (\<exists>f. f 0 = (b1, s1) \<and> (\<forall>n. reply X gws info key (f n) (f (Suc n))))"
    using replies_end [OF _ world(3,4), of gws info ps T] start by metis
  moreover have "if some_pending b' then unat (max_order_id s') + 2 * length ps < 2 ^ 64 \<longrightarrow> (\<exists>r'. reply X gws info key (b', s') r')
      else at_target X info b'" if "(reply X gws info key)\<^sup>*\<^sup>* (b1, s1) (b', s')" for b' s'
  proof -
    from that start have I: "?I (b', s')"
    proof (induction rule: rtranclp_induct)
      case (step r r')
      from reply_ok [OF step.IH [OF step.prems] step.hyps(2)] show ?case by (rule conjunct1)
    qed
    with reply_exists [of X gws info ps T b' s' key] world(1-3) show ?thesis by (auto simp: settled_def)
  qed
  ultimately show ?thesis using run by blast
qed

text \<open>
  The step above is what \<open>OrderUpdate\<close> does when it finds the book and no fill is reported.
\<close>

lemma on_order_update_reply:
  assumes "get_book (no_oms_market\<lparr>om_symbol := ou_symbol u, om_exchange := ou_exchange u, om_account := ou_account u,
      om_strategy := ou_strategy_id u\<rparr>) (c_markets c) s = Some (key, b, info)"
    and "apply_order_update X u (b, s) = Inr (None, b1, s1)"
    and "process X (c_gateways c) info (b1, store_book (x_layout X) key b1 s1) = Inr (b2, s2)"
    and "hwf3 (books s1)" "get_market (info_market info) (c_markets c) = Some info"
  shows "on_order_update X cb u (c, s) = Inr (c, store_book (x_layout X) key b2 s2)"
proof -
  have "hfind3 (books (store_book (x_layout X) key b1 s1)) key = Some b1"
    using hd3.pair.find_put [OF assms(4)] by (simp add: store_book_def)
  with assms show ?thesis by (simp add: on_order_update_def process_stored_def)
qed



section \<open>Example\<close>

text \<open>
  An unwanted order and one that meets the target; the first call of \<open>process\<close> cancels both
  (\<open>process_disturbs_met_levels\<close> of \<open>Oms_Recount\<close>), and the run ends at the target nevertheless.
\<close>

definition run_target :: "side \<Rightarrow> level_ident \<Rightarrow> nat" where
  "run_target side i = (if side = BUY \<and> i = 101 then 5 else 0)"

lemma plain_compare_whole: "compare_whole plain_ext"
  by (simp add: compare_whole_def)

lemma demo_book_steady: "steady plain_ext (info_tick_size demo_info) [Fin 100, Fin 101] run_target demo_book"
proof -
  have "level_aim side i demo_book = Fin (of_nat (run_target side i))" for side i
    by (cases side) (auto simp: level_aim_def side_levels_def run_target_def demo_eval hash_eval)
  then show ?thesis
    using demo_book_ok by (simp add: steady_def run_target_def demo_eval whole_order_def amount_def is_done_def is_pending_def)
qed

theorem orders_converge_witness:
  "\<exists>r. process plain_ext demo_gateways demo_info (demo_book, demo_oms) = Inr r \<and>
     \<not> (\<exists>f. f 0 = r \<and> (\<forall>n. reply plain_ext demo_gateways demo_info (1, ''a'', 1) (f n) (f (Suc n)))) \<and>
     (\<forall>b' s'. (reply plain_ext demo_gateways demo_info (1, ''a'', 1))\<^sup>*\<^sup>* r (b', s') \<longrightarrow>
        \<not> some_pending b' \<longrightarrow> at_target plain_ext demo_info b')"
proof -
  have "served plain_ext demo_gateways (demo_book, demo_oms)" "ids_ok (demo_book, demo_oms)"
    "requests_supported plain_ext demo_gateways (b_account demo_book)" "sends_ok plain_ext"
    "unat (max_order_id demo_oms) + 2 * length [Fin 100, Fin 101] < 2 ^ 64"
    by (simp_all add: served_def ids_ok_def demo_eval hash_eval gw_is_ready_account_def requests_supported_def sends_ok_def)
  from orders_converge [OF demo_book_steady this(1-4) plain_compare_ok plain_compare_whole this(5), of "(1, ''a'', 1)"]
  show ?thesis by (auto split: if_splits)
qed

end
