(* ===== verification/Oms_Reports.thy ===== *)
theory Oms_Reports
  imports Oms_Liveness
begin

text \<open>
  The order manager and a gateway that also reports what was not asked for: fills, whole or in part, of
  orders with or without a request in flight, cancellations and rejections of its own.  Every such
  report is handled, and only a run with infinitely many of them does not come to rest at the target.
\<close>

section \<open>Reports\<close>

text \<open>
  The part of \<open>OrderUpdate\<close> between finding the book, stored under \<open>key\<close>, and the end of the handler, when
  the handler of trades leaves the order manager alone (\<open>on_order_update_take\<close> below).
\<close>

definition take_update ::
  "'g ext \<Rightarrow> 'g gateways \<Rightarrow> info \<Rightarrow> book_ident \<Rightarrow> order_update \<Rightarrow> book \<times> oms \<Rightarrow> (book \<times> oms) res" where
  "take_update X gws info key u r =
     rbind (apply_order_update X u r) (\<lambda>(t, b, s).
     rbind (process X gws info (b, store_book (x_layout X) key b s)) (\<lambda>(b1, s1).
       Inr (b1, store_book (x_layout X) key b1 s1)))"

text \<open>
  A report on an order: of its own side, with a finite quantity traded so far; while the order is
  working, at a price of the grid, with a remaining quantity in whole numbers and under some version.
\<close>

definition plausible :: "double list \<Rightarrow> oms_order \<Rightarrow> order_update \<Rightarrow> bool" where
  "plausible ps ord u \<longleftrightarrow>
     ou_order_id u = o_order_id ord \<and> ou_update_type u \<noteq> STALE \<and> ou_side u = o_side ord \<and> isfin (ou_traded_quantity u) \<and>
     (ou_order_status u = WORKING \<longrightarrow>
        ou_price u \<in> set ps \<and> (\<exists>n. n < 2 ^ 53 \<and> ou_remaining_quantity u = Fin (of_nat n)) \<and> ou_max_accepted_version u \<noteq> 0)"

inductive report :: "'g ext \<Rightarrow> 'g gateways \<Rightarrow> info \<Rightarrow> book_ident \<Rightarrow> double list \<Rightarrow> book \<times> oms \<Rightarrow> book \<times> oms \<Rightarrow> bool"
  for X gws info key ps where
  report: "report X gws info key ps (b, s) r"
    if "hfind (b_orders b) k = Some ord" "plausible ps ord u" "take_update X gws info key u (b, s) = Inr r"

inductive_cases reportE: "report X gws info key ps (b, s) r"

text \<open>A confirmation is an update as well.\<close>

lemma reply_takes:
  "reply X gws info key r r' \<Longrightarrow> \<exists>k ord u. hfind (b_orders (fst r)) k = Some ord \<and> answers ord u \<and> take_update X gws info key u r = Inr r'"
  by (induction rule: reply.induct) (fastforce simp: take_update_def)

lemma on_order_update_take:
  assumes "get_book (no_oms_market\<lparr>om_symbol := ou_symbol u, om_exchange := ou_exchange u, om_account := ou_account u,
      om_strategy := ou_strategy_id u\<rparr>) (c_markets c) s = Some (key, b, info)"
    and "apply_order_update X u (b, s) = Inr (t, b1, s1)" and "hwf3 (books s1)"
    and "\<And>t. cb t (c, store_book (x_layout X) key b1 s1) = Inr (c1, store_book (x_layout X) key b1 s1)"
    and "t = None \<Longrightarrow> c1 = c" and "c_gateways c1 = c_gateways c"
    and "get_market (info_market info) (c_markets c1) = Some info"
    and "take_update X (c_gateways c) info key u (b, s) = Inr (b2, s2)"
  shows "on_order_update X cb u (c, s) = Inr (c1, s2)"
proof -
  have "hfind3 (books (store_book (x_layout X) key b1 s1)) key = Some b1"
    using hd3.pair.find_put [OF assms(3)] by (simp add: store_book_def)
  with assms(1,2,4-) show ?thesis
    by (cases t) (auto simp: on_order_update_def process_stored_def take_update_def res_simps)
qed


section \<open>What a report does to the book\<close>

text \<open>The place of a book that fills move.\<close>

definition moved :: "book \<Rightarrow> book \<Rightarrow> bool" where
  "moved b b' \<longleftrightarrow> (\<exists>q t. b' = b\<lparr>b_position_by_orders := q, b_last_position_modify_time := t\<rparr>)"

lemma moved_refl [simp]: "moved b b"
  unfolding moved_def by (intro exI [of _ "b_position_by_orders b"] exI [of _ "b_last_position_modify_time b"]) simp

lemma moved_step [simp]: "moved b (b\<lparr>b_position_by_orders := q, b_last_position_modify_time := t\<rparr>)"
  by (auto simp: moved_def)

lemma order_fills_moves:
  assumes "side \<noteq> SIDE_UNDEFINED" "\<not> isnan q" "b_post_fill_timeout b = 0"
  shows "\<exists>t b'. order_fills X side p q (b, s) = Inr (t, b', s) \<and> moved b b'"
  using assms by (cases side) (auto simp: order_fills_def Let_def)

lemma moved_steady:
  assumes "moved b b'" "steady X tick ps T b"
  shows "steady X tick ps T b'"
proof -
  from assms(1) obtain q t where b': "b' = b\<lparr>b_position_by_orders := q, b_last_position_modify_time := t\<rparr>"
    by (auto simp: moved_def)
  have "level_aim sd i b' = level_aim sd i b" for sd i by (cases sd) (simp_all add: b' level_aim_def side_levels_def)
  with assms(2) show ?thesis by (simp add: steady_def book_ok_def b')
qed

lemma isnan_fl [simp]: "\<not> isnan (fl s x)"
  by (simp add: fl_def Let_def)

lemma minus_isfin: "isfin x \<Longrightarrow> isfin y \<Longrightarrow> \<not> isnan (x - y)"
  using minus_fin [of x y] by (auto simp: isnan_fl)

text \<open>
  An order reported as working, with or without a fill, stands where the report says; an order that is
  done, canceled or rejected is taken out; other reports change nothing.
\<close>

definition reported :: "'g ext \<Rightarrow> order_ident \<Rightarrow> oms_order \<Rightarrow> order_update \<Rightarrow> book \<Rightarrow> book" where
  "reported X k ord u b =
     (if ou_order_status u = WORKING then put_order k (confirmed_order ord u) b
      else if ou_order_status u \<in> {COMPLETED, CANCELED, OS_REJECTED} then b\<lparr>b_orders := herase (x_layout X) k (b_orders b)\<rparr>
      else b)"

text \<open>The part of the book requests and replies depend on besides its orders.\<close>

definition quiet_frame :: "book \<Rightarrow> book \<Rightarrow> bool" where
  "quiet_frame b b' \<longleftrightarrow>
     b_account b' = b_account b \<and> b_trade_gateway_name b' = b_trade_gateway_name b \<and>
     b_trade_gateway_id b' = b_trade_gateway_id b \<and> b_ban_until b' = b_ban_until b \<and>
     b_post_cancel_timeout b' = b_post_cancel_timeout b \<and> b_post_fill_timeout b' = b_post_fill_timeout b"

lemma reported_steady:
  assumes b: "steady X tick ps T b" and ord: "hfind (b_orders b) k = Some ord" and u: "plausible ps ord u"
  shows "steady X tick ps T (reported X k ord u b) \<and> quiet_frame b (reported X k ord u b) \<and>
    set (hkeys (b_orders (reported X k ord u b))) \<subseteq> set (hkeys (b_orders b))"
proof -
  have "(k, ord) \<in> set (b_orders b)" using ord hd.in_entries [OF steadyD(5) [OF b]] by blast
  note o = steady_order [OF b this]
  show ?thesis
  proof (cases "ou_order_status u = WORKING")
    case True
    with u obtain n where n: "n < 2 ^ 53" "ou_remaining_quantity u = Fin (of_nat n)" by (auto simp: plausible_def)
    let ?ord = "confirmed_order ord u"
    have "order_ok ps (k, ?ord)" "whole_order ?ord"
      using o u True n
      by (auto simp: plausible_def order_ok_def whole_order_def confirmed_order_def Let_def is_done_def is_pending_def amount_def
          zero_double_def)
    from steady_put_order [OF b this] True ord show ?thesis
      by (auto simp: reported_def quiet_frame_def put_order_def hkeys_hset dest: hfind_None [THEN iffD2])
  next
    case False
    with erased_steady [OF b, of k] b show ?thesis by (auto simp: reported_def quiet_frame_def same_frame_def)
  qed
qed

lemma apply_report:
  assumes b: "steady X tick ps T b" and ord: "hfind (b_orders b) k = Some ord" and u: "plausible ps ord u"
    and timeouts: "b_post_cancel_timeout b = 0" "b_post_fill_timeout b = 0"
  shows "\<exists>t b1 s1. apply_order_update X u (b, s) = Inr (t, b1, s1) \<and> moved (reported X k ord u b) b1 \<and>
    oms_now s1 = oms_now s \<and> max_order_id s1 = max_order_id s \<and> books s1 = books s"
proof -
  have mem: "(k, ord) \<in> set (b_orders b)" using ord hd.in_entries [OF steadyD(5) [OF b]] by blast
  note o = steady_order [OF b mem]
  have id: "o_order_id ord = k" "ou_order_id u = k" using o(1) u by (simp_all add: order_ok_def plausible_def)
  have em: "emplace_order (x_layout X) k b = (ord, False, b)" by (simp add: emplace_order_def ord)
  have side: "ou_side u \<noteq> SIDE_UNDEFINED" using o(1) u by (simp add: order_ok_def plausible_def)
  have fill: "\<not> isnan (ou_traded_quantity u - o_traded_quantity ord)"
    using o(2) u by (intro minus_isfin) (simp_all add: whole_order_def plausible_def)
  have fills: "\<exists>t b'. order_fills X (ou_side u) (ou_last_traded_price u) (ou_traded_quantity u - o_traded_quantity ord) (b0, s0) = Inr (t, b', s0) \<and> moved b0 b'"
    if "b_post_fill_timeout b0 = 0" for b0 :: book and s0
    by (rule order_fills_moves [OF side fill that])
  have found: "hfind (b_orders (put_order k ord' b)) k = Some ord'" for ord' by (simp add: put_order_def hfind_hset_Some ord)
  have erase: "erase_order X k (put_order k ord' b, s) =
      Inr (b\<lparr>b_orders := herase (x_layout X) k (b_orders b)\<rparr>, s\<lparr>market_by_order := herase (x_layout X) k (market_by_order s)\<rparr>)" for ord'
    using found [of ord'] by (simp add: erase_order_def) (simp add: put_order_def herase_hset)
  show ?thesis
  proof (cases "ou_order_status u")
    case WORKING
    have "\<not> isnan (ov_quantity (o_expected (confirmed_order ord u)))"
      using u WORKING by (auto simp: plausible_def confirmed_order_def Let_def)
    with fills [of "put_order k (confirmed_order ord u) b" s] timeouts u WORKING show ?thesis
      by (auto simp: apply_order_update_def id em plausible_def order_confirm_def Let_def reported_def put_order_def)
  next
    case COMPLETED
    with fills [of "b\<lparr>b_orders := herase (x_layout X) k (b_orders b)\<rparr>" "s\<lparr>market_by_order := herase (x_layout X) k (market_by_order s)\<rparr>"]
      timeouts u show ?thesis
      by (auto simp: apply_order_update_def id em plausible_def order_complete_def completed_order_def Let_def erase reported_def)
  next
    case CANCELED
    with timeouts u show ?thesis
      by (auto simp: apply_order_update_def id em plausible_def order_canceled_def canceled_order_def Let_def erase reported_def)
  next
    case OS_REJECTED
    with u ord show ?thesis
      by (auto simp: apply_order_update_def id em plausible_def Let_def erase_order_def reported_def)
  qed (use u in \<open>auto simp: apply_order_update_def id em plausible_def Let_def reported_def\<close>)
qed

section \<open>Rest\<close>

text \<open>What holds between two updates.\<close>

definition at_rest_soon ::
  "'g ext \<Rightarrow> 'g gateways \<Rightarrow> info \<Rightarrow> double list \<Rightarrow> (side \<Rightarrow> level_ident \<Rightarrow> nat) \<Rightarrow> book \<Rightarrow> book \<times> oms \<Rightarrow> bool" where
  "at_rest_soon X gws info ps T b0 r \<longleftrightarrow>
     settled X gws info ps T r \<and> b_account (fst r) = b_account b0 \<and> b_post_fill_timeout (fst r) = 0"

lemma updated_settled:
  assumes b: "steady X (info_tick_size info) ps T b" "served X gws (b, s)" "ids_ok (b, s)" "b_post_fill_timeout b = 0"
    and b1: "moved (reported X k ord u b) b1" "oms_now s1 = oms_now s" "max_order_id s1 = max_order_id s"
    and ord: "hfind (b_orders b) k = Some ord" "plausible ps ord u"
  shows "steady X (info_tick_size info) ps T b1 \<and> served X gws (b1, store_book L key b1 s1) \<and> ids_ok (b1, store_book L key b1 s1) \<and>
    b_account b1 = b_account b \<and> b_post_fill_timeout b1 = 0"
proof -
  note r = reported_steady [OF b(1) ord]
  from b1(1) obtain q t where eq: "b1 = (reported X k ord u b)\<lparr>b_position_by_orders := q, b_last_position_modify_time := t\<rparr>"
    by (auto simp: moved_def)
  show ?thesis
    using r b(2-4) b1(2,3) moved_steady [OF b1(1) conjunct1 [OF r]]
    by (auto simp: eq quiet_frame_def served_def ids_ok_def store_book_def)
qed

text \<open>Confirmations and reports keep it.\<close>

lemma reply_rests:
  assumes "reply X gws info key r r'" "at_rest_soon X gws info ps T b0 r" "compare_ok X" "compare_whole X"
  shows "at_rest_soon X gws info ps T b0 r'"
proof -
  obtain b s where "r = (b, s)" by (cases r)
  with reply_step [of X gws info key b s r' ps T] assms show ?thesis by (simp add: at_rest_soon_def)
qed

lemma report_rests:
  assumes step: "report X gws info key ps r r'" and I: "at_rest_soon X gws info ps T b0 r" and cmp: "compare_ok X" "compare_whole X"
  shows "at_rest_soon X gws info ps T b0 r'"
proof -
  obtain b s where r: "r = (b, s)" by (cases r)
  from step r obtain k ord u where ord: "hfind (b_orders b) k = Some ord" "plausible ps ord u"
    and take: "take_update X gws info key u (b, s) = Inr r'" by (auto elim: reportE)
  from I have b: "steady X (info_tick_size info) ps T b" "served X gws (b, s)" "ids_ok (b, s)" "b_post_fill_timeout b = 0"
    and acc: "b_account b = b_account b0" by (simp_all add: at_rest_soon_def settled_def r)
  have "b_post_cancel_timeout b = 0" using b(2) by (simp add: served_def)
  from apply_report [OF b(1) ord this b(4), of s] obtain t b1 s1 where
    ap: "apply_order_update X u (b, s) = Inr (t, b1, s1)" "moved (reported X k ord u b) b1" "oms_now s1 = oms_now s"
      "max_order_id s1 = max_order_id s" by blast
  let ?s1 = "store_book (x_layout X) key b1 s1"
  from take ap(1) obtain b2 s2 where run: "process X gws info (b1, ?s1) = Inr (b2, s2)"
    and r': "r' = (b2, store_book (x_layout X) key b2 s2)" by (auto simp: take_update_def res_simps)
  note u = updated_settled [OF b ap(2-4) ord, of "x_layout X" key]
  then have st: "steady X (info_tick_size info) ps T b1" "served X gws (b1, ?s1)" "ids_ok (b1, ?s1)" by simp_all
  have "settled X gws info ps T (b2, s2)" by (rule process_settles [OF run st(1,2) cmp st(3)])
  moreover have "settled X gws info ps T (b2, store_book (x_layout X) key b2 s2) = settled X gws info ps T (b2, s2)"
    by (simp add: settled_def served_def ids_ok_def store_book_def)
  ultimately show ?thesis
    using u acc process_steady [OF run st(1,2) cmp] by (simp add: at_rest_soon_def r')
qed

lemma report_handled:
  assumes I: "at_rest_soon X gws info ps T b0 (b, s)" and ord: "hfind (b_orders b) k = Some ord" "plausible ps ord u"
    and world: "requests_supported X gws (b_account b0)" "sends_ok X" "compare_ok X"
    and room: "unat (max_order_id s) + 2 * length ps < 2 ^ 64"
  shows "\<exists>r. take_update X gws info key u (b, s) = Inr r"
proof -
  from I have b: "steady X (info_tick_size info) ps T b" "served X gws (b, s)" "ids_ok (b, s)" "b_post_fill_timeout b = 0"
    and acc: "b_account b = b_account b0" by (simp_all add: at_rest_soon_def settled_def)
  have "b_post_cancel_timeout b = 0" using b(2) by (simp add: served_def)
  from apply_report [OF b(1) ord this b(4), of s] obtain t b1 s1 where
    ap: "apply_order_update X u (b, s) = Inr (t, b1, s1)" "moved (reported X k ord u b) b1" "oms_now s1 = oms_now s"
      "max_order_id s1 = max_order_id s" by blast
  let ?s1 = "store_book (x_layout X) key b1 s1"
  note u = updated_settled [OF b ap(2-4) ord, of "x_layout X" key]
  then have "book_ok X (info_tick_size info) ps b1" "b_tick_size b1 = info_tick_size info" by (auto dest: steadyD)
  moreover have "unat (max_order_id ?s1) + 2 * length ps < 2 ^ 64" using room ap(4) by (simp add: store_book_def)
  ultimately obtain b2 s2 where "process X gws info (b1, ?s1) = Inr (b2, s2)"
    using process_total [of X "info_tick_size info" ps b1 info gws ?s1] world u acc by metis
  then show ?thesis by (simp add: take_update_def ap(1))
qed

text \<open>A run of confirmations and reports.\<close>

definition updates ::
  "'g ext \<Rightarrow> 'g gateways \<Rightarrow> info \<Rightarrow> book_ident \<Rightarrow> double list \<Rightarrow> book \<times> oms \<Rightarrow> book \<times> oms \<Rightarrow> bool" where
  "updates X gws info key ps r r' \<longleftrightarrow> reply X gws info key r r' \<or> report X gws info key ps r r'"

lemma run_settles:
  assumes book: "steady X (info_tick_size info) ps T b" "served X gws (b, s)" "ids_ok (b, s)" "b_post_fill_timeout b = 0"
    and world: "requests_supported X gws (b_account b)" "sends_ok X" "compare_ok X" "compare_whole X"
    and room: "unat (max_order_id s) + 2 * length ps < 2 ^ 64"
  shows "\<exists>r. process X gws info (b, s) = Inr r \<and>
    (\<forall>f. f 0 = r \<and> (\<forall>n. updates X gws info key ps (f n) (f (Suc n))) \<longrightarrow>
       (\<forall>N. \<exists>n\<ge>N. \<not> reply X gws info key (f n) (f (Suc n)))) \<and>
    (\<forall>r'. (updates X gws info key ps)\<^sup>*\<^sup>* r r' \<longrightarrow> at_rest_soon X gws info ps T b r')"
proof -
  note d = steadyD [OF book(1)]
  obtain b1 s1 where run: "process X gws info (b, s) = Inr (b1, s1)"
    using process_total [OF d(1) disjI1 [OF d(2)] refl world(1-3) book(3) room] by blast
  let ?I = "at_rest_soon X gws info ps T b"
  have start: "?I (b1, s1)"
    using process_settles [OF run book(1,2) world(3,4) book(3)] process_steady [OF run book(1,2) world(3,4)] book(4)
    by (simp add: at_rest_soon_def)
  have keep: "?I r'" if "?I r" "updates X gws info key ps r r'" for r r'
    using that(2) reply_rests [OF _ that(1) world(3,4)] report_rests [OF _ that(1) world(3,4)] unfolding updates_def by blast
  have "\<exists>n\<ge>N. \<not> reply X gws info key (f n) (f (Suc n))" if f: "f 0 = (b1, s1)" "\<And>n. updates X gws info key ps (f n) (f (Suc n))" for f N
  proof (rule ccontr)
    assume "\<not> ?thesis"
    then have only: "reply X gws info key (f (N + n)) (f (N + Suc n))" for n by simp
    have "?I (f n)" for n by (induction n) (use start f keep in auto)
    then have "settled X gws info ps T (f (N + 0))" by (simp add: at_rest_soon_def)
    from replies_end [OF this world(3,4) only] show False .
  qed
  moreover have "?I r'" if "(updates X gws info key ps)\<^sup>*\<^sup>* (b1, s1) r'" for r'
    using that start by (induction rule: rtranclp_induct) (use keep in blast)+
  ultimately show ?thesis using run by blast
qed

text \<open>
  C3: the order manager comes to rest at its target in spite of plausible reports of the gateway.
  Start with a well-formed book in whole numbers on the tick grid which has an account and a resolved
  gateway that is ready to create and cancel, and stays so, which is not banned and has no pauses after
  fills and cancellations; the gateway supports modifications, the dispatcher does not throw,
  identifiers are left, and the comparison with tolerance says "greater" only of greater numbers and
  tells whole numbers apart.  Process it.  From then on the gateway confirms orders in flight, one by
  one and in any order, and besides reports on any order of the book: fills, whole or in part, with or
  without a request in flight, cancellations and rejections; a report is plausible: of the order's own
  side, with a finite traded quantity, and of a working order at a price of the grid with a whole
  remaining quantity and some version.  After each update the book is processed.
  Then every such report is handled without an assertion or an exception as long as identifiers are left;
  a run that goes on for ever contains infinitely many reports that were not confirmations; while an
  order is in flight there is a confirmation that is handled; and when no order is in flight, the
  orders are at the target.
\<close>

theorem orders_settle_despite_reports:
  assumes book: "steady X (info_tick_size info) ps T b" "served X gws (b, s)" "ids_ok (b, s)" "b_post_fill_timeout b = 0"
    and world: "requests_supported X gws (b_account b)" "sends_ok X" "compare_ok X" "compare_whole X"
    and room: "unat (max_order_id s) + 2 * length ps < 2 ^ 64"
  shows "\<exists>r. process X gws info (b, s) = Inr r \<and>
    (\<forall>f. f 0 = r \<and> (\<forall>n. updates X gws info key ps (f n) (f (Suc n))) \<longrightarrow> (\<forall>N. \<exists>n\<ge>N. \<not> reply X gws info key (f n) (f (Suc n)))) \<and>
    (\<forall>b' s'. (updates X gws info key ps)\<^sup>*\<^sup>* r (b', s') \<longrightarrow>
       (unat (max_order_id s') + 2 * length ps < 2 ^ 64 \<longrightarrow>
          (\<forall>k ord u. hfind (b_orders b') k = Some ord \<and> plausible ps ord u \<longrightarrow>
             (\<exists>r'. take_update X gws info key u (b', s') = Inr r')) \<and>
          (some_pending b' \<longrightarrow> (\<exists>r'. reply X gws info key (b', s') r'))) \<and>
       (\<not> some_pending b' \<longrightarrow> at_target X info b'))"
proof -
  obtain r where run: "process X gws info (b, s) = Inr r" "\<forall>f. f 0 = r \<and> (\<forall>n. updates X gws info key ps (f n) (f (Suc n))) \<longrightarrow>
       (\<forall>N. \<exists>n\<ge>N. \<not> reply X gws info key (f n) (f (Suc n)))"
    and I: "\<And>r'. (updates X gws info key ps)\<^sup>*\<^sup>* r r' \<Longrightarrow> at_rest_soon X gws info ps T b r'"
    using run_settles [OF book world room, of key] by blast
  have "(unat (max_order_id s') + 2 * length ps < 2 ^ 64 \<longrightarrow>
        (\<forall>k ord u. hfind (b_orders b') k = Some ord \<and> plausible ps ord u \<longrightarrow>
           (\<exists>r'. take_update X gws info key u (b', s') = Inr r')) \<and>
        (some_pending b' \<longrightarrow> (\<exists>r'. reply X gws info key (b', s') r'))) \<and>
     (\<not> some_pending b' \<longrightarrow> at_target X info b')" if "at_rest_soon X gws info ps T b (b', s')" for b' s'
    using reply_exists [of X gws info ps T b' s' key] report_handled [OF that _ _ world(1-3), of _ _ _ key] world(1-3) that
    by (auto simp: at_rest_soon_def settled_def)
  with run I show ?thesis by blast
qed


section \<open>Example\<close>

text \<open>
  The book of the example of \<open>Oms_Liveness\<close>: after the first run every report on its orders is handled, and
  confirmations alone come to an end.
\<close>

theorem orders_settle_despite_reports_witness:
  "\<exists>b s. process plain_ext demo_gateways demo_info (demo_book, demo_oms) = Inr (b, s) \<and>
     (\<forall>k ord u. hfind (b_orders b) k = Some ord \<and> plausible [Fin 100, Fin 101] ord u \<longrightarrow>
       (\<exists>r'. take_update plain_ext demo_gateways demo_info (1, ''a'', 1) u (b, s) = Inr r')) \<and>
     \<not> (\<exists>f. f 0 = (b, s) \<and> (\<forall>n. reply plain_ext demo_gateways demo_info (1, ''a'', 1) (f n) (f (Suc n))))"
proof -
  let ?ps = "[Fin 100, Fin 101]" and ?key = "(1, ''a'', 1) :: book_ident"
  have pre: "served plain_ext demo_gateways (demo_book, demo_oms)" "ids_ok (demo_book, demo_oms)" "b_post_fill_timeout demo_book = 0"
    "requests_supported plain_ext demo_gateways (b_account demo_book)" "sends_ok plain_ext"
    "unat (max_order_id demo_oms) + 2 * length ?ps < 2 ^ 64"
    by (simp_all add: served_def ids_ok_def demo_eval hash_eval gw_is_ready_account_def requests_supported_def sends_ok_def)
  have room: "unat (max_order_id s) + 2 * length ?ps < 2 ^ 64"
    if "process plain_ext demo_gateways demo_info (demo_book, demo_oms) = Inr (b, s)" for b s
    using that by (simp add: process_eval hash_eval demo_eval) auto
  let ?reply = "reply plain_ext demo_gateways demo_info ?key" and ?updates = "updates plain_ext demo_gateways demo_info ?key ?ps"
  note main = orders_settle_despite_reports [OF demo_book_steady pre(1-5) plain_compare_ok plain_compare_whole pre(6), of ?key]
  then obtain r where r: "process plain_ext demo_gateways demo_info (demo_book, demo_oms) = Inr r"
    and ends: "\<And>f. f 0 = r \<Longrightarrow> (\<forall>n. ?updates (f n) (f (Suc n))) \<Longrightarrow> \<forall>N. \<exists>n\<ge>N. \<not> ?reply (f n) (f (Suc n))"
    and rest: "\<And>b s. ?updates\<^sup>*\<^sup>* r (b, s) \<Longrightarrow> unat (max_order_id s) + 2 * length ?ps < 2 ^ 64 \<Longrightarrow>
      \<forall>k ord u. hfind (b_orders b) k = Some ord \<and> plausible ?ps ord u \<longrightarrow> (\<exists>r'. take_update plain_ext demo_gateways demo_info ?key u (b, s) = Inr r')"
    by (elim exE conjE) blast
  obtain b s where bs: "r = (b, s)" by (cases r)
  have "\<not> (\<exists>f. f 0 = (b, s) \<and> (\<forall>n. ?reply (f n) (f (Suc n))))" using ends [unfolded bs] unfolding updates_def by blast
  moreover note rest [unfolded bs, OF rtranclp.rtrancl_refl room [OF r [unfolded bs]]]
  ultimately show ?thesis using r bs by blast
qed

end
