(* ===== verification/Oms_Quotes.thy ===== *)
theory Oms_Quotes
  imports Oms_Reports
begin

text \<open>
  From target quotes to orders: \<open>TargetQuotes\<close> replaces the targets of the levels of a book, and the
  order manager then brings the orders there.  At rest the quantity ordered at every level is the
  quantity quoted.
\<close>

section \<open>The targets\<close>

text \<open>The part of \<open>operator()(TargetQuotes)\<close> between finding the book and processing it.\<close>

definition retarget :: "'g ext \<Rightarrow> quotes \<Rightarrow> book \<Rightarrow> book res" where
  "retarget X tq b =
     rbind (set_targets X BUY (qs_buy tq) (clear_targets BUY b)) (\<lambda>b1.
       set_targets X SELL (qs_sell tq) (clear_targets SELL b1))"

text \<open>What a list of quotes asks for at a level: the volume of the last one there.\<close>

definition quoted_from :: "double \<Rightarrow> level_ident \<Rightarrow> nat \<Rightarrow> exec_quote list \<Rightarrow> nat" where
  "quoted_from tick i =
     foldl (\<lambda>n q. if level_index (eq_price q) tick = Some i then nat \<lfloor>rval (eq_volume q)\<rfloor> else n)"

definition quoted_targets :: "double \<Rightarrow> quotes \<Rightarrow> side \<Rightarrow> level_ident \<Rightarrow> nat" where
  "quoted_targets tick tq side i =
     (case side of BUY \<Rightarrow> quoted_from tick i 0 (qs_buy tq) | SELL \<Rightarrow> quoted_from tick i 0 (qs_sell tq) | _ \<Rightarrow> 0)"

text \<open>Quotes without a price, or at a price of the grid with a volume in whole numbers.\<close>

definition whole_quotes :: "double list \<Rightarrow> exec_quote list \<Rightarrow> bool" where
  "whole_quotes ps = list_all (\<lambda>q. exec_quote_empty q \<or>
     eq_price q \<in> set ps \<and> (\<exists>n. n < 2 ^ 53 - 1 \<and> eq_volume q = Fin (of_nat n)))"

lemma level_index_nan: "isnan p \<Longrightarrow> level_index p tick = None"
  by (cases p) (auto simp: level_index_def Let_def)

lemma quoted_from_simps [simp]:
  "quoted_from tick i n [] = n"
  "quoted_from tick i n (q # qs) =
     quoted_from tick i (if level_index (eq_price q) tick = Some i then nat \<lfloor>rval (eq_volume q)\<rfloor> else n) qs"
  by (simp_all add: quoted_from_def)

lemma cleared_aim:
  "(case hfind (map (\<lambda>(i, l). (i, l\<lparr>lv_target_quantity := Fin 0, lv_exec_inst := {}\<rparr>)) ls) i of
      None \<Rightarrow> Fin 0 | Some l \<Rightarrow> lv_target_quantity l) = Fin 0"
  by (induction ls) (auto simp: hfind_def)

lemma cleared_keys: "hkeys (map (\<lambda>(i, l). (i, l\<lparr>lv_target_quantity := Fin 0, lv_exec_inst := {}\<rparr>)) ls) = hkeys ls"
  by (induction ls) (auto simp: hkeys_def)

lemma clear_targets_steady:
  assumes b: "steady X tick ps T b" and side: "side \<noteq> SIDE_UNDEFINED"
  shows "steady X tick ps (T(side := (\<lambda>_. 0))) (clear_targets side b) \<and>
    b_orders (clear_targets side b) = b_orders b \<and> same_frame b (clear_targets side b)"
proof -
  let ?ls = "map (\<lambda>(i, l). (i, l\<lparr>lv_target_quantity := Fin 0, lv_exec_inst := {}\<rparr>)) (side_levels side b)"
  note d = steadyD [OF b]
  have eq: "clear_targets side b = put_levels side ?ls b" by (simp add: clear_targets_def get_levels_side [OF side])
  have "list_all (level_ok tick ps) ?ls"
    using book_ok_side [OF d(1), of side] by (auto simp: list_all_iff level_ok_def zero_double_def)
  then have "book_ok X tick ps (put_levels side ?ls b)"
    using book_ok_side [OF d(1), of side] by (intro book_ok_put_levels [OF d(1)]) (simp_all add: hwf_def cleared_keys)
  moreover have "level_aim sd i (put_levels side ?ls b) = (if sd = side then Fin 0 else level_aim sd i b)" for sd i
    by (simp add: level_aim_put_levels [OF side] cleared_aim)
  moreover have "b_orders (put_levels side ?ls b) = b_orders b" by (cases side) (simp_all add: put_levels_def)
  moreover have "same_frame b (put_levels side ?ls b)" by simp
  ultimately show ?thesis using b unfolding eq by (auto simp: steady_def same_frame_def)
qed

text \<open>One quote.\<close>

lemma set_target_steady:
  assumes b: "steady X tick ps T b" and side: "side \<noteq> SIDE_UNDEFINED"
    and q: "eq_price q \<in> set ps" "n < 2 ^ 53 - 1" "eq_volume q = Fin (of_nat n)"
  shows "\<exists>i l new b1. emplace_level X side (eq_price q) b = Inr (i, l, new, b1) \<and> level_index (eq_price q) tick = Some i \<and>
    (let b2 = put_level side i (l\<lparr>lv_target_quantity := eq_volume q, lv_exec_inst := eq_exec_inst q\<rparr>) b1 in
     steady X tick ps (T(side := (T side)(i := n))) b2 \<and> b_orders b2 = b_orders b \<and> same_frame b b2)"
proof -
  note d = steadyD [OF b]
  obtain i l new b1 where em: "emplace_level X side (eq_price q) b = Inr (i, l, new, b1)" and b1: "book_ok X tick ps b1"
    "same_frame b b1" "b_orders b1 = b_orders b" "level_ok tick ps (i, l)"
    by (rule emplace_level_total [OF d(1,2) side q(1)])
  let ?l = "l\<lparr>lv_target_quantity := eq_volume q, lv_exec_inst := eq_exec_inst q\<rparr>"
  let ?b = "put_level side i ?l b1"
  note e = emplace_level_quantity [OF em d(3)] and a = emplace_level_aim [OF em d(3)]
  have "level_ok tick ps (i, ?l)" using b1(4) q(3) by (simp add: level_ok_def zero_double_def)
  then have "book_ok X tick ps ?b" by (rule book_ok_put_level [OF b1(1)])
  moreover have "level_aim sd j ?b = Fin (of_nat ((T(side := (T side)(i := n))) sd j))" for sd j
    using a d(7) e(3) q(3) unfolding put_level_levels level_aim_put_levels [OF side]
    by (auto simp: hfind_hset_Some hfind_hset_other level_aim_def split: option.splits)
  moreover have ord: "b_orders ?b = b_orders b"
    using b1 side by (cases side) (simp_all add: put_level_def)
  moreover have fr: "same_frame b ?b" using b1 by simp
  ultimately have "steady X tick ps (T(side := (T side)(i := n))) ?b"
    using b q(2) by (auto simp: steady_def same_frame_def)
  with em e(2) d(2) ord fr show ?thesis by (auto simp: Let_def)
qed

lemma set_targets_steady:
  assumes "steady X tick ps T b" and side: "side \<noteq> SIDE_UNDEFINED" and "whole_quotes ps qs"
  shows "\<exists>b'. set_targets X side qs b = Inr b' \<and> b_orders b' = b_orders b \<and> same_frame b b' \<and>
    steady X tick ps (T(side := (\<lambda>i. quoted_from tick i (T side i) qs))) b'"
  using assms(1,3)
proof (induction qs arbitrary: b T)
  case Nil
  then show ?case by (simp add: set_targets_def)
next
  case (Cons q qs)
  note b = Cons.prems(1)
  have qs: "whole_quotes ps qs" using Cons.prems(2) by (simp add: whole_quotes_def)
  show ?case
  proof (cases "exec_quote_empty q")
    case True
    then have "set_targets X side (q # qs) b = set_targets X side qs b" by (simp add: set_targets_def)
    moreover have "level_index (eq_price q) tick = None" using True by (simp add: exec_quote_empty_def level_index_nan)
    ultimately show ?thesis using Cons.IH [OF b qs] by simp
  next
    case False
    with Cons.prems(2) obtain n where n: "eq_price q \<in> set ps" "n < 2 ^ 53 - 1" "eq_volume q = Fin (of_nat n)"
      by (auto simp: whole_quotes_def)
    from set_target_steady [OF b side this] obtain i l new b1 b2 where
      em: "emplace_level X side (eq_price q) b = Inr (i, l, new, b1)" "level_index (eq_price q) tick = Some i"
      and b2: "b2 = put_level side i (l\<lparr>lv_target_quantity := eq_volume q, lv_exec_inst := eq_exec_inst q\<rparr>) b1"
      and st: "steady X tick ps (T(side := (T side)(i := n))) b2"
      and fr: "b_orders b2 = b_orders b" "same_frame b b2" unfolding Let_def by blast
    let ?T = "T(side := (T side)(i := n))"
    have "set_targets X side (q # qs) b = set_targets X side qs b2" using False em(1) by (simp add: set_targets_def b2)
    moreover have "?T(side := (\<lambda>j. quoted_from tick j (?T side j) qs)) = T(side := (\<lambda>j. quoted_from tick j (T side j) (q # qs)))"
      using em(2) by (auto simp: fun_eq_iff n(3))
    moreover from Cons.IH [OF st qs] obtain b' where "set_targets X side qs b2 = Inr b'" "b_orders b' = b_orders b2" "same_frame b2 b'"
      "steady X tick ps (?T(side := (\<lambda>j. quoted_from tick j (?T side j) qs))) b'" by blast
    ultimately show ?thesis using fr same_frame_trans [OF fr(2)] by (intro exI [of _ b']) metis
  qed
qed

lemma retarget_side:
  assumes b: "steady X tick ps T b" and side: "side \<noteq> SIDE_UNDEFINED" and q: "whole_quotes ps qs"
  shows "\<exists>b'. set_targets X side qs (clear_targets side b) = Inr b' \<and> b_orders b' = b_orders b \<and> same_frame b b' \<and>
    steady X tick ps (T(side := (\<lambda>i. quoted_from tick i 0 qs))) b'"
proof -
  note 1 = clear_targets_steady [OF b side]
  from set_targets_steady [OF conjunct1 [OF 1] side q] obtain b' where
    b': "set_targets X side qs (clear_targets side b) = Inr b'" "b_orders b' = b_orders (clear_targets side b)"
      "same_frame (clear_targets side b) b'" "steady X tick ps (T(side := (\<lambda>i. quoted_from tick i 0 qs))) b'"
    by auto
  with 1 same_frame_trans [of b "clear_targets side b" b'] show ?thesis by auto
qed

lemma retarget_steady:
  assumes b: "steady X tick ps T b" and q: "whole_quotes ps (qs_buy tq)" "whole_quotes ps (qs_sell tq)"
  shows "\<exists>b'. retarget X tq b = Inr b' \<and> b_orders b' = b_orders b \<and> same_frame b b' \<and>
    steady X tick ps (quoted_targets tick tq) b'"
proof -
  from retarget_side [OF b _ q(1), of BUY] obtain b1 where
    b1: "set_targets X BUY (qs_buy tq) (clear_targets BUY b) = Inr b1" "b_orders b1 = b_orders b" "same_frame b b1"
      "steady X tick ps (T(BUY := (\<lambda>i. quoted_from tick i 0 (qs_buy tq)))) b1" by auto
  from retarget_side [OF b1(4) _ q(2), of SELL] obtain b2 where
    b2: "set_targets X SELL (qs_sell tq) (clear_targets SELL b1) = Inr b2" "b_orders b2 = b_orders b1" "same_frame b1 b2"
      "steady X tick ps (T(BUY := (\<lambda>i. quoted_from tick i 0 (qs_buy tq)), SELL := (\<lambda>i. quoted_from tick i 0 (qs_sell tq)))) b2" by auto
  have "T SIDE_UNDEFINED i = 0" for i using steadyD(7) [OF b, of SIDE_UNDEFINED i] by (simp add: level_aim_def side_levels_def hd.find_empty)
  then have "T(BUY := (\<lambda>i. quoted_from tick i 0 (qs_buy tq)), SELL := (\<lambda>i. quoted_from tick i 0 (qs_sell tq))) = quoted_targets tick tq"
    by (auto simp: fun_eq_iff quoted_targets_def split: side.splits)
  with b1 b2 same_frame_trans [OF b1(3) b2(3)] show ?thesis by (simp add: retarget_def)
qed


section \<open>At rest\<close>

text \<open>
  What is relied on here: what is at least one lot more is greater to the comparison with tolerance,
  and the market lets every lot be traded (no minimal volume is known, or one of at most a lot).
\<close>

definition compare_lots :: "'g ext \<Rightarrow> bool" where
  "compare_lots X \<longleftrightarrow> (\<forall>m n q. m < (2 :: nat) ^ 53 \<and> n < m \<and> Fin (of_nat m) \<le> q \<longrightarrow> x_compare X q (Fin (of_nat n)) = Greater)"

definition lots_tradable :: "info \<Rightarrow> bool" where
  "lots_tradable info \<longleftrightarrow> (\<forall>n. 0 < n \<and> n < (2 :: nat) ^ 53 \<longrightarrow> \<not> dlt (Fin (of_nat n)) (info_min_trade_vol info))"

lemma compare_lots_whole: "compare_lots X \<Longrightarrow> compare_whole X"
  unfolding compare_lots_def compare_whole_def
proof (intro allI impI)
  fix m n :: nat
  assume "\<forall>m n q. m < (2 :: nat) ^ 53 \<and> n < m \<and> Fin (of_nat m) \<le> q \<longrightarrow> x_compare X q (Fin (of_nat n)) = Greater" "m < 2 ^ 53" "n < m"
  moreover have "Fin (of_nat m) \<le> Fin (of_nat m)" by simp
  ultimately show "x_compare X (Fin (of_nat m)) (Fin (of_nat n)) = Greater" by blast
qed

lemma compare_count_lots:
  assumes "compare_lots X" "counts q n" "t < n" "t < 2 ^ 53 - 1"
  shows "x_compare X q (Fin (of_nat t)) = Greater"
proof -
  have lt: "t + 1 < 2 ^ 53" using assms(4) by simp
  have "Fin (of_nat (t + 1)) \<le> q"
  proof (cases "n < 2 ^ 53")
    case True
    have "(of_nat (t + 1) :: rat) \<le> of_nat n" using assms(3) by (subst of_nat_le_iff) simp
    with True assms(2) show ?thesis by simp
  next
    case False
    have "(of_nat (t + 1) :: rat) \<le> of_nat (2 ^ 53 - 1)" using assms(4) by (subst of_nat_le_iff) simp
    with False assms(2) show ?thesis by (cases q) (auto simp: counts_def of_nat_diff)
  qed
  with lt assms(1) show ?thesis unfolding compare_lots_def by (metis less_add_one)
qed

lemma target_met:
  assumes b: "steady X tick ps T b" and at: "at_target X info b" and cmp: "compare_ok X" "compare_lots X"
    and lots: "lots_tradable info" and side: "side \<in> {BUY, SELL}"
  shows "level_sum tick (b_orders b) side i = T side i"
proof -
  note d = steadyD [OF b]
  have whole: "compare_whole X" by (rule compare_lots_whole [OF cmp(2)])
  have "counts (expected_at b side i) (0 + level_sum tick (b_orders b) side i)"
    unfolding expected_at_def d(2) by (rule expected_on_counts) (use b in \<open>auto simp: steady_def\<close>)
  then have c: "counts (expected_at b side i) (level_sum tick (b_orders b) side i)" by simp
  have "\<not> level_sum tick (b_orders b) side i < T side i"
  proof
    assume lt: "level_sum tick (b_orders b) side i < T side i"
    moreover have t: "T side i < 2 ^ 53" using d(6) [of side i] by simp
    ultimately have "level_aim side i b - expected_at b side i = Fin (of_nat (T side i - level_sum tick (b_orders b) side i))"
      using c d(7) [of side i] by (simp add: Fin_diff del: of_nat_diff)
    moreover have "x_compare X (level_aim side i b) (expected_at b side i) = Greater"
      using compare_target [OF cmp(1) whole c d(6)] lt d(7) by simp
    ultimately have "dlt (Fin (of_nat (T side i - level_sum tick (b_orders b) side i))) (info_min_trade_vol info)"
      using at side by (auto simp: at_target_def simp del: of_nat_diff)
    with lots lt t show False unfolding lots_tradable_def by (metis less_imp_diff_less zero_less_diff)
  qed
  moreover have "\<not> T side i < level_sum tick (b_orders b) side i"
  proof
    assume lt: "T side i < level_sum tick (b_orders b) side i"
    then have "level_sum tick (b_orders b) side i \<noteq> 0" by simp
    then obtain k ord where ord: "(k, ord) \<in> set (b_orders b)" "share tick side i ord \<noteq> 0" by (auto simp: level_sum_def)
    then have "o_side ord = side" "level_index (ov_price (o_expected ord)) (b_tick_size b) = Some i"
      using d(2) by (auto simp: share_def stands_def split: if_splits)
    with at ord(1) have "x_compare X (expected_at b side i) (level_aim side i b) \<noteq> Greater" by (auto simp: at_target_def)
    with compare_count_lots [OF cmp(2) c lt d(6)] d(7) show False by simp
  qed
  ultimately show ?thesis by simp
qed

text \<open>
  C2: the orders become the quotes.  The book is well-formed, in whole numbers on the tick grid; it has
  an account and a resolved gateway that is ready to create and cancel, and stays so; it is not banned
  and has no pause after fills and cancellations; the gateway supports modifications, the dispatcher
  does not throw, identifiers are left, the comparison with tolerance says "greater" only of greater
  numbers and tells lots apart, and the market lets every lot be traded.  Whatever its targets were,
  it is given new target quotes in whole numbers on the grid and processed; then the gateway confirms
  and reports, as plausible in theory \<open>Oms_Reports\<close>.  Setting the targets and processing return; only
  infinitely many reports that confirm nothing keep the gateway and the order manager from coming to
  rest; and whenever no order is in flight, the quantity ordered at every level of both sides is the
  quantity quoted there, zero where nothing is quoted.
\<close>

theorem orders_become_quotes:
  assumes book: "steady X (info_tick_size info) ps T b" "served X gws (b, s)" "ids_ok (b, s)" "b_post_fill_timeout b = 0"
    and quotes: "whole_quotes ps (qs_buy tq)" "whole_quotes ps (qs_sell tq)"
    and world: "requests_supported X gws (b_account b)" "sends_ok X" "compare_ok X" "compare_lots X" "lots_tradable info"
    and room: "unat (max_order_id s) + 2 * length ps < 2 ^ 64"
  shows "\<exists>b1 r. retarget X tq b = Inr b1 \<and> process X gws info (b1, s) = Inr r \<and>
    (\<forall>f. f 0 = r \<and> (\<forall>n. updates X gws info key ps (f n) (f (Suc n))) \<longrightarrow>
       (\<forall>N. \<exists>n\<ge>N. \<not> reply X gws info key (f n) (f (Suc n)))) \<and>
    (\<forall>b' s'. (updates X gws info key ps)\<^sup>*\<^sup>* r (b', s') \<and> \<not> some_pending b' \<longrightarrow>
       (\<forall>i. level_sum (info_tick_size info) (b_orders b') BUY i = quoted_from (info_tick_size info) i 0 (qs_buy tq) \<and>
            level_sum (info_tick_size info) (b_orders b') SELL i = quoted_from (info_tick_size info) i 0 (qs_sell tq)))"
proof -
  let ?tick = "info_tick_size info" and ?T = "quoted_targets (info_tick_size info) tq"
  from retarget_steady [OF book(1) quotes] obtain b1 where
    b1: "retarget X tq b = Inr b1" "b_orders b1 = b_orders b" "same_frame b b1" "steady X ?tick ps ?T b1" by blast
  then have "served X gws (b1, s)" "ids_ok (b1, s)" "b_post_fill_timeout b1 = 0" "requests_supported X gws (b_account b1)"
    using book(2-4) world(1) by (simp_all add: served_def ids_ok_def same_frame_def)
  from run_settles [OF b1(4) this(1-3) this(4) world(2,3) compare_lots_whole [OF world(4)] room, of key]
  obtain r where run: "process X gws info (b1, s) = Inr r" "\<forall>f. f 0 = r \<and> (\<forall>n. updates X gws info key ps (f n) (f (Suc n))) \<longrightarrow>
       (\<forall>N. \<exists>n\<ge>N. \<not> reply X gws info key (f n) (f (Suc n)))"
    and I: "\<And>r'. (updates X gws info key ps)\<^sup>*\<^sup>* r r' \<Longrightarrow> at_rest_soon X gws info ps ?T b1 r'" by blast
  have "level_sum ?tick (b_orders b') side i = ?T side i"
    if "at_rest_soon X gws info ps ?T b1 (b', s')" "\<not> some_pending b'" "side \<in> {BUY, SELL}" for b' s' side i
    using that target_met [OF _ _ world(3,4,5) that(3), of ?tick ps ?T b' i] by (auto simp: at_rest_soon_def settled_def)
  then have "level_sum ?tick (b_orders b') BUY i = quoted_from ?tick i 0 (qs_buy tq) \<and>
      level_sum ?tick (b_orders b') SELL i = quoted_from ?tick i 0 (qs_sell tq)"
    if "at_rest_soon X gws info ps ?T b1 (b', s')" "\<not> some_pending b'" for b' s' i
    using that by (force simp: quoted_targets_def)
  with b1(1) run I show ?thesis by blast
qed

text \<open>
  The step above is what \<open>TargetQuotes\<close> does with the book it finds, before all books are processed.
\<close>

lemma on_target_quotes_retargets:
  assumes "qs_account tq \<noteq> []" "\<not> isnan (info_tick_size info)"
    and "emplace_market (x_layout X)
      \<lparr>m_market = qs_market tq, m_symbol = qs_symbol tq, m_exchange = qs_exchange tq, m_account = [], m_strategy_id = 0\<rparr>
      (c_markets c) = Inr (info, new, ms1)"
    and "emplace_book (x_layout X) (oms_market_merge info
        (no_oms_market\<lparr>om_account := qs_account tq, om_portfolio := qs_portfolio tq, om_strategy := qs_strategy tq\<rparr>)) (ms1, s) =
      Inr (key, b, fresh, ms2, s1)"
    and "b_tick_size b = info_tick_size info" "deq (b_tick_size b) (info_tick_size info)"
      "b_exchange b = qs_exchange tq" "b_symbol b = qs_symbol tq"
    and "retarget X tq b = Inr b1"
  shows "on_target_quotes X tq (c, s) =
    rbind (get_books X ms2 (process X (c_gateways c)) (store_book (x_layout X) key b1 s1)) (\<lambda>s2. Inr (c\<lparr>c_markets := ms2\<rparr>, s2))"
proof -
  have "set_tick_size (info_tick_size info) b = Inr b" using assms(2,5,6) by (simp add: set_tick_size_def double_empty_def)
  moreover obtain b2 where "set_targets X BUY (qs_buy tq) (clear_targets BUY b) = Inr b2"
    "set_targets X SELL (qs_sell tq) (clear_targets SELL b2) = Inr b1" using assms(9) by (auto simp: retarget_def res_simps)
  ultimately show ?thesis using assms(1-4,7,8) by (simp add: on_target_quotes_def Let_def)
qed


section \<open>Example\<close>

definition demo_retarget :: quotes where
  "demo_retarget = \<lparr>qs_market = 1, qs_symbol = ''s'', qs_exchange = ''e'', qs_account = ''a'', qs_portfolio = 1, qs_strategy = 1,
     qs_buy = [no_exec_quote\<lparr>eq_price := Fin 100, eq_volume := Fin 7\<rparr>],
     qs_sell = [no_exec_quote]\<rparr>"

lemma plain_compare_lots: "compare_lots plain_ext"
proof -
  have "x_compare plain_ext q (Fin (of_nat n)) = Greater" if "n < m" "Fin (of_nat m) \<le> q" for m n :: nat and q
    using that by (cases q) auto
  then show ?thesis unfolding compare_lots_def by blast
qed

theorem orders_become_quotes_witness:
  "\<exists>b1 r. retarget plain_ext demo_retarget demo_book = Inr b1 \<and> process plain_ext demo_gateways demo_info (b1, demo_oms) = Inr r \<and>
     (\<forall>b' s'. (updates plain_ext demo_gateways demo_info (1, ''a'', 1) [Fin 100, Fin 101])\<^sup>*\<^sup>* r (b', s') \<and> \<not> some_pending b' \<longrightarrow>
        level_sum (Fin 1) (b_orders b') BUY 100 = 7 \<and> level_sum (Fin 1) (b_orders b') BUY 101 = 0)"
proof -
  let ?ps = "[Fin 100, Fin 101]"
  have pre: "served plain_ext demo_gateways (demo_book, demo_oms)" "ids_ok (demo_book, demo_oms)" "b_post_fill_timeout demo_book = 0"
    "requests_supported plain_ext demo_gateways (b_account demo_book)" "sends_ok plain_ext" "lots_tradable demo_info"
    "unat (max_order_id demo_oms) + 2 * length ?ps < 2 ^ 64"
    by (simp_all add: served_def ids_ok_def demo_eval hash_eval gw_is_ready_account_def requests_supported_def sends_ok_def
        lots_tradable_def dlt_def double_compare_nan)
  have q: "whole_quotes ?ps (qs_buy demo_retarget)" "whole_quotes ?ps (qs_sell demo_retarget)"
    by (auto simp: whole_quotes_def demo_retarget_def no_exec_quote_def exec_quote_empty_def intro!: exI [of _ 7])
  have t: "info_tick_size demo_info = Fin 1" by (simp add: demo_info_def)
  have v: "quoted_from (Fin 1) 100 0 (qs_buy demo_retarget) = 7" "quoted_from (Fin 1) 101 0 (qs_buy demo_retarget) = 0"
    by (simp_all add: demo_retarget_def level_index_def Let_def)
  from orders_become_quotes [OF demo_book_steady pre(1-3) q pre(4,5) plain_compare_ok plain_compare_lots pre(6,7), of "(1, ''a'', 1)"]
  obtain b1 r where r: "retarget plain_ext demo_retarget demo_book = Inr b1" "process plain_ext demo_gateways demo_info (b1, demo_oms) = Inr r"
    and rest: "\<And>b' s' i. (updates plain_ext demo_gateways demo_info (1, ''a'', 1) ?ps)\<^sup>*\<^sup>* r (b', s') \<Longrightarrow> \<not> some_pending b' \<Longrightarrow>
      level_sum (Fin 1) (b_orders b') BUY i = quoted_from (Fin 1) i 0 (qs_buy demo_retarget)" unfolding t by blast
  from rest [of _ _ 100, unfolded v] rest [of _ _ 101, unfolded v] have
    "\<forall>b' s'. (updates plain_ext demo_gateways demo_info (1, ''a'', 1) ?ps)\<^sup>*\<^sup>* r (b', s') \<and> \<not> some_pending b' \<longrightarrow>
        level_sum (Fin 1) (b_orders b') BUY 100 = 7 \<and> level_sum (Fin 1) (b_orders b') BUY 101 = 0" by blast
  with r show ?thesis by blast
qed

end
