(* ===== verification/Oms_Recount.thy ===== *)
theory Oms_Recount
  imports Oms_Quotes
begin

text \<open>
  What the second counting of \<open>Manager::process\<close> does: the sums of the levels are not reset before it,
  so orders are counted twice, and whatever the levels hold, an order is changed as soon as its level
  together with the order itself exceeds the target.
\<close>

section \<open>Passes\<close>

text \<open>A pass that requests nothing leaves no order that could be canceled on a level with too much.\<close>

lemma scan_orders_rests:
  assumes "scan_orders X gws os (b, s) = Inr (False, r)" "levels_wf b" "(k, ord) \<in> set os" "overfull X b ord"
  shows "\<not> can_cancel ord"
  using assms
proof (induction os arbitrary: b)
  case (Cons e os)
  obtain k' o' where e: "e = (k', o')" by (cases e)
  from Cons.prems(1) e obtain i l new b1 where
    lev: "emplace_level X (o_side o') (ov_price (o_expected o')) b = Inr (i, l, new, b1)"
    by (auto simp: res_simps)
  note q = emplace_level_quantity [OF lev Cons.prems(2)] and a = emplace_level_aim [OF lev Cons.prems(2)]
  have tick: "b_tick_size b1 = b_tick_size b" using emplace_level_frame [OF lev] by (rule same_frame_tick)
  have over: "overfull X b1 ord" using Cons.prems(4) q(4) a by (simp add: overfull_def tick)
  have here: "overfull X b o' \<longleftrightarrow> x_compare X (lv_expected_quantity l) (lv_target_quantity l) = Greater"
    using q(2,6) a by (simp add: overfull_def)
  from Cons.prems(1) lev here e have rest: "scan_orders X gws os (b1, s) = Inr (False, r)"
    and no: "overfull X b o' \<longrightarrow> \<not> can_cancel o'"
    by (auto simp: res_simps Let_def split: if_splits option.splits prod.splits)
  show ?case
  proof (cases "(k, ord) = (k', o')")
    case True
    with no Cons.prems(4) show ?thesis by simp
  next
    case False
    with Cons.prems(3) e have "(k, ord) \<in> set os" by auto
    from Cons.IH [OF rest q(5) this over] show ?thesis .
  qed
qed simp

lemma process_again_in_flight:
  assumes run: "process_again X gws (b, s) = Inr (b', s')" and k: "hfind (b_orders b) k = Some ord" "is_pending ord" "keys_ok b"
  shows "\<exists>ord. hfind (b_orders b') k = Some ord \<and> is_pending ord"
proof -
  obtain us where us: "updates_sent (b, s) (b', s') us" using process_again_sent [OF run k(3)] by blast
  show ?thesis
  proof (cases "k \<in> rid ` set us")
    case True
    with us show ?thesis unfolding updates_sent_def prod.case by blast
  next
    case False
    with us have "hfind (b_orders b') k = hfind (b_orders b) k" unfolding updates_sent_def prod.case by blast
    with k show ?thesis by simp
  qed
qed

lemma share_le_level_sum:
  assumes "hfind os k = Some ord" "hwf os"
  shows "share tick sd i ord \<le> level_sum tick os sd i"
proof -
  have "(k, ord) \<in> set os" using assms by (simp add: hd.in_entries)
  then have "share tick sd i ord \<in> set (map (\<lambda>e. share tick sd i (snd e)) os)" by force
  then show ?thesis unfolding level_sum_def by (rule member_le_sum_list) simp
qed

text \<open>
  Counted from a sum \<open>n\<close> that leaves no room for the order \<open>k\<close>, the passes do not end before the
  order is in flight.
\<close>

lemma process_again_disturbs:
  assumes "process_again X gws (b, s) = Inr (b', s')" "steady X tick ps T b" "compare_ok X" "compare_lots X"
    and "\<And>sd i. \<exists>n. counts (level_quantity sd i b) n"
    and "hfind (b_orders b) k = Some ord" "is_pending ord \<or> stands tick sd i ord \<and>
       (\<exists>n. counts (level_quantity sd i b) n \<and> T sd i < n + amount ord)"
  shows "\<exists>ord'. hfind (b_orders b') k = Some ord' \<and> is_pending ord'"
  using assms
proof (induction X gws "(b, s)" arbitrary: b s ord rule: process_again.induct)
  case (1 X gws b s)
  have whole: "compare_whole X" by (rule compare_lots_whole [OF "1.prems"(4)])
  show ?case
  proof (cases "is_pending ord")
    case True
    from process_again_in_flight [OF "1.prems"(1,6) this steadyD(4) [OF "1.prems"(2)]] show ?thesis .
  next
    case idle: False
    then obtain n where n: "counts (level_quantity sd i b) n" "T sd i < n + amount ord" and here: "stands tick sd i ord"
      using "1.prems"(7) by blast
    from "1.prems"(1) obtain ba again r where acc: "accumulate_orders X b = Inr ba"
      and sc: "scan_orders X gws (b_orders ba) (ba, s) = Inr (again, r)"
      and rest: "(if again then process_again X gws r else Inr r) = Inr (b', s')"
      unfolding process_again.simps [of X gws b s] by (auto simp: res_simps)
    obtain br sr where r: "r = (br, sr)" by (cases r)
    note as = accumulate_steady [OF acc "1.prems"(2)]
    have ba: "steady X tick ps T ba" "b_orders ba = b_orders b" using as(1,2) "1.prems"(5) by metis+
    have cov: "covered tick ba" using as(2,3) "1.prems"(5) unfolding covered_def by (metis le_add2)
    let ?n = "n + level_sum tick (b_orders b) sd i"
    have cnt: "counts (level_quantity sd i ba) ?n" by (rule as(3) [OF n(1)])
    have "share tick sd i ord = amount ord" using here by (simp add: share_def)
    with share_le_level_sum [OF "1.prems"(6) steadyD(5) [OF "1.prems"(2)], of tick sd i] n(2)
    have big: "T sd i < ?n" by simp
    have mem: "(k, ord) \<in> set (b_orders ba)" using "1.prems"(6) ba hd.in_entries [OF steadyD(5) [OF ba(1)]] by simp
    have over: "overfull X ba ord"
      using here compare_count_lots [OF "1.prems"(4) cnt big steadyD(6) [OF ba(1)]] steadyD(2,7) [OF ba(1)]
      by (auto simp: overfull_def stands_def)
    have cc: "can_cancel ord" using can_cancel_whole [OF steady_order(2) [OF ba(1) mem]] idle by simp
    have again: again
      using scan_orders_rests [OF _ steadyD(3) [OF ba(1)] mem over, of gws s r] sc cc by (cases again) auto
    note d = scan_steady [OF sc [unfolded r] ba(1) cov "1.prems"(3) whole subset_refl]
    with again obtain k' where k': "requested X tick ps T ba k' br" and st: "steady X tick ps T br" by auto
    have q: "\<exists>n. counts (level_quantity sd i br) n" for sd i using d covered_counts [OF cov] by simp
    from rest r again have pa: "process_again X gws (br, sr) = Inr (b', s')" by simp
    obtain o1 where o1: "hfind (b_orders br) k = Some o1" "is_pending o1 \<or> o1 = ord"
      using k' "1.prems"(6) ba(2) by (cases "k = k'") (auto simp: requested_def hfind_hset_Some)
    have "is_pending o1 \<or> stands tick sd i o1 \<and> (\<exists>n. counts (level_quantity sd i br) n \<and> T sd i < n + amount o1)"
      using o1(2) here d cnt big by auto
    from "1.hyps" [OF acc sc [unfolded r] refl again pa st "1.prems"(3,4) q o1(1) this] show ?thesis .
  qed
qed


section \<open>The whole step\<close>

text \<open>
  C23: once \<open>Manager::process\<close> modifies or cancels any order of a well-formed book in whole numbers,
  it disturbs every level that holds what it should: an order with nothing in flight on a level whose
  orders sum up to so much that the order itself would not fit once more (such as any order on a
  level that is exactly at its target) is modified or canceled in the same call.  After the first
  change the code jumps to \<open>again\<close> and adds the orders to the sums a second time without a reset.
  (The book has an account, a resolved gateway that serves it and no pause after cancellations, and
  is not banned; the comparison with tolerance says "greater" only of greater numbers and tells lots
  apart.)
\<close>

theorem process_disturbs_met_levels:
  assumes run: "process X gws info (b, s) = Inr (b', s')" and b: "steady X (info_tick_size info) ps T b" and served: "served X gws (b, s)"
    and cmp: "compare_ok X" "compare_lots X"
    and change: "e \<in> set (drop (length (sent_requests s)) (sent_requests s'))" "\<not> is_create (fst e)"
    and ord: "hfind (b_orders b) k = Some ord" "\<not> is_pending ord" "stands (info_tick_size info) side i ord"
    and met: "T side i < level_sum (info_tick_size info) (b_orders b) side i + amount ord"
  shows "(\<exists>ord'. hfind (b_orders b') k = Some ord' \<and> is_pending ord') \<and>
    (\<exists>e\<in>set (drop (length (sent_requests s)) (sent_requests s')). rid e = k \<and> \<not> is_create (fst e))"
proof -
  let ?tick = "info_tick_size info" and ?b = "reset_levels (b\<lparr>b_ban_until := 0\<rparr>)"
  note d = steadyD [OF b]
  have whole: "compare_whole X" by (rule compare_lots_whole [OF cmp(2)])
  have ready: "b_account b \<noteq> []" "b_tick_size b = ?tick" "\<not> isnan ?tick" "b_ban_until b \<le> oms_now s"
    "gw_is_ready_account X {ST_CREATE_ORDER, ST_CANCEL_ORDER} (b_trade_gateway_id b) (b_account b) gws"
    using served d(1,2) by (simp_all add: served_def book_ok_def price_grid_def)
  obtain b1 s1 b2 where pa: "process_again X gws (?b, s) = Inr (b1, s1)"
    and cr: "create_orders X gws info (b1, s1) = Inr (b2, s')" and er: "erase_empty_levels X b2 = Inr b'"
    by (rule process_ready_cases [OF run ready(1-4) served_resolved [OF served] ready(5)])
  have st: "steady X ?tick ps T ?b" by (rule steady_start [OF b])
  have ords: "b_orders ?b = b_orders b" by (simp add: reset_levels_keeps)
  obtain us where us: "updates_sent (?b, s) (b1, s1) us" "keys_ok b1" using process_again_sent [OF pa steadyD(4) [OF st]] by blast
  then have creates: "creates_sent (missing X info b1) (b1, s1) (b2, s')" using create_orders_sent [OF cr] by (simp add: keys_ok_def)
  have sent: "sent_requests s' = sent_requests s @ us @ numbered_creates b1 (max_order_id s1) (missing X info b1)"
    using us(1) creates by (simp add: updates_sent_def creates_sent_def Let_def)
  have "e \<in> set us"
    using change numbered_creates_request [of e b1 "max_order_id s1" "missing X info b1"] by (auto simp: sent)
  from pa obtain ba again r where acc: "accumulate_orders X ?b = Inr ba"
    and sc: "scan_orders X gws (b_orders ba) (ba, s) = Inr (again, r)"
    and rest: "(if again then process_again X gws r else Inr r) = Inr (b1, s1)"
    unfolding process_again.simps [of X gws ?b s] by (auto simp: res_simps)
  obtain br sr where r: "r = (br, sr)" by (cases r)
  have z: "counts (level_quantity sd j ?b) 0" for sd j by (simp add: reset_level_quantity)
  note as = accumulate_steady [OF acc st z, unfolded ords]
  have cov: "covered ?tick ba" using as(2,3) unfolding covered_def by (metis add_0 order_refl)
  note ps = scan_steady [OF sc [unfolded r] as(1) cov cmp(1) whole subset_refl]
  have again: again
  proof (rule ccontr)
    assume "\<not> again"
    with ps rest r have "s1 = s" by simp
    moreover have "sent_requests s1 = sent_requests s @ us" using us(1) by (simp add: updates_sent_def)
    ultimately show False using \<open>e \<in> set us\<close> by simp
  qed
  with ps obtain k' where k': "requested X ?tick ps T ba k' br" and st': "steady X ?tick ps T br" by auto
  have q: "\<exists>n. counts (level_quantity sd j br) n" for sd j using ps covered_counts [OF cov] by simp
  obtain o1 where o1: "hfind (b_orders br) k = Some o1" "is_pending o1 \<or> o1 = ord"
    using k' ord(1) as(2) by (cases "k = k'") (auto simp: requested_def hfind_hset_Some)
  have "counts (level_quantity side i br) (level_sum ?tick (b_orders b) side i)" using ps as(3) by simp
  then have ready2: "is_pending o1 \<or> stands ?tick side i o1 \<and> (\<exists>n. counts (level_quantity side i br) n \<and> T side i < n + amount o1)"
    using o1(2) ord(3) met by blast
  have pa2: "process_again X gws (br, sr) = Inr (b1, s1)" using rest r again by simp
  obtain o2 where o2: "hfind (b_orders b1) k = Some o2" "is_pending o2"
    using process_again_disturbs [OF pa2 st' cmp q o1(1) ready2] by blast
  have mine: "k \<in> rid ` set us"
  proof (rule ccontr)
    assume "k \<notin> rid ` set us"
    with us(1) have "hfind (b_orders b1) k = hfind (b_orders ?b) k" unfolding updates_sent_def prod.case by blast
    with o2 ord(1,2) ords show False by simp
  qed
  then obtain e' where e': "e' \<in> set us" "rid e' = k" by blast
  with us(1) obtain o3 where "request_for o3 (fst e')" unfolding updates_sent_def prod.case by blast
  then have "\<not> is_create (fst e')" by (cases "fst e'") (simp_all add: request_for_def)
  moreover have "\<exists>ord'. hfind (b_orders b') k = Some ord' \<and> is_pending ord'"
  proof (cases "k \<in> rid ` set (numbered_creates b1 (max_order_id s1) (missing X info b1))")
    case True
    with creates have "\<exists>ord. hfind (b_orders b2) k = Some ord \<and> is_pending ord"
      unfolding creates_sent_def Let_def prod.case by blast
    with erase_empty_levels_orders [OF er] show ?thesis by simp
  next
    case False
    with creates have "hfind (b_orders b2) k = hfind (b_orders b1) k"
      unfolding creates_sent_def Let_def prod.case by blast
    with o2 erase_empty_levels_orders [OF er] show ?thesis by simp
  qed
  ultimately show ?thesis using e' by (auto simp: sent)
qed

text \<open>
  Order 1 (5 at 100) is unwanted, order 2 (5 at 101) is all of the target 5 at 101; both are canceled.
\<close>

theorem process_disturbs_met_levels_witness:
  "\<exists>b' s'. process plain_ext demo_gateways demo_info (demo_book, demo_oms) = Inr (b', s') \<and>
     level_sum (Fin 1) (b_orders demo_book) BUY 101 = run_target BUY 101 \<and> (\<exists>e\<in>set (sent_requests s'). rid e = 2)"
proof -
  have "case_sum (\<lambda>_. False) (\<lambda>(b', s'). \<exists>e\<in>set (sent_requests s'). \<not> is_create (fst e))
      (process plain_ext demo_gateways demo_info (demo_book, demo_oms))"
    by (simp add: process_eval hash_eval demo_eval)
  then obtain b' s' e where run: "process plain_ext demo_gateways demo_info (demo_book, demo_oms) = Inr (b', s')"
    and e: "e \<in> set (drop (length (sent_requests demo_oms)) (sent_requests s'))" "\<not> is_create (fst e)"
    by (auto simp: demo_oms_def split: sum.splits)
  let ?ord = "live_order 2 BUY (Fin 101) (Fin 5)"
  have served: "served plain_ext demo_gateways (demo_book, demo_oms)"
    by (simp add: served_def demo_eval hash_eval gw_is_ready_account_def)
  have o: "hfind (b_orders demo_book) 2 = Some ?ord" "\<not> is_pending ?ord" "stands (info_tick_size demo_info) BUY 101 ?ord"
    "run_target BUY 101 < level_sum (info_tick_size demo_info) (b_orders demo_book) BUY 101 + amount ?ord"
    "level_sum (Fin 1) (b_orders demo_book) BUY 101 = run_target BUY 101" "sent_requests demo_oms = []"
    by (simp_all add: demo_eval hash_eval is_pending_def stands_def level_index_def run_target_def level_sum_def share_def amount_def)
  from process_disturbs_met_levels [OF run demo_book_steady served plain_compare_ok plain_compare_lots e o(1-4)] o(5,6) run
  show ?thesis by auto
qed

end
