(* ===== verification/Core_Results.thy ===== *)
theory Core_Results
  imports Oms_Index
begin

text \<open>
  Properties of the tables of the core (markets, gateways, portfolios) and of the strings that carry
  identifiers to and from the gateway.
\<close>

section \<open>Markets\<close>

text \<open>
  C18: the table of markets refines a map from exchange and symbol to identifiers: a key without an
  identifier is found, or becomes the next identifier and changes no other key; the entry returned
  is the one stored under the identifier.
\<close>

theorem market_table_refines:
  assumes "markets_wf ms" and "m_market key = 0"
  shows "\<exists>m new ms'. emplace_market L key ms = Inr (m, new, ms') \<and>
    markets_abs ms' = intern (m_exchange key, m_symbol key) (last_market_id ms + 1) (markets_abs ms) \<and>
    markets_abs ms' (m_exchange key, m_symbol key) = Some (info_market m) \<and>
    get_market (info_market m) ms' = Some m"
  using emplace_market_refines [OF assms, of L] by metis

lemma markets_wf_cong:
  assumes "\<And>i m. hfind (market_by_id ms') i = Some m \<Longrightarrow>
      \<exists>m0. hfind (market_by_id ms) i = Some m0 \<and> info_market m = info_market m0 \<and>
        info_exchange m = info_exchange m0 \<and> info_symbol m = info_symbol m0"
    and "\<And>i m0. hfind (market_by_id ms) i = Some m0 \<Longrightarrow>
      \<exists>m. hfind (market_by_id ms') i = Some m \<and> info_exchange m = info_exchange m0 \<and> info_symbol m = info_symbol m0"
    and "market_by_symbol_by_exchange ms' = market_by_symbol_by_exchange ms" "last_market_id ms' = last_market_id ms"
    and "hwf (market_by_id ms')" and wf: "markets_wf ms"
  shows "markets_wf ms'"
  unfolding markets_wf_iff assms(3,4)
proof (intro conjI allI impI)
  show "hwf2 (market_by_symbol_by_exchange ms)" "hwf (market_by_id ms')" using wf assms(5) by (simp_all add: markets_wf_iff)
  show "\<exists>m. hfind (market_by_id ms') i = Some m \<and> (info_exchange m, info_symbol m) = k"
    if k: "hfind2 (market_by_symbol_by_exchange ms) k = Some i" for k i
  proof -
    from markets_index_entry [OF wf k] obtain m0 where "hfind (market_by_id ms) i = Some m0"
      "(info_exchange m0, info_symbol m0) = k" by blast
    with assms(2) [OF this(1)] show ?thesis by auto
  qed
  fix i m
  assume "hfind (market_by_id ms') i = Some m"
  from assms(1) [OF this] obtain m0 where "hfind (market_by_id ms) i = Some m0" "info_market m = info_market m0"
    "info_exchange m = info_exchange m0" "info_symbol m = info_symbol m0" by blast
  with wf show "info_market m = i" "0 < i" "i \<le> last_market_id ms"
    "hfind2 (market_by_symbol_by_exchange ms) (info_exchange m, info_symbol m) = Some i"
    by (simp_all add: markets_wf_iff)
qed

lemma gateway_settings_wf: "markets_wf ms \<Longrightarrow> markets_wf (on_gateway_settings e ms)"
proof (rule markets_wf_cong)
  let ?f = "\<lambda>m. if mi_source_name e = info_mdata_gateway_name m then m\<lparr>info_mdata_gateway_id := mi_source e\<rparr> else m"
  have f: "hfind (market_by_id (on_gateway_settings e ms)) i = map_option ?f (hfind (market_by_id ms) i)" for i
    by (simp add: on_gateway_settings_def hfind_eq map_of_map)
  show "\<exists>m0. hfind (market_by_id ms) i = Some m0 \<and> info_market m = info_market m0 \<and>
        info_exchange m = info_exchange m0 \<and> info_symbol m = info_symbol m0"
    if "hfind (market_by_id (on_gateway_settings e ms)) i = Some m" for i m
    using that by (auto simp: f)
  show "\<exists>m. hfind (market_by_id (on_gateway_settings e ms)) i = Some m \<and> info_exchange m = info_exchange m0 \<and> info_symbol m = info_symbol m0"
    if "hfind (market_by_id ms) i = Some m0" for i m0
    using that by (simp add: f)
  assume "markets_wf ms"
  then show "hwf (market_by_id (on_gateway_settings e ms))"
    by (simp add: markets_wf_iff on_gateway_settings_def hwf_def hkeys_def case_prod_unfold comp_def)
qed (simp_all add: on_gateway_settings_def)

lemma reference_data_wf:
  assumes run: "on_reference_data L symbol exch tick ms = Inr ms'" and wf: "markets_wf ms" and room: "last_market_id ms \<noteq> - 1"
  shows "markets_wf ms'"
proof -
  obtain m new ms1 where em: "emplace_market_event L symbol exch ms = Inr (m, new, ms1)" and
    ms': "ms' = ms1\<lparr>market_by_id := hset (info_market m) (m\<lparr>info_tick_size := tick\<rparr>) (market_by_id ms1)\<rparr>"
    using run by (auto simp: on_reference_data_def res_simps)
  let ?key = "\<lparr>m_market = 0, m_symbol = symbol, m_exchange = exch, m_account = [], m_strategy_id = 0\<rparr>"
  have e: "emplace_market L ?key ms = Inr (m, new, ms1)" using em by (simp add: emplace_market_event_def)
  have wf1: "markets_wf ms1" by (rule emplace_market_wf [OF wf _ room e]) simp
  have "get_market (info_market m) ms1 = Some m"
    using emplace_market_refines [OF wf, of ?key L] e by auto
  then have g: "hfind (market_by_id ms1) (info_market m) = Some m" by (simp add: get_market_def)
  have f: "hfind (market_by_id ms') = (hfind (market_by_id ms1))(info_market m \<mapsto> m\<lparr>info_tick_size := tick\<rparr>)"
    by (simp add: ms' hfind_hset_Some [OF g])
  show ?thesis
  proof (rule markets_wf_cong [OF _ _ _ _ _ wf1])
    show "\<exists>m0. hfind (market_by_id ms1) i = Some m0 \<and> info_market x = info_market m0 \<and>
        info_exchange x = info_exchange m0 \<and> info_symbol x = info_symbol m0" if "hfind (market_by_id ms') i = Some x" for i x
      using that g unfolding f by (auto split: if_splits)
    show "\<exists>x. hfind (market_by_id ms') i = Some x \<and> info_exchange x = info_exchange m0 \<and> info_symbol x = info_symbol m0"
      if "hfind (market_by_id ms1) i = Some m0" for i m0
      using that g unfolding f by auto
    show "hwf (market_by_id ms')" using wf1 by (simp add: ms' markets_wf_iff)
  qed (simp_all add: ms')
qed

text \<open>
   reference data and the settings of a gateway keep the table and its index in agreement, so a
  symbol on an exchange has one identifier and an identifier one symbol and exchange.
\<close>

theorem market_events_keep_table:
  assumes "markets_wf ms" and "last_market_id ms \<noteq> - 1"
  shows "markets_wf (on_gateway_settings e ms) \<and>
    (\<forall>symbol exch tick ms'. on_reference_data L symbol exch tick ms = Inr ms' \<longrightarrow>
       markets_wf ms' \<and>
       (\<forall>s1 e1 s2 e2. get_market_ident s1 e1 ms' \<noteq> 0 \<longrightarrow> get_market_ident s2 e2 ms' = get_market_ident s1 e1 ms' \<longrightarrow>
          s2 = s1 \<and> e2 = e1))"
  using gateway_settings_wf [OF assms(1)] reference_data_wf [OF _ assms] get_market_ident_inj by blast


section \<open>Strings\<close>

text \<open>
  C36: a label with a prefix, and a number written in decimal, are read back: the parts around the
  first separator, and every number below \<open>2 ^ 32\<close>.
\<close>

theorem label_roundtrip:
  assumes "c \<notin> set prefix" and "n < 2 ^ 32"
  shows "split_prefix (prefix @ c # label) c = (prefix, label) \<and> parse_uint32 (decimal n) = Inr n \<and>
    (\<not> is_digit c \<longrightarrow> split_suffix_uint32 (prefix @ c # decimal n) c = Inr (prefix, n))"
proof -
  have d: "takeWhile is_digit (decimal n) = decimal n" by (rule takeWhile_all) (rule decimal_digits)
  have p: "parse_uint32 (decimal n) = Inr n"
    using assms(2) by (simp add: parse_uint32_def d digits_value_decimal)
  show ?thesis
    by (simp add: p split_prefix_def split_suffix_uint32_def split_suffix_def split_at_sep_app [OF assms(1)])
qed

text \<open>
  The routing identifier of a request names its order and version: different pairs have
  different identifiers.
\<close>

theorem routing_id_inj:
  assumes "routing_id i v = routing_id i' v'"
  shows "i' = i \<and> v' = v"
proof -
  have dot: "CHR ''.'' \<notin> set (decimal n)" for n
    using decimal_digits [of n] by (auto simp: list_all_iff is_digit_def)
  have "split_at_sep (routing_id j w) (CHR ''.'') = Some (decimal (unat j), decimal (unat w))" for j :: order_ident and w :: ident
    using split_at_sep_app [OF dot] by (simp add: routing_id_def)
  from this [of i v] this [of i' v'] assms have "decimal (unat i) = decimal (unat i')" "decimal (unat v) = decimal (unat v')"
    by simp_all
  then show ?thesis by (auto dest!: decimal_inj simp: word_unat_eq_iff)
qed


section \<open>Gateways\<close>

text \<open>
   an event of a gateway keeps the table of gateways and the index by name in agreement, and a
  named source is in the table afterwards; a message without a source changes nothing.
\<close>

theorem gateway_event_keeps_table:
  assumes "gateways_wf gws" and "gateway_event X step info gws = (r, gws')"
  shows "gateways_wf gws' \<and>
    (if mi_source_name info = [] then gws' = gws else hfind (gateway_by_id gws') (mi_source info) \<noteq> None)"
proof (cases "mi_source_name info = []")
  case True
  with assms show ?thesis by (simp add: gateway_event_def)
next
  case named: False
  let ?L = "x_layout X" and ?i = "mi_source info"
  have iff: "gateways_wf g \<longleftrightarrow> hwf (gateway_by_id g) \<and> hwf (gateway_id_by_name g) \<and>
      (\<forall>i x. hfind (gateway_by_id g) i = Some x \<longrightarrow> gw_id x = i) \<and>
      (\<forall>n i. hfind (gateway_id_by_name g) n = Some i \<longrightarrow> hfind (gateway_by_id g) i \<noteq> None)" for g :: "'a gateways"
    by (simp add: gateways_wf_def hd.list_all_entries hfind_in_keys cong: conj_cong)
  have wf: "hwf (gateway_by_id gws)" "hwf (gateway_id_by_name gws)"
    and ids: "\<And>i g. hfind (gateway_by_id gws) i = Some g \<Longrightarrow> gw_id g = i"
    and names: "\<And>n i. hfind (gateway_id_by_name gws) n = Some i \<Longrightarrow> hfind (gateway_by_id gws) i \<noteq> None"
    using assms(1) unfolding iff by blast+
  show ?thesis
  proof (cases "hfind (gateway_by_id gws) ?i")
    case (Some g)
    obtain c b where s: "step (gw_cache g) = (c, b)" by fastforce
    with assms(2) named Some have g': "gws' = gws\<lparr>gateway_by_id := hset ?i (g\<lparr>gw_cache := c\<rparr>) (gateway_by_id gws)\<rparr>"
      by (auto simp: gateway_event_def emplace_gateway_def)
    have f: "hfind (gateway_by_id gws') = (hfind (gateway_by_id gws))(?i \<mapsto> g\<lparr>gw_cache := c\<rparr>)"
      by (simp add: g' hfind_hset_Some [OF Some])
    show ?thesis using named wf ids names Some by (auto simp: iff f) (auto simp: g')
  next
    case None
    define g where "g = \<lparr>gw_cache = x_gw_new X, gw_name = mi_source_name info, gw_id = ?i\<rparr>"
    obtain c b where s: "step (gw_cache g) = (c, b)" by fastforce
    with assms(2) named None have g': "gws' = gws\<lparr>
        gateway_by_id := hset ?i (g\<lparr>gw_cache := c\<rparr>) (hput ?L ?i g (gateway_by_id gws)),
        gateway_id_by_name := hput ?L (gw_name g) (gw_id g) (gateway_id_by_name gws)\<rparr>"
      by (auto simp: gateway_event_def emplace_gateway_def g_def Let_def)
    have p: "hfind (hput ?L ?i g (gateway_by_id gws)) ?i = Some g" by (simp add: hd.find_put [OF wf(1)])
    have f: "hfind (gateway_by_id gws') = (hfind (gateway_by_id gws))(?i \<mapsto> g\<lparr>gw_cache := c\<rparr>)"
      by (simp add: g' hfind_hset_Some [OF p] hd.find_put [OF wf(1)])
    have n: "hfind (gateway_id_by_name gws') = (hfind (gateway_id_by_name gws))(mi_source_name info \<mapsto> ?i)"
      by (simp add: g' hd.find_put [OF wf(2)] g_def)
    show ?thesis
      using named wf ids names
      by (auto simp: iff f n g_def split: if_splits) (auto simp: g' hd.wf_put)
  qed
qed


section \<open>Portfolios\<close>

text \<open>
  Asking for a portfolio twice gives the same portfolio and changes nothing the second time,
  whether it is asked for by identifier, by name or both, as long as the identifiers last.
\<close>

theorem emplace_portfolio_idempotent:
  assumes "emplace_portfolio L pid name pm = Inr (p, new, pm')"
    and "hwf (portfolios_by_id pm)" "hwf (portfolio_by_name pm)" "last_portfolio_id pm \<noteq> - 1"
  shows "emplace_portfolio L pid name pm' = Inr (p, False, pm')"
proof (cases "if pid \<noteq> 0 then hfind (portfolios_by_id pm) pid else None")
  case (Some q)
  with assms(1) show ?thesis by (auto simp: emplace_portfolio_def Let_def split: if_splits)
next
  case none: None
  show ?thesis
  proof (cases "hfind (portfolio_by_name pm) name")
    case (Some i)
    with assms(1) none show ?thesis
      by (auto simp: emplace_portfolio_def Let_def res_simps split: option.splits if_splits)
  next
    case None
    let ?i = "if pid = 0 then last_portfolio_id pm + 1 else pid"
    have i: "?i \<noteq> 0" using assms(4) by (metis add_eq_0_iff2 add.commute)
    from assms(1) none None have
      p: "pm' = pm\<lparr>last_portfolio_id := (if pid = 0 then ?i else max (last_portfolio_id pm) pid),
         portfolios_by_id := hput L ?i p (portfolios_by_id pm), portfolio_by_name := hput L name ?i (portfolio_by_name pm)\<rparr>"
      by (auto simp: emplace_portfolio_def Let_def)
    have "hfind (portfolios_by_id pm') ?i = Some p" "hfind (portfolio_by_name pm') name = Some ?i"
      by (simp_all add: p hd.find_put [OF assms(2)] hd.find_put [OF assms(3)])
    with i show ?thesis by (cases "pid = 0") (simp_all add: emplace_portfolio_def Let_def)
  qed
qed

text \<open>
  A trade moves one position of a portfolio, the one of its account and market, by its quantity
  on its side; every other position stays, and a position not known before starts at zero.
\<close>

theorem trade_moves_one_position:
  assumes "portfolio_trade L t p = Inr (v, new, p')" and "hwf2 (p_positions p)"
  shows "hfind2 (p_positions p') = (hfind2 (p_positions p))((t_account t, t_market t) \<mapsto> v) \<and>
    (let old = (case hfind2 (p_positions p) (t_account t, t_market t) of None \<Rightarrow> no_exposure_value | Some w \<Rightarrow> w) in
     v = (if t_side t = BUY then old\<lparr>ev_position_buy := ev_position_buy old + t_quantity t\<rparr>
          else old\<lparr>ev_position_sell := ev_position_sell old + t_quantity t\<rparr>)) \<and>
    t_side t \<noteq> SIDE_UNDEFINED \<and> t_market t \<noteq> 0"
proof -
  let ?k = "(t_account t, t_market t)"
  obtain old n p1 where e: "emplace_position L ?k p = (old, n, p1)" by (cases "emplace_position L ?k p")
  have old: "old = (case hfind2 (p_positions p) ?k of None \<Rightarrow> no_exposure_value | Some w \<Rightarrow> w)"
    and pos: "hwf2 (p_positions p1) \<and> (hfind2 (p_positions p1))(?k \<mapsto> v) = (hfind2 (p_positions p))(?k \<mapsto> v)"
    using e assms(2) by (auto simp: emplace_position_def hd2.pair.find_put hd2.pair.wf_put split: option.splits)
  have run: "t_market t \<noteq> 0" "t_side t \<noteq> SIDE_UNDEFINED"
    "v = (if t_side t = BUY then old\<lparr>ev_position_buy := ev_position_buy old + t_quantity t\<rparr>
          else old\<lparr>ev_position_sell := ev_position_sell old + t_quantity t\<rparr>)"
    "p' = p1\<lparr>p_positions := hput2 L ?k v (p_positions p1)\<rparr>"
    using assms(1) by (cases "t_side t"; auto simp: portfolio_trade_def res_simps Let_def e)+
  then show ?thesis using pos by (simp add: old [symmetric] hd2.pair.find_put)
qed


section \<open>Examples\<close>

lemma demo_markets_wf: "markets_wf demo_markets"
  by (simp add: markets_wf_def demo_eval hash_eval hwf2_def)

definition new_key :: market where
  "new_key = \<lparr>m_market = 0, m_symbol = ''t'', m_exchange = ''e'', m_account = [], m_strategy_id = 0\<rparr>"

theorem market_table_refines_witness:
  "\<exists>m new ms'. emplace_market (\<lambda>n. [0..<n]) new_key demo_markets = Inr (m, new, ms') \<and> markets_abs ms' (''e'', ''t'') = Some 2"
proof -
  have k: "m_market new_key = 0" "m_exchange new_key = ''e''" "m_symbol new_key = ''t''" "last_market_id demo_markets = 1"
    "markets_abs demo_markets (''e'', ''t'') = None"
    by (simp_all add: new_key_def demo_markets_def markets_abs_def hash_eval)
  obtain m new ms' where "emplace_market (\<lambda>n. [0..<n]) new_key demo_markets = Inr (m, new, ms')"
    "markets_abs ms' = intern (''e'', ''t'') 2 (markets_abs demo_markets)"
    using market_table_refines [OF demo_markets_wf k(1), of "\<lambda>n. [0..<n]"] k(2-4) by auto
  then show ?thesis using k(5) by (simp add: intern_def)
qed

theorem market_events_keep_table_witness:
  "\<exists>ms'. on_reference_data (\<lambda>n. [0..<n]) ''t'' ''e'' (Fin 1) demo_markets = Inr ms' \<and> markets_wf ms'"
proof -
  obtain ms' where r: "on_reference_data (\<lambda>n. [0..<n]) ''t'' ''e'' (Fin 1) demo_markets = Inr ms'"
    by (simp add: on_reference_data_def emplace_market_event_def emplace_market_def get_market_ident_def demo_markets_def
        hash_eval Let_def cong: eval_congs)
  have "last_market_id demo_markets \<noteq> - 1" by (simp add: demo_markets_def)
  from market_events_keep_table [OF demo_markets_wf this] r show ?thesis by blast
qed

theorem label_roundtrip_witness: "split_suffix_uint32 (''lqs'' @ CHR '':'' # decimal 4294967295) (CHR '':'') = Inr (''lqs'', 4294967295)"
proof -
  have "CHR '':'' \<notin> set ''lqs''" "(4294967295 :: nat) < 2 ^ 32" "\<not> is_digit (CHR '':'')" by (simp_all add: is_digit_def)
  with label_roundtrip [OF this(1,2)] show ?thesis by blast
qed

theorem routing_id_inj_witness: "routing_id 1 12 \<noteq> routing_id 11 2"
  using routing_id_inj [of 1 12 11 2] by auto

lemma demo_gateways_wf: "gateways_wf demo_gateways"
  by (simp add: gateways_wf_def demo_gateways_def hash_eval)

theorem gateway_event_keeps_table_witness:
  "gateways_wf (snd (gateway_event plain_ext (\<lambda>g. (g, True)) \<lparr>mi_source = 1, mi_source_name = ''h''\<rparr> demo_gateways))"
  using gateway_event_keeps_table [OF demo_gateways_wf prod.collapse [symmetric]] by blast

theorem emplace_portfolio_idempotent_witness:
  "\<exists>p pm'. emplace_portfolio (\<lambda>n. [0..<n]) 0 ''q'' demo_portfolios = Inr (p, True, pm') \<and>
     emplace_portfolio (\<lambda>n. [0..<n]) 0 ''q'' pm' = Inr (p, False, pm')"
proof -
  obtain p pm' where r: "emplace_portfolio (\<lambda>n. [0..<n]) 0 ''q'' demo_portfolios = Inr (p, True, pm')"
    by (simp add: emplace_portfolio_def demo_portfolios_def hash_eval Let_def)
  have "hwf (portfolios_by_id demo_portfolios)" "hwf (portfolio_by_name demo_portfolios)" "last_portfolio_id demo_portfolios \<noteq> - 1"
    by (simp_all add: demo_portfolios_def hash_eval)
  from emplace_portfolio_idempotent [OF r this] r show ?thesis by blast
qed

definition demo_trade_value :: trade where
  "demo_trade_value = \<lparr>t_side = BUY, t_price = Fin 100, t_quantity = Fin 2, t_market = 1, t_symbol = ''s'', t_exchange = ''e'',
     t_portfolio = 1, t_account = ''a''\<rparr>"

theorem trade_moves_one_position_witness:
  "\<exists>v new p'. portfolio_trade (\<lambda>n. [0..<n]) demo_trade_value default_portfolio = Inr (v, new, p') \<and>
     hfind2 (p_positions p') (''a'', 1) = Some v \<and> ev_position_buy v = Fin 2"
proof -
  obtain v new p' where r: "portfolio_trade (\<lambda>n. [0..<n]) demo_trade_value default_portfolio = Inr (v, new, p')"
    "ev_position_buy v = Fin 2"
    by (simp add: portfolio_trade_def demo_trade_value_def default_portfolio_def emplace_position_def hash_eval
        no_exposure_value_def Let_def)
  have "hwf2 (p_positions default_portfolio)" "t_account demo_trade_value = ''a''" "t_market demo_trade_value = 1"
    by (simp_all add: default_portfolio_def hd2.pair.wf_empty demo_trade_value_def)
  with trade_moves_one_position [OF r(1)] r show ?thesis by auto
qed

end
