(* ===== verification/Toml.thy ===== *)
theory Toml
  imports Doubles Strings
begin

text \<open>
  \<open>core/config/toml_file.{hpp,cpp}\<close>: reading values, enumerations, lists and paired lists from a TOML
  document.  The document and its nodes are those of toml++, which is not part of the repository:
  \<open>tm\<close> lists what the code asks of a node of type \<open>'n\<close>, and is a parameter.  A node may be empty (a
  path that leads nowhere).  A call-back is a function on a state, which a thrown exception ends.
\<close>

section \<open>Nodes\<close>

record 'n tm =
  tm_exists :: "'n \<Rightarrow> bool"
  tm_at_path :: "'n \<Rightarrow> string \<Rightarrow> 'n"
  tm_index :: "'n \<Rightarrow> string \<Rightarrow> 'n"
  tm_is_value :: "'n \<Rightarrow> bool"
  tm_is_array :: "'n \<Rightarrow> bool"
  tm_is_table :: "'n \<Rightarrow> bool"
  tm_elements :: "'n \<Rightarrow> 'n list"
  tm_fields :: "'n \<Rightarrow> (string \<times> 'n) list"
  tm_string :: "'n \<Rightarrow> string option"
  tm_integer :: "'n \<Rightarrow> int option"
  tm_bool :: "'n \<Rightarrow> bool option"
  tm_double :: "'n \<Rightarrow> double option"
  tm_source :: "'n \<Rightarrow> string"  \<comment> \<open>file, line and column\<close>

definition node_path :: "'n tm \<Rightarrow> 'n \<Rightarrow> string" where
  "node_path T node = (if tm_exists T node then tm_source T node else [])"

definition bad_node :: "'n tm \<Rightarrow> 'n \<Rightarrow> string \<Rightarrow> 'v res" where
  "bad_node T node what = Inl (Runtime_Error (node_path T node @ '':'' @ what))"


section \<open>Values\<close>

text \<open>\<open>value<T>()\<close> is the argument \<open>val\<close>: \<open>tm_string T\<close>, \<open>tm_integer T\<close> and so on.\<close>

definition get_value_helper :: "'n tm \<Rightarrow> ('n \<Rightarrow> 'v option) \<Rightarrow> 'n \<Rightarrow> 'v res" where
  "get_value_helper T val node =
     (if tm_is_value T node then
        (case val node of Some v \<Rightarrow> Inr v | None \<Rightarrow> bad_node T node ''<empty>'')
      else bad_node T node ''string of number expected'')"

text \<open>\<open>get_value<V>(node)\<close>: the reader of the type \<open>V\<close>.\<close>

definition read_string :: "'n tm \<Rightarrow> 'n \<Rightarrow> string res" where
  "read_string T = get_value_helper T (tm_string T)"

definition read_integer :: "'n tm \<Rightarrow> 'n \<Rightarrow> int res" where
  "read_integer T = get_value_helper T (tm_integer T)"

definition read_bool :: "'n tm \<Rightarrow> 'n \<Rightarrow> bool res" where
  "read_bool T = get_value_helper T (tm_bool T)"

definition read_double :: "'n tm \<Rightarrow> 'n \<Rightarrow> double res" where
  "read_double T = get_value_helper T (tm_double T)"

text \<open>An enumeration is read by name; \<open>value()\<close> of a name that is not one throws.\<close>

definition read_enum :: "'n tm \<Rightarrow> (string \<Rightarrow> 'e option) \<Rightarrow> 'n \<Rightarrow> 'e res" where
  "read_enum T cast node =
     rbind (get_value_helper T (tm_string T) node) (\<lambda>s.
       case cast s of Some e \<Rightarrow> Inr e | None \<Rightarrow> Inl (Runtime_Error ''bad optional access''))"

definition get_value :: "'n tm \<Rightarrow> ('n \<Rightarrow> 'v res) \<Rightarrow> 'n \<Rightarrow> string \<Rightarrow> 'v res" where
  "get_value T read parent path =
     (if \<not> tm_exists T (tm_index T parent path) then bad_node T parent path
      else read (tm_index T parent path))"

definition get_value_or :: "'n tm \<Rightarrow> ('n \<Rightarrow> 'v res) \<Rightarrow> 'n \<Rightarrow> string \<Rightarrow> 'v \<Rightarrow> 'v res" where
  "get_value_or T read node path dflt =
     (let n = tm_at_path T node path in if tm_exists T n then read n else Inr dflt)"

definition get_string :: "'n tm \<Rightarrow> 'n \<Rightarrow> string \<Rightarrow> string res" where
  "get_string T parent path =
     (let n = tm_at_path T parent path in
      if tm_exists T n then get_value_helper T (tm_string T) n else bad_node T parent path)"

definition get_string_or_default :: "'n tm \<Rightarrow> 'n \<Rightarrow> string \<Rightarrow> string res" where
  "get_string_or_default T node dflt =
     (if tm_exists T node then get_value_helper T (tm_string T) node else Inr dflt)"

definition get_string_or :: "'n tm \<Rightarrow> 'n \<Rightarrow> string \<Rightarrow> string \<Rightarrow> string res" where
  "get_string_or T parent path dflt = get_string_or_default T (tm_at_path T parent path) dflt"


section \<open>Lists\<close>

text \<open>\<open>get_nodes(node, fn)\<close>: the nodes the callback is run on.\<close>

definition nodes_of :: "'n tm \<Rightarrow> 'n \<Rightarrow> 'n list" where
  "nodes_of T node =
     (if tm_exists T node then if tm_is_array T node then tm_elements T node else [node] else [])"

definition get_nodes :: "'n tm \<Rightarrow> 'n \<Rightarrow> string \<Rightarrow> ('n \<Rightarrow> 's \<Rightarrow> 's res) \<Rightarrow> 's \<Rightarrow> 's res" where
  "get_nodes T parent path fn = rfold fn (nodes_of T (tm_at_path T parent path))"

definition get_size :: "'n tm \<Rightarrow> 'n \<Rightarrow> nat" where
  "get_size T node =
     (if \<not> tm_exists T node then 0 else if \<not> tm_is_array T node then 0 else length (tm_elements T node))"

definition get_fields :: "'n tm \<Rightarrow> 'n \<Rightarrow> (string \<times> 'n \<Rightarrow> 's \<Rightarrow> 's res) \<Rightarrow> 's \<Rightarrow> 's res" where
  "get_fields T parent fn s = (if tm_is_table T parent then rfold fn (tm_fields T parent) s else Inr s)"

text \<open>A scalar or an array of values, with the number of them.\<close>

definition get_values ::
  "'n tm \<Rightarrow> ('n \<Rightarrow> 'v res) \<Rightarrow> 'n \<Rightarrow> string \<Rightarrow> (nat \<Rightarrow> 'v \<Rightarrow> 's \<Rightarrow> 's res) \<Rightarrow> 's \<Rightarrow> (nat \<times> 's) res" where
  "get_values T read parent name fn s =
     (let node = tm_index T parent name in
      if \<not> tm_exists T node then Inr (0, s)
      else if tm_is_array T node then
        rfold (\<lambda>n (i, s). rbind (read n) (\<lambda>v. rbind (fn i v s) (\<lambda>s1. Inr (i + 1, s1)))) (tm_elements T node) (0, s)
      else rbind (read node) (\<lambda>v. rbind (fn 0 v s) (\<lambda>s1. Inr (1, s1))))"

text \<open>
  Keys and values, each a scalar or an array: a shorter array of values gives its last value to the
  remaining keys, a scalar value goes to all keys, and without keys the key is empty.
\<close>

definition get_pairs ::
  "'n tm \<Rightarrow> ('n \<Rightarrow> 'v res) \<Rightarrow> 'n \<Rightarrow> string \<Rightarrow> string \<Rightarrow> (string \<Rightarrow> 'v \<Rightarrow> 's \<Rightarrow> 's res) \<Rightarrow> 's \<Rightarrow> (nat \<times> 's) res" where
  "get_pairs T read parent key value fn s =
     (let values_node = tm_index T parent value; keys_node = tm_index T parent key in
      if \<not> tm_exists T values_node then Inr (0, s)
      else if \<not> tm_exists T keys_node then
        rbind (read values_node) (\<lambda>v. rbind (fn [] v s) (\<lambda>s1. Inr (1, s1)))
      else if tm_is_array T keys_node then
        (let keys = tm_elements T keys_node in
         if tm_is_array T values_node then
           (let values = tm_elements T values_node in
            rfold (\<lambda>k (i, s).
                rbind (read_string T k) (\<lambda>key.
                rbind (if i < length values then rbind (read (values ! i)) (\<lambda>v. fn key v s)
                       else if 0 < length values then rbind (read (values ! (length values - 1))) (\<lambda>v. fn key v s)
                       else Inr s)
                  (\<lambda>s1. Inr (i + 1, s1)))) keys (0, s))
         else
           rfold (\<lambda>k (i, s).
               rbind (read_string T k) (\<lambda>key. rbind (read values_node) (\<lambda>v. rbind (fn key v s) (\<lambda>s1. Inr (i + 1, s1)))))
             keys (0, s))
      else
        rbind (read_string T keys_node) (\<lambda>key.
        rbind (read values_node) (\<lambda>v. rbind (fn key v s) (\<lambda>s1. Inr (1, s1)))))"

end
