(* ===== verification/Configure.thy ===== *)
theory Configure
  imports Toml Strategy
begin

text \<open>
  Reading the configuration: the parameters of the file (\<open>config::Manager::load\<close>), what is announced
  to the client library (\<open>config::Manager::dispatch\<close>), and \<open>configure\<close> of the markets, the
  portfolios and the order manager, put together by \<open>core::Manager\<close> and \<open>Strategy\<close>.
\<close>

section \<open>\<open>core/config/manager.cpp\<close>\<close>

text \<open>The lambda \<open>add_all_symbols\<close>.\<close>

definition add_all_symbols :: "'n tm \<Rightarrow> 'n \<Rightarrow> parameter \<Rightarrow> parameter list \<Rightarrow> parameter list res" where
  "add_all_symbols T node p ps =
     rbind (get_pairs T (read_string T) node ''symbol'' ''value''
              (\<lambda>symbol v ps. Inr (ps @ [p\<lparr>par_symbol := symbol, par_value := v\<rparr>])) ps)
       (\<lambda>(_, ps1). Inr ps1)"

definition load_parameter :: "'n tm \<Rightarrow> 'n \<Rightarrow> parameter list \<Rightarrow> parameter list res" where
  "load_parameter T node ps =
     rbind (get_string T node ''label'') (\<lambda>label.
     rbind (get_string_or T node ''exchange'' []) (\<lambda>exch.
     rbind (get_string_or T node ''strategy'' ''0'') (\<lambda>strategy.
     rbind (parse_uint32 strategy) (\<lambda>i.
       let p = \<lparr>par_label = label, par_account = [], par_exchange = exch, par_symbol = [],
                par_strategy_id = of_nat i, par_value = []\<rparr> in
       rbind (get_values T (read_string T) node ''account''
                (\<lambda>_ account ps. add_all_symbols T node (p\<lparr>par_account := account\<rparr>) ps) ps) (\<lambda>(n, ps1).
         if n = 0 then add_all_symbols T node p ps1 else Inr ps1)))))"

text \<open>\<open>flag\<close> is the command line flag \<open>use_toml_parameters\<close>; \<open>doc\<close> is the parsed file.\<close>

definition config_load :: "'n tm \<Rightarrow> bool \<Rightarrow> 'n \<Rightarrow> config \<Rightarrow> config res" where
  "config_load T flag doc cfg =
     (if \<not> flag then Inr cfg
      else rbind (get_nodes T doc ''parameter'' (load_parameter T) (cfg_parameters cfg)) (\<lambda>ps.
             Inr (cfg\<lparr>cfg_parameters := ps\<rparr>)))"

text \<open>What the client library is told to subscribe to.\<close>

datatype client_setting =
    Client_Settings
  | Client_Symbol string string  \<comment> \<open>regex and exchange\<close>
  | Client_Account string  \<comment> \<open>regex\<close>

definition config_announce :: "'n tm \<Rightarrow> 'n \<Rightarrow> client_setting list res" where
  "config_announce T doc =
     rbind (get_nodes T doc ''market'' (\<lambda>node out.
              rbind (get_string T node ''exchange'') (\<lambda>exch.
              rbind (get_values T (read_string T) node ''symbol''
                       (\<lambda>_ symbol out. Inr (out @ [Client_Symbol symbol exch])) out) (\<lambda>(_, out1). Inr out1)))
              [Client_Settings])
       (get_nodes T doc ''account'' (\<lambda>node out.
          rbind (get_string T node ''account'') (\<lambda>account.
          rbind (get_string T node ''exchange'') (\<lambda>exch.
            Inr (out @ [Client_Account account])))))"


section \<open>\<open>core/market/manager.cpp\<close>\<close>

definition best_quotes_source_cast :: "string \<Rightarrow> best_quotes_source option" where
  "best_quotes_source_cast s =
     map_of [(''UNDEFINED'', BQS_UNDEFINED), (''TOP_OF_BOOK'', BQS_TOP_OF_BOOK),
             (''MARKET_BY_PRICE'', BQS_MARKET_BY_PRICE), (''VWAP'', BQS_VWAP)] s"

definition put_info :: "info \<Rightarrow> markets \<Rightarrow> markets" where
  "put_info item ms = ms\<lparr>market_by_id := hset (info_market item) item (market_by_id ms)\<rparr>"

definition configure_symbol ::
  "layout \<Rightarrow> 'n tm \<Rightarrow> 'n \<Rightarrow> string \<Rightarrow> string \<Rightarrow> string \<Rightarrow> markets \<Rightarrow> markets res" where
  "configure_symbol L T node exch gateway_name symbol ms =
     (let market = get_market_ident symbol exch ms in
      if CHR ''*'' \<in> set symbol then Inr ms
      else
        rbind (emplace_market L
                 \<lparr>m_market = market, m_symbol = symbol, m_exchange = exch, m_account = [], m_strategy_id = 0\<rparr> ms)
          (\<lambda>(item, _, ms1).
        rbind (get_value_or T (read_enum T best_quotes_source_cast) node ''pub_price_source'' BQS_UNDEFINED) (\<lambda>pub.
        rbind (get_value_or T (read_enum T best_quotes_source_cast) node ''best_quotes_source'' BQS_TOP_OF_BOOK) (\<lambda>best.
        rbind (get_value_or T (read_double T) node ''lot_size'' (Fin 1)) (\<lambda>lot.
        rbind (get_value_or T (read_integer T) node ''depth_num_levels'' 0) (\<lambda>depth.
          Inr (put_info
                 (item\<lparr>info_pub_price_source := pub, info_best_quotes_source := best, info_lot_size := lot,
                       info_mdata_gateway_name := gateway_name, info_depth_num_levels := of_int depth\<rparr>) ms1)))))))"

definition markets_configure :: "layout \<Rightarrow> 'n tm \<Rightarrow> 'n \<Rightarrow> markets \<Rightarrow> markets res" where
  "markets_configure L T doc ms =
     get_nodes T doc ''market'' (\<lambda>node ms.
       rbind (get_string T node ''exchange'') (\<lambda>exch.
       rbind (get_string_or T node ''mdata_gateway'' []) (\<lambda>gateway_name.
       rbind (get_values T (read_string T) node ''symbol''
                (\<lambda>_ symbol. configure_symbol L T node exch gateway_name symbol) ms) (\<lambda>(_, ms1). Inr ms1))))
       (markets_clear ms)"


section \<open>\<open>core/portfolio/manager.cpp\<close>\<close>

definition position_source_cast :: "string \<Rightarrow> position_source option" where
  "position_source_cast s =
     map_of [(''UNDEFINED'', PS_UNDEFINED), (''ORDERS'', PS_ORDERS), (''TRADES'', PS_TRADES),
             (''PORTFOLIO'', PS_PORTFOLIO)] s"

definition configure_account :: "layout \<Rightarrow> 'n tm \<Rightarrow> 'n \<Rightarrow> portfolios \<Rightarrow> portfolios res" where
  "configure_account L T node pm =
     rbind (get_string_or T node ''exchange'' []) (\<lambda>exch.
     rbind (get_string_or T node ''account'' []) (\<lambda>account.
     rbind (get_string_or T node ''portfolio'' ''0'') (\<lambda>pid.
     rbind (parse_uint32 pid) (\<lambda>i.
     rbind (get_string_or T node ''portfolio'' []) (\<lambda>name.
     rbind (emplace_portfolio L (of_nat i) name pm) (\<lambda>(p, _, pm1).
       Inr (pm1\<lparr>portfolio_by_account :=
                  hput2 L (exch, account) (p_portfolio p) (portfolio_by_account pm1)\<rparr>)))))))"

definition portfolios_configure :: "layout \<Rightarrow> 'n tm \<Rightarrow> 'n \<Rightarrow> portfolios \<Rightarrow> portfolios res" where
  "portfolios_configure L T doc pm =
     rbind (get_value_or T (read_enum T position_source_cast) (tm_index T doc ''oms'') ''position_source'' PS_ORDERS) (\<lambda>src.
       get_nodes T doc ''account'' (configure_account L T) (pm\<lparr>pm_position_source := src\<rparr>))"


section \<open>\<open>core/oms/manager.cpp\<close>\<close>

definition oms_clear :: "oms \<Rightarrow> oms" where
  "oms_clear s = s\<lparr>trade_gateway_by_account_by_exchange := []\<rparr>"

text \<open>Milliseconds are kept as nanoseconds.\<close>

definition oms_configure :: "layout \<Rightarrow> 'n tm \<Rightarrow> 'n \<Rightarrow> oms \<Rightarrow> oms res" where
  "oms_configure L T doc s =
     rbind (get_nodes T doc ''account'' (\<lambda>node s.
              rbind (get_string T node ''account'') (\<lambda>account.
              rbind (get_string T node ''trade_gateway'') (\<lambda>trade_gateway.
              rbind (get_string T node ''exchange'') (\<lambda>exch.
                Inr (s\<lparr>trade_gateway_by_account_by_exchange :=
                         hput2 L (exch, account) trade_gateway (trade_gateway_by_account_by_exchange s)\<rparr>)))))
              (oms_clear s))
       (\<lambda>s1. rbind (get_value_or T (read_integer T) (tm_index T doc ''oms'') ''reject_timeout'' 100) (\<lambda>ms.
         Inr (s1\<lparr>reject_timeout := ms * 1000000\<rparr>)))"


section \<open>\<open>core/manager.hpp\<close>, \<open>core/strategy.hpp\<close>\<close>

definition core_configure :: "layout \<Rightarrow> 'n tm \<Rightarrow> 'n \<Rightarrow> ('g, 'z) core_scheme \<Rightarrow> ('g, 'z) core_scheme res" where
  "core_configure L T doc c =
     rbind (markets_configure L T doc (c_markets c)) (\<lambda>ms.
     rbind (portfolios_configure L T doc (c_portfolios c)) (\<lambda>pm.
       Inr (c\<lparr>c_markets := ms, c_portfolios := pm\<rparr>)))"

definition strategy_configure :: "layout \<Rightarrow> 'n tm \<Rightarrow> 'n \<Rightarrow> ('g, 'p) strategy_state \<Rightarrow> ('g, 'p) strategy_state res" where
  "strategy_configure L T doc = (\<lambda>(c, s).
     rbind (core_configure L T doc c) (\<lambda>c1.
     rbind (oms_configure L T doc s) (\<lambda>s1. Inr (c1, s1))))"

text \<open>\<open>config::Manager::configure(strategy)\<close>, the last step of the constructor.\<close>

definition strategy_construct ::
  "'g ext \<Rightarrow> 'n tm \<Rightarrow> bool \<Rightarrow> ('p, ('g, 'p) strategy_state) pricer \<Rightarrow> 'n \<Rightarrow> ('g, 'p) strategy_state \<Rightarrow>
     ('g, 'p) strategy_state res" where
  "strategy_construct X T flag P doc r =
     rbind (strategy_configure (x_layout X) T doc r) (strategy_start X flag P)"

end
