(* ===== verification/Dag_Graph.thy ===== *)
theory Dag_Graph
  imports Hashes
begin

text \<open>
  \<open>dag/graph.hpp\<close>: the order in which the nodes that depend on a start node are computed, by longest
  distance from the start, and the detection of cycles on the way.  The search picks its next node
  from an unordered set, in the order of the container, which is the parameter \<open>layout\<close>.

  The search is a loop that might not end, so it is a partial function; the first theorem shows that
  it ends on every graph, in every order, and reports a cycle exactly when one can be reached from
  the start.  The second shows that without a cycle the path lists the nodes reached, each once, every
  node after the nodes it depends on.
\<close>

section \<open>Edges\<close>

text \<open>A \<open>std::multimap\<close>: entries in ascending order of the keys, a new one after its equals.\<close>

type_synonym 'n edges = "('n \<times> 'n) list"

definition multimap_emplace :: "'k :: linorder \<times> 'v \<Rightarrow> ('k \<times> 'v) list \<Rightarrow> ('k \<times> 'v) list" where
  "multimap_emplace e es = takeWhile (\<lambda>f. fst f \<le> fst e) es @ e # dropWhile (\<lambda>f. fst f \<le> fst e) es"

definition equal_range :: "('k \<times> 'v) list \<Rightarrow> 'k \<Rightarrow> 'v list" where
  "equal_range es s = map snd (filter (\<lambda>e. fst e = s) es)"

text \<open>\<open>reverse\<close>, and the constructor from a multimap of dependencies, which does the same.\<close>

definition graph_reverse :: "'n :: linorder edges \<Rightarrow> 'n edges" where
  "graph_reverse es = fold (\<lambda>(src, dst). multimap_emplace (dst, src)) es []"


section \<open>The search\<close>

datatype graph_error = GRAPH_OK | GRAPH_CYCLE

text \<open>An unordered set: its elements in the order of the container.\<close>

definition uset_insert :: "layout \<Rightarrow> 'a \<Rightarrow> 'a list \<Rightarrow> 'a list" where
  "uset_insert L x xs = (if x \<in> set xs then xs else reorder L (xs @ [x]))"

record 'n search =
  max_distance :: "('n, nat) hash"
  mdist :: nat
  todo :: "'n list"

text \<open>
  The body of the loop over the edges of \<open>s\<close>; \<open>None\<close> is the early return.  A missing entry of
  \<open>max_distance\<close> reads as zero.
\<close>

fun relax :: "layout \<Rightarrow> nat \<Rightarrow> 'n \<Rightarrow> 'n list \<Rightarrow> 'n search \<Rightarrow> 'n search option" where
  "relax L n s [] st = Some st"
| "relax L n s (d # ds) st =
     (let dist = max (hget_or (max_distance st) s 0 + 1) (hget_or (max_distance st) d 0);
          m = max (mdist st) dist in
      if n < m then None
      else relax L n s ds
             \<lparr>max_distance = hput L d dist (max_distance st), mdist = m, todo = uset_insert L d (todo st)\<rparr>)"

text \<open>The loop \<open>while(!todo.empty())\<close>: \<open>None\<close> if it does not end, \<open>Some None\<close> for the early return.\<close>

partial_function (option) search_loop ::
  "layout \<Rightarrow> 'n edges \<Rightarrow> 'n search \<Rightarrow> ('n, nat) hash option option" where
  "search_loop L es st =
     (case todo st of
        [] \<Rightarrow> Some (Some (max_distance st))
      | s # rest \<Rightarrow>
          (case relax L (length es) s (equal_range es s) (st\<lparr>todo := rest\<rparr>) of
             None \<Rightarrow> Some None
           | Some st' \<Rightarrow> search_loop L es st'))"

text \<open>Nodes by distance: the loop that grows \<open>path\<close> and enters a node.\<close>

definition place :: "layout \<Rightarrow> 'n \<times> nat \<Rightarrow> 'n list list \<Rightarrow> 'n list list" where
  "place L e path =
     (let path1 = path @ replicate (snd e + 1 - length path) [] in
      path1[snd e := uset_insert L (fst e) (path1 ! snd e)])"

definition build_path ::
  "layout \<Rightarrow> 'n edges \<Rightarrow> 'n \<Rightarrow> 'n list \<Rightarrow> (graph_error \<times> 'n list) option" where
  "build_path L es start result =
     map_option (\<lambda>r.
       case r of
         None \<Rightarrow> (GRAPH_CYCLE, result)
       | Some dist \<Rightarrow> (GRAPH_OK, concat (fold (place L) dist [])))
     (search_loop L es \<lparr>max_distance = [(start, 0)], mdist = 0, todo = [start]\<rparr>)"

declare search_loop.simps [code]


section \<open>The search ends\<close>

abbreviation dist_of :: "'n search \<Rightarrow> 'n \<Rightarrow> nat" where
  "dist_of st v \<equiv> hget_or (max_distance st) v 0"

definition weight :: "nat \<Rightarrow> 'n search \<Rightarrow> nat multiset" where
  "weight n st = image_mset (\<lambda>v. Suc n - dist_of st v) (mset_set (set (todo st)))"

text \<open>
  Distances are lengths of walks from the start, none exceeds the number of edges, and what waits is
  known.  An edge is settled when its end is farther than its source.
\<close>

definition search_inv :: "'n edges \<Rightarrow> 'n \<Rightarrow> 'n search \<Rightarrow> bool" where
  "search_inv es start st \<longleftrightarrow>
     hwf (max_distance st) \<and> mdist st \<le> length es \<and> hfind (max_distance st) start \<noteq> None \<and>
     (\<forall>v\<in>set (todo st). hfind (max_distance st) v \<noteq> None) \<and>
     (\<forall>v k. hfind (max_distance st) v = Some k \<longrightarrow> (start, v) \<in> set es ^^ k \<and> k \<le> mdist st)"

definition settled :: "'n search \<Rightarrow> 'n \<Rightarrow> 'n \<Rightarrow> bool" where
  "settled st u d \<longleftrightarrow> hfind (max_distance st) d \<noteq> None \<and> dist_of st u < dist_of st d"

definition closed_but :: "'n edges \<Rightarrow> ('n \<times> 'n) set \<Rightarrow> 'n search \<Rightarrow> bool" where
  "closed_but es W st \<longleftrightarrow>
     (\<forall>u d. (u, d) \<in> set es - W \<longrightarrow> hfind (max_distance st) u \<noteq> None \<longrightarrow> u \<in> set (todo st) \<or> settled st u d)"

lemma set_uset_insert [simp]: "set (uset_insert L x xs) = insert x (set xs)"
  by (auto simp: uset_insert_def)

lemma distinct_uset_insert [simp]: "distinct (uset_insert L x xs) \<longleftrightarrow> distinct xs"
  using mset_eq_imp_distinct_iff [OF mset_reorder [of L "xs @ [x]"]] by (simp add: uset_insert_def)

lemma hget_or_hput: "hwf m \<Longrightarrow> hget_or (hput L k v m) l x = (if l = k then v else hget_or m l x)"
  by (simp add: hget_or_def hd.find_put)

lemma relax_step:
  fixes L :: layout
  assumes "search_inv es start st" and "hfind (max_distance st) s \<noteq> None" and "(s, d) \<in> set es"
    and "closed_but es (Pair s ` set (d # ds)) st"
  defines "dist \<equiv> max (dist_of st s + 1) (dist_of st d)"
  defines "st1 \<equiv> \<lparr>max_distance = hput L d dist (max_distance st), mdist = max (mdist st) dist,
      todo = uset_insert L d (todo st)\<rparr>"
  assumes room: "max (mdist st) dist \<le> length es"
  shows "search_inv es start st1 \<and> hfind (max_distance st1) s \<noteq> None \<and> closed_but es (Pair s ` set ds) st1"
proof -
  have wf: "hwf (max_distance st)" using assms(1) by (simp add: search_inv_def)
  have f: "hfind (max_distance st1) = (hfind (max_distance st))(d \<mapsto> dist)"
    by (simp add: st1_def hd.find_put [OF wf])
  obtain k where k: "hfind (max_distance st) s = Some k" using assms(2) by blast
  then have walk: "(start, d) \<in> set es ^^ (k + 1)"
    using assms(1,3) by (auto simp: search_inv_def)
  have ks: "dist_of st s = k" using k by (simp add: hget_or_def)
  have known: "(start, d) \<in> set es ^^ dist"
  proof (cases "k + 1 < dist_of st d")
    case True
    then obtain j where "hfind (max_distance st) d = Some j" by (auto simp: hget_or_def split: option.splits)
    with True ks assms(1) show ?thesis by (auto simp: dist_def hget_or_def search_inv_def max_def)
  qed (use walk ks in \<open>simp add: dist_def max_def\<close>)
  have inv: "search_inv es start st1"
    using assms(1) room known wf unfolding search_inv_def f
    by (auto simp: st1_def hd.wf_put split: if_splits) (meson le_max_iff_disj)+
  have d: "dist_of st1 v = (if v = d then dist else dist_of st v)" for v
    by (simp add: st1_def hget_or_hput [OF wf])
  have "closed_but es (Pair s ` set ds) st1"
    unfolding closed_but_def
  proof (intro allI impI)
    fix u e
    assume e: "(u, e) \<in> set es - Pair s ` set ds" and u: "hfind (max_distance st1) u \<noteq> None"
    show "u \<in> set (todo st1) \<or> settled st1 u e"
    proof (cases "u = d \<or> u \<in> set (todo st)")
      case True
      then show ?thesis by (auto simp: st1_def)
    next
      case False
      then have "settled st u e \<or> (u = s \<and> e = d)"
        using assms(4) e u False by (auto simp: closed_but_def f)
      then show ?thesis using False by (auto simp: settled_def d f dist_def)
    qed
  qed
  with inv assms(2) show ?thesis by (simp add: f)
qed

lemma relax_ok:
  assumes "relax L (length es) s ds st = Some st'" and "search_inv es start st"
    and "hfind (max_distance st) s \<noteq> None" and "Pair s ` set ds \<subseteq> set es" and "closed_but es (Pair s ` set ds) st"
  shows "search_inv es start st' \<and> closed_but es {} st'"
  using assms
proof (induction ds arbitrary: st)
  case (Cons d ds)
  let ?st = "\<lparr>max_distance = hput L d (max (dist_of st s + 1) (dist_of st d)) (max_distance st),
     mdist = max (mdist st) (max (dist_of st s + 1) (dist_of st d)), todo = uset_insert L d (todo st)\<rparr>"
  from Cons.prems(1) have le: "max (mdist st) (max (dist_of st s + 1) (dist_of st d)) \<le> length es"
    and r: "relax L (length es) s ds ?st = Some st'"
    by (auto simp: Let_def split: if_splits)
  have "search_inv es start ?st \<and> hfind (max_distance ?st) s \<noteq> None \<and> closed_but es (Pair s ` set ds) ?st"
    using Cons.prems(4) by (intro relax_step [OF Cons.prems(2,3) _ Cons.prems(5) le]) simp
  with Cons.IH [OF r] Cons.prems(4) show ?case by simp
qed simp

lemma relax_cycle:
  assumes "relax L (length es) s ds st = None" and "search_inv es start st"
    and "hfind (max_distance st) s \<noteq> None" and "Pair s ` set ds \<subseteq> set es" and "closed_but es (Pair s ` set ds) st"
  shows "\<exists>v k. length es < k \<and> (start, v) \<in> set es ^^ k"
  using assms
proof (induction ds arbitrary: st)
  case (Cons d ds)
  let ?m = "max (mdist st) (max (dist_of st s + 1) (dist_of st d))"
  show ?case
  proof (cases "?m \<le> length es")
    case True
    let ?st = "\<lparr>max_distance = hput L d (max (dist_of st s + 1) (dist_of st d)) (max_distance st),
       mdist = ?m, todo = uset_insert L d (todo st)\<rparr>"
    have "relax L (length es) s ds ?st = None"
      using Cons.prems(1) by (simp only: relax.simps Let_def if_not_P [OF leD [OF True]])
    moreover have "search_inv es start ?st \<and> hfind (max_distance ?st) s \<noteq> None \<and> closed_but es (Pair s ` set ds) ?st"
      using Cons.prems(4) by (intro relax_step [OF Cons.prems(2,3) _ Cons.prems(5) True]) simp
    ultimately show ?thesis using Cons.IH Cons.prems(4) by simp
  next
    case False
    obtain k where k: "hfind (max_distance st) s = Some k" using Cons.prems(3) by blast
    have d: "dist_of st v \<le> length es" for v
      using Cons.prems(2) by (cases "hfind (max_distance st) v") (force simp: search_inv_def hget_or_def)+
    have "length es < k + 1"
      using False Cons.prems(2) d [of d] k by (auto simp: search_inv_def hget_or_def)
    moreover have "(start, s) \<in> set es ^^ k" "(s, d) \<in> set es"
      using Cons.prems(2,4) k by (simp_all add: search_inv_def)
    then have "(start, d) \<in> set es ^^ (k + 1)" by auto
    ultimately show ?thesis by blast
  qed
qed simp

lemma relax_distinct: "relax L n s ds st = Some st' \<Longrightarrow> distinct (todo st') = distinct (todo st)"
  by (induction ds arbitrary: st) (auto simp: Let_def split: if_splits)

text \<open>What waits afterwards is farther than \<open>s\<close>, or waited before at the same distance.\<close>

lemma relax_progress:
  assumes "relax L n s ds st = Some st'" and "hwf (max_distance st)" and "k \<le> dist_of st s"
  shows "\<forall>v\<in>set (todo st'). k < dist_of st' v \<or> (v \<in> set (todo st) \<and> dist_of st' v = dist_of st v)"
  using assms
proof (induction ds arbitrary: st)
  case (Cons d ds)
  let ?dist = "max (dist_of st s + 1) (dist_of st d)"
  let ?st = "\<lparr>max_distance = hput L d ?dist (max_distance st), mdist = max (mdist st) ?dist,
     todo = uset_insert L d (todo st)\<rparr>"
  have r: "relax L n s ds ?st = Some st'" using Cons.prems(1) by (auto simp: Let_def split: if_splits)
  have d: "dist_of ?st v = (if v = d then ?dist else dist_of st v)" for v
    by (simp add: hget_or_hput [OF Cons.prems(2)])
  have "k \<le> dist_of ?st s" using Cons.prems(3) d by auto
  from Cons.IH [OF r _ this] Cons.prems(2)
  have ih: "\<forall>v\<in>set (todo st'). k < dist_of st' v \<or> (v \<in> insert d (set (todo st)) \<and> dist_of st' v = dist_of ?st v)"
    by (simp add: hd.wf_put)
  have "k < ?dist" using Cons.prems(3) by simp
  with ih show ?case unfolding d by (metis insert_iff)
qed simp

lemma weight_decreases:
  assumes "relax L (length es) s (equal_range es s) (st\<lparr>todo := rest\<rparr>) = Some st'" and "todo st = s # rest"
    and "distinct (todo st)" and "search_inv es start st'" and "hwf (max_distance st)"
  shows "(weight (length es) st', weight (length es) st) \<in> mult less_than"
proof -
  let ?n = "length es" and ?k = "dist_of st s"
  let ?g = "\<lambda>st v. Suc (length es) - dist_of st v"
  define A where "A = {v \<in> set (todo st'). dist_of st' v \<le> ?k}"
  define B where "B = set (todo st') - A"
  have p: "\<forall>v\<in>set (todo st'). ?k < dist_of st' v \<or> (v \<in> set rest \<and> dist_of st' v = dist_of st v)"
    using relax_progress [OF assms(1), of ?k] assms(5) by simp
  then have A: "A \<subseteq> set rest" and same: "\<And>v. v \<in> A \<Longrightarrow> dist_of st' v = dist_of st v"
    by (auto simp: A_def)
  have fin: "finite A" "finite B" "finite (set rest - A)" by (auto simp: A_def B_def)
  have u: "set (todo st') = A \<union> B" "A \<inter> B = {}" by (auto simp: A_def B_def)
  have r: "set rest = A \<union> (set rest - A)" using A by blast
  have A': "image_mset (?g st') (mset_set A) = image_mset (?g st) (mset_set A)"
    by (rule image_mset_cong) (simp add: same fin(1))
  have w': "weight ?n st' = image_mset (?g st) (mset_set A) + image_mset (?g st') (mset_set B)"
    unfolding weight_def u(1) mset_set_Union [OF fin(1,2) u(2)]
    by (simp add: A')
  have "s \<notin> set rest" using assms(2,3) by simp
  then have "weight ?n st = add_mset (?g st s) (image_mset (?g st) (mset_set (A \<union> (set rest - A))))"
    using assms(2) A by (simp add: weight_def Un_absorb1)
  also have "\<dots> = image_mset (?g st) (mset_set A) + add_mset (?g st s) (image_mset (?g st) (mset_set (set rest - A)))"
    by (subst mset_set_Union) (use fin in auto)
  finally have w: "weight ?n st = \<dots>" .
  have "dist_of st' v \<le> ?n" if "v \<in> set (todo st')" for v
    using assms(4) that by (cases "hfind (max_distance st') v") (force simp: search_inv_def hget_or_def)+
  then have "\<forall>v\<in>B. ?g st' v < ?g st s"
    by (force simp: A_def B_def)
  then show ?thesis
    unfolding w w' using fin by (intro one_step_implies_mult) auto
qed

lemma search_loop_result:
  assumes "search_inv es start st" and "closed_but es {} st" and "distinct (todo st)"
  shows "\<exists>r. search_loop L es st = Some r \<and>
    (case r of
       None \<Rightarrow> \<exists>v k. length es < k \<and> (start, v) \<in> set es ^^ k
     | Some m \<Rightarrow> \<exists>st'. max_distance st' = m \<and> todo st' = [] \<and> search_inv es start st' \<and> closed_but es {} st')"
  using assms
proof (induction st rule: wf_induct_rule [OF wf_inv_image [OF wf_mult [OF wf_less_than], of "weight (length es)"]])
  case (1 st)
  show ?case
  proof (cases "todo st")
    case Nil
    with 1(2,3) show ?thesis by (subst search_loop.simps) auto
  next
    case (Cons s rest)
    let ?ds = "equal_range es s" and ?st = "st\<lparr>todo := rest\<rparr>"
    have edges: "Pair s ` set ?ds = {e \<in> set es. fst e = s}"
      by (auto simp: equal_range_def image_iff)
    have pre: "search_inv es start ?st" "hfind (max_distance ?st) s \<noteq> None" "Pair s ` set ?ds \<subseteq> set es"
      using 1(2) Cons edges by (auto simp: search_inv_def)
    have closed: "closed_but es (Pair s ` set ?ds) ?st"
      using 1(3) Cons unfolding edges by (auto simp: closed_but_def settled_def)
    show ?thesis
    proof (cases "relax L (length es) s ?ds ?st")
      case None
      then show ?thesis using relax_cycle [OF None pre closed] Cons by (subst search_loop.simps) simp
    next
      case (Some st')
      have ok: "search_inv es start st'" "closed_but es {} st'" using relax_ok [OF Some pre closed] by auto
      have d: "distinct (todo st')" using relax_distinct [OF Some] 1(4) Cons by simp
      have "(weight (length es) st', weight (length es) st) \<in> mult less_than"
        using 1(2) by (intro weight_decreases [OF Some Cons 1(4) ok(1)]) (simp add: search_inv_def)
      with 1(1) [of st'] ok d have "\<exists>r. search_loop L es st' = Some r \<and>
          (case r of
             None \<Rightarrow> \<exists>v k. length es < k \<and> (start, v) \<in> set es ^^ k
           | Some m \<Rightarrow> \<exists>st'. max_distance st' = m \<and> todo st' = [] \<and> search_inv es start st' \<and> closed_but es {} st')"
        by simp
      then show ?thesis using Cons Some by (subst search_loop.simps) simp
    qed
  qed
qed

section \<open>Cycles\<close>

definition cycle_from :: "('n \<times> 'n) set \<Rightarrow> 'n \<Rightarrow> bool" where
  "cycle_from E start \<longleftrightarrow> (\<exists>v. (start, v) \<in> E\<^sup>* \<and> (v, v) \<in> E\<^sup>+)"

lemma relpow_segment: "\<forall>i<k. (f i, f (Suc i)) \<in> E \<Longrightarrow> i \<le> j \<Longrightarrow> j \<le> k \<Longrightarrow> (f i, f j) \<in> E ^^ (j - i)"
  using relpow_fun_conv [of "f i" "f j" "j - i" E] by (intro iffD2 [OF relpow_fun_conv] exI [of _ "\<lambda>m. f (i + m)"]) simp

text \<open>A walk with more steps than there are edges uses an edge twice.\<close>

lemma long_walk_cycle:
  assumes "(start, v) \<in> set es ^^ k" and "length es < k"
  shows "cycle_from (set es) start"
proof -
  from assms(1) obtain f where f: "f 0 = start" "f k = v" "\<forall>i<k. (f i, f (Suc i)) \<in> set es"
    by (auto simp: relpow_fun_conv)
  have "card (set es) < card {..<k}" using assms(2) card_length [of es] by simp
  moreover have "(\<lambda>i. (f i, f (Suc i))) ` {..<k} \<subseteq> set es" using f(3) by auto
  ultimately have "\<not> inj_on (\<lambda>i. (f i, f (Suc i))) {..<k}"
    using card_inj_on_le [of _ "{..<k}" "set es"] by (metis List.finite_set not_less)
  then obtain i j where ij: "i < j" "j < k" "f i = f j"
    by (auto simp: inj_on_def) (metis linorder_neqE_nat)
  have "(f i, f j) \<in> set es ^^ (j - i)" by (rule relpow_segment [OF f(3)]) (use ij in auto)
  moreover have "(f 0, f i) \<in> set es ^^ (i - 0)" by (rule relpow_segment [OF f(3)]) (use ij in auto)
  ultimately have "(f i, f i) \<in> (set es)\<^sup>+" "(start, f i) \<in> (set es)\<^sup>*"
    using ij f(1) by (auto simp: trancl_power relpow_imp_rtrancl intro: exI [of _ "j - i"])
  then show ?thesis by (auto simp: cycle_from_def)
qed

lemma closed_reaches:
  assumes "search_inv es start st" "closed_but es {} st" "todo st = []"
  shows "(u, v) \<in> (set es)\<^sup>+ \<Longrightarrow> hfind (max_distance st) u \<noteq> None \<Longrightarrow>
    hfind (max_distance st) v \<noteq> None \<and> dist_of st u < dist_of st v"
  by (induction rule: trancl_induct) (use assms(2,3) in \<open>force simp: closed_but_def settled_def\<close>)+

lemma search_known:
  assumes "search_inv es start st" "closed_but es {} st" "todo st = []"
  shows "hfind (max_distance st) v \<noteq> None \<longleftrightarrow> (start, v) \<in> (set es)\<^sup>*"
proof
  assume "hfind (max_distance st) v \<noteq> None"
  then show "(start, v) \<in> (set es)\<^sup>*" using assms(1) by (auto simp: search_inv_def intro: relpow_imp_rtrancl)
next
  assume "(start, v) \<in> (set es)\<^sup>*"
  then show "hfind (max_distance st) v \<noteq> None"
    using closed_reaches [OF assms, of start v] assms(1) by (auto simp: search_inv_def rtrancl_eq_or_trancl)
qed

lemma search_acyclic:
  assumes "search_inv es start st" "closed_but es {} st" "todo st = []"
  shows "\<not> cycle_from (set es) start"
  using closed_reaches [OF assms] search_known [OF assms] by (force simp: cycle_from_def)

lemma search_start:
  "search_inv es start \<lparr>max_distance = [(start, 0)], mdist = 0, todo = [start]\<rparr>"
  "closed_but es {} \<lparr>max_distance = [(start, 0)], mdist = 0, todo = [start]\<rparr>"
  by (auto simp: search_inv_def closed_but_def hfind_def hwf_def hkeys_def split: if_splits)

text \<open>What the search returns, on every graph and in every order.\<close>

lemma build_path_cases:
  "if cycle_from (set es) start then build_path L es start result = Some (GRAPH_CYCLE, result)
   else \<exists>st. build_path L es start result = Some (GRAPH_OK, concat (fold (place L) (max_distance st) [])) \<and>
     todo st = [] \<and> search_inv es start st \<and> closed_but es {} st"
proof -
  let ?st = "\<lparr>max_distance = [(start, 0)], mdist = 0, todo = [start]\<rparr>"
  have "distinct (todo ?st)" by simp
  from search_loop_result [OF search_start this] obtain r where r: "search_loop L es ?st = Some r"
    and c: "case r of
       None \<Rightarrow> \<exists>v k. length es < k \<and> (start, v) \<in> set es ^^ k
     | Some m \<Rightarrow> \<exists>st'. max_distance st' = m \<and> todo st' = [] \<and> search_inv es start st' \<and> closed_but es {} st'"
    by fast
  show ?thesis
  proof (cases r)
    case None
    with c long_walk_cycle have "cycle_from (set es) start" by fastforce
    with None r show ?thesis by (simp add: build_path_def)
  next
    case (Some m)
    with c obtain st where st: "max_distance st = m" "todo st = []" "search_inv es start st" "closed_but es {} st"
      by auto
    from search_acyclic [OF st(3,4,2)] Some r st show ?thesis by (auto simp: build_path_def)
  qed
qed

text \<open>
  C10: the search for the nodes to compute ends on every graph, in whatever order it meets them, and
  reports a cycle exactly when a cycle can be reached from the start, leaving the result as it was.
\<close>

theorem build_path_detects_cycles:
  "\<exists>path. build_path L es start result =
     Some (if cycle_from (set es) start then (GRAPH_CYCLE, result) else (GRAPH_OK, path))"
  using build_path_cases [of es start L result] by (auto split: if_splits)


section \<open>The path\<close>

lemma path_length: "length (place L e path) = max (length path) (snd e + 1)"
  by (simp add: place_def Let_def)

lemma place_nth:
  assumes "k < length (place L e path)"
  shows "set (place L e path ! k) =
      (if k < length path then set (path ! k) else {}) \<union> (if k = snd e then {fst e} else {})"
    and "distinct (place L e path ! k) \<longleftrightarrow> k < length path \<longrightarrow> distinct (path ! k)"
  using assms by (auto simp: place_def Let_def nth_append nth_list_update)

lemma place_all:
  fixes L :: layout
  assumes "hwf (ps @ qs)" "\<forall>k<length path. distinct (path ! k) \<and> (\<forall>v. v \<in> set (path ! k) \<longleftrightarrow> (v, k) \<in> set ps)"
    and "\<forall>e\<in>set ps. snd e < length path"
  defines "path' \<equiv> fold (place L) qs path"
  shows "(\<forall>k<length path'. distinct (path' ! k) \<and> (\<forall>v. v \<in> set (path' ! k) \<longleftrightarrow> (v, k) \<in> set (ps @ qs))) \<and>
    (\<forall>e\<in>set (ps @ qs). snd e < length path')"
  using assms(1-3) unfolding path'_def
proof (induction qs arbitrary: ps path)
  case Nil
  then show ?case by simp
next
  case (Cons q qs)
  have "\<forall>k<length (place L q path). distinct (place L q path ! k) \<and>
      (\<forall>v. v \<in> set (place L q path ! k) \<longleftrightarrow> (v, k) \<in> set (ps @ [q]))"
  proof (intro allI impI conjI)
    fix k v
    assume k: "k < length (place L q path)"
    show "distinct (place L q path ! k)"
      using Cons.prems(2) k by (simp add: place_nth(2))
    show "v \<in> set (place L q path ! k) \<longleftrightarrow> (v, k) \<in> set (ps @ [q])"
      using Cons.prems(2,3) unfolding place_nth(1) [OF k] by (cases q; cases "k < length path") auto
  qed
  moreover have "\<forall>e\<in>set (ps @ [q]). snd e < length (place L q path)"
    using Cons.prems(3) by (auto simp: path_length)
  ultimately show ?case using Cons.IH [of "ps @ [q]" "place L q path"] Cons.prems(1) by simp
qed

definition levels_ok :: "('n \<Rightarrow> nat) \<Rightarrow> 'n list list \<Rightarrow> bool" where
  "levels_ok f path \<longleftrightarrow> (\<forall>k<length path. distinct (path ! k) \<and> (\<forall>v\<in>set (path ! k). f v = k))"

lemma levels_ok_snoc:
  "levels_ok f (path @ [xs]) \<longleftrightarrow> levels_ok f path \<and> distinct xs \<and> (\<forall>v\<in>set xs. f v = length path)"
  by (auto simp: levels_ok_def nth_append less_Suc_eq)

lemma levels_ok_below: "levels_ok f path \<Longrightarrow> v \<in> set (concat path) \<Longrightarrow> f v < length path"
  by (auto simp: levels_ok_def in_set_conv_nth [of _ path])

lemma levels_sorted: "levels_ok f path \<Longrightarrow> sorted (map f (concat path)) \<and> distinct (concat path)"
proof (induction path rule: rev_induct)
  case Nil
  then show ?case by simp
next
  case (snoc xs path)
  then have ok: "levels_ok f path" and xs: "distinct xs" "\<forall>v\<in>set xs. f v = length path"
    by (simp_all add: levels_ok_snoc)
  have c: "map f xs = replicate (length xs) (length path)"
    using xs(2) by (simp add: list_eq_iff_nth_eq)
  have "set (concat path) \<inter> set xs = {}" using levels_ok_below [OF ok] xs(2) by fastforce
  moreover have "\<forall>v\<in>set (concat path). f v \<le> length path" using levels_ok_below [OF ok] by fastforce
  ultimately show ?case using snoc.IH [OF ok] xs(1) by (simp add: sorted_append c del: set_concat)
qed

definition path_ok :: "('n \<times> 'n) set \<Rightarrow> 'n \<Rightarrow> 'n list \<Rightarrow> bool" where
  "path_ok E start path \<longleftrightarrow>
     distinct path \<and> set path = {v. (start, v) \<in> E\<^sup>*} \<and>
     (\<forall>i j. i < length path \<longrightarrow> j < length path \<longrightarrow> (path ! i, path ! j) \<in> E \<longrightarrow> i < j)"

lemma build_path_cases_ok:
  "\<exists>code path. build_path L es start result = Some (code, path) \<and>
     (\<not> cycle_from (set es) start \<longrightarrow> code = GRAPH_OK \<and> path_ok (set es) start path)"
proof (cases "cycle_from (set es) start")
  case True
  then show ?thesis using build_path_cases [of es start L result] by simp
next
  case False
  from build_path_cases [of es start L result] False obtain st
    where b: "build_path L es start result = Some (GRAPH_OK, concat (fold (place L) (max_distance st) []))"
      and st: "search_inv es start st" "closed_but es {} st" "todo st = []" by auto
  let ?levels = "fold (place L) (max_distance st) []" and ?f = "dist_of st"
  have wf: "hwf (max_distance st)" using st(1) by (simp add: search_inv_def)
  then have find: "(v, k) \<in> set (max_distance st) \<longleftrightarrow> hfind (max_distance st) v = Some k" for v k
    by (simp add: hfind_def hwf_def hkeys_def)
  have lv: "distinct (?levels ! k) \<and> (\<forall>v. v \<in> set (?levels ! k) \<longleftrightarrow> hfind (max_distance st) v = Some k)"
    if "k < length ?levels" for k
    using place_all [of "[]" "max_distance st" "[]" L] wf that by (simp add: find)
  have ln: "k < length ?levels" if "hfind (max_distance st) v = Some k" for v k
    using place_all [of "[]" "max_distance st" "[]" L] wf that by (force simp: find [symmetric])
  have ok: "levels_ok ?f ?levels" using lv by (simp add: levels_ok_def hget_or_def)
  have "v \<in> set (concat ?levels) \<longleftrightarrow> hfind (max_distance st) v \<noteq> None" for v
  proof
    assume "v \<in> set (concat ?levels)"
    then obtain k where "k < length ?levels" "v \<in> set (?levels ! k)" by (auto simp: in_set_conv_nth [of _ ?levels])
    with lv show "hfind (max_distance st) v \<noteq> None" by auto
  next
    assume "hfind (max_distance st) v \<noteq> None"
    then obtain k where k: "hfind (max_distance st) v = Some k" by blast
    with lv [OF ln [OF k]] nth_mem [OF ln [OF k]] show "v \<in> set (concat ?levels)" by auto
  qed
  then have set: "set (concat ?levels) = {v. (start, v) \<in> (set es)\<^sup>*}"
    using search_known [OF st] by blast
  have "distinct (concat ?levels)" using levels_sorted [OF ok] by simp
  moreover have "i < j" if "i < length (concat ?levels)" "j < length (concat ?levels)"
      "(concat ?levels ! i, concat ?levels ! j) \<in> set es" for i j
  proof (rule ccontr)
    assume "\<not> i < j"
    then have "?f (concat ?levels ! j) \<le> ?f (concat ?levels ! i)"
      using sorted_nth_mono [OF conjunct1 [OF levels_sorted [OF ok]], of j i] that by simp
    moreover have "hfind (max_distance st) (concat ?levels ! i) \<noteq> None"
      using set search_known [OF st] nth_mem [OF that(1)] by blast
    ultimately show False using closed_reaches [OF st] that(3) by fastforce
  qed
  ultimately show ?thesis using b set by (simp add: path_ok_def)
qed

text \<open>
  C17: without a cycle the path lists exactly the nodes that can be reached from the start, each once,
  and along every edge the source before the end: when a node is computed, every node it depends on
  has been.
\<close>

theorem build_path_topological:
  assumes "\<not> cycle_from (set es) start"
  shows "\<exists>path. build_path L es start result = Some (GRAPH_OK, path) \<and> distinct path \<and>
    set path = {v. (start, v) \<in> (set es)\<^sup>*} \<and>
    (\<forall>i j. i < length path \<longrightarrow> j < length path \<longrightarrow> (path ! i, path ! j) \<in> set es \<longrightarrow> i < j)"
  using build_path_cases_ok [of L es start result] assms by (auto simp: path_ok_def)

theorem build_path_topological_witness:
  "\<exists>path. build_path (\<lambda>n. [0..<n]) [(1 :: nat, 2), (1, 3), (3, 2), (4, 4)] 1 [] = Some (GRAPH_OK, path) \<and>
     distinct path \<and> set path = {v. (1, v) \<in> {(1, 2), (1, 3), (3, 2), (4, 4)}\<^sup>*}"
proof -
  have e: "(u, v) \<in> {(1, 2), (1, 3), (3, 2), (4, 4)}\<^sup>* \<Longrightarrow> u \<in> {1, 2, 3 :: nat} \<Longrightarrow> v \<in> {1, 2, 3}" for u v
    by (induction rule: rtrancl_induct) auto
  have t: "(u, v) \<in> {(1, 2), (1, 3), (3, 2), (4, 4)}\<^sup>+ \<Longrightarrow> u \<in> {1, 2, 3 :: nat} \<Longrightarrow>
      v \<in> {2, 3} \<and> (u = 2 \<longrightarrow> False) \<and> (u = 3 \<longrightarrow> v = 2)" for u v
    by (induction rule: trancl_induct) auto
  have "\<not> cycle_from (set [(1 :: nat, 2), (1, 3), (3, 2), (4, 4)]) 1"
    using e t by (fastforce simp: cycle_from_def)
  from build_path_topological [OF this, of "\<lambda>n. [0..<n]" "[]"] show ?thesis by auto
qed

end
