(* ===== verification/Dag_Ops.thy ===== *)
theory Dag_Ops
  imports Quotes Parse_Double
begin

text \<open>
  \<open>dag/node.{hpp,cpp}\<close>, \<open>dag/compute.hpp\<close>, \<open>dag/factory.{hpp,cpp}\<close> and \<open>dag/ops\<close>: nodes of the
  graph of prices, the operations of their pipelines and the registry of operations.

  The operations of a pipeline all read their parameters from the first bytes of the node's storage:
  \<open>omega\<close> of \<open>ema\<close> and the value of \<open>min_spread\<close> of \<open>quote_spread\<close> are the same eight bytes.
  \<open>std::pow\<close>, whose rounding C++ leaves open, is the parameter \<open>pw\<close>.
\<close>

section \<open>Nodes\<close>

datatype compute_op = OP_SUM | OP_PRODUCT | OP_EMA | OP_QUOTE_SPREAD | OP_QUOTE_SHIFT

datatype node_flag = NF_UNDEFINED | NF_INPUT | NF_PRICE | NF_EXPOSURE

record node_ref =
  nr_node :: ident
  nr_weight :: double
  nr_denominator :: double
  nr_flags :: "node_flag set"

record node_parameters =
  np_value :: double  \<comment> \<open>\<open>EMA::omega\<close>, \<open>QuoteSpread::min_spread.value\<close>\<close>
  np_units :: shift_units
  np_max_value :: double
  np_max_units :: shift_units

record dag_node =
  dn_node :: ident
  dn_name :: string
  dn_mdata :: ident
  dn_exec :: ident
  dn_account :: string
  dn_portfolio :: ident
  dn_quotes :: best_quotes
  dn_multiplier :: double
  dn_flags :: "node_flag set"
  dn_refs :: "node_ref list"  \<comment> \<open>the first \<open>refs_size\<close> of \<open>refs\<close>\<close>
  dn_pipeline_size :: nat
  dn_pipeline :: "compute_op option list"  \<comment> \<open>null pointers are \<open>None\<close>\<close>
  dn_parameters :: node_parameters

definition MAX_REFS_SIZE :: nat where
  "MAX_REFS_SIZE = 16"

definition MAX_PIPELINE_SIZE :: nat where
  "MAX_PIPELINE_SIZE = 16"

text \<open>A node as \<open>try_emplace\<close> creates it: what has no initialiser is zero.\<close>

definition new_node :: dag_node where
  "new_node =
     \<lparr>dn_node = 0, dn_name = [], dn_mdata = 0, dn_exec = 0, dn_account = [], dn_portfolio = 0,
      dn_quotes = no_best_quotes, dn_multiplier = Fin 1, dn_flags = {}, dn_refs = [], dn_pipeline_size = 0,
      dn_pipeline = replicate MAX_PIPELINE_SIZE None,
      dn_parameters = \<lparr>np_value = Fin 0, np_units = SU_UNDEFINED, np_max_value = Fin 0, np_max_units = SU_UNDEFINED\<rparr>\<rparr>"

text \<open>Beyond the array a reference is written outside the node.\<close>

definition add_ref :: "ident \<Rightarrow> node_flag set \<Rightarrow> dag_node \<Rightarrow> dag_node res" where
  "add_ref i flags n =
     (if MAX_REFS_SIZE \<le> length (dn_refs n) then Inl Undefined_Behaviour
      else Inr (n\<lparr>dn_refs := dn_refs n @ [\<lparr>nr_node = i, nr_weight = NaN, nr_denominator = Fin 1, nr_flags = flags\<rparr>]\<rparr>))"

definition get_pipeline :: "dag_node \<Rightarrow> (compute_op \<Rightarrow> 's \<Rightarrow> 's res) \<Rightarrow> 's \<Rightarrow> 's res" where
  "get_pipeline n fn =
     rfold (\<lambda>i s.
       if MAX_PIPELINE_SIZE \<le> i then Inl Undefined_Behaviour
       else case dn_pipeline n ! i of None \<Rightarrow> Inl Undefined_Behaviour | Some c \<Rightarrow> fn c s)
     [0..<dn_pipeline_size n]"

type_synonym nodes = "(ident, dag_node) hash"

definition context_get_refs :: "nodes \<Rightarrow> dag_node \<Rightarrow> (node_ref \<Rightarrow> dag_node \<Rightarrow> 's \<Rightarrow> 's res) \<Rightarrow> 's \<Rightarrow> 's res" where
  "context_get_refs ns n fn =
     rfold (\<lambda>r s. case hfind ns (nr_node r) of
       None \<Rightarrow> Inl (Runtime_Error ''UNEXPECTED'') | Some ref_node \<Rightarrow> fn r ref_node s) (dn_refs n)"


section \<open>Operations\<close>

text \<open>The value an operation leaves in \<open>context.quotes\<close>, and what it returns.\<close>

definition set_prices :: "double \<Rightarrow> double \<Rightarrow> best_quotes \<Rightarrow> best_quotes" where
  "set_prices buy sell q =
     q\<lparr>bq_buy := (bq_buy q)\<lparr>eq_price := buy\<rparr>, bq_sell := (bq_sell q)\<lparr>eq_price := sell\<rparr>\<rparr>"

abbreviation buy_price :: "best_quotes \<Rightarrow> double" where
  "buy_price q \<equiv> eq_price (bq_buy q)"

abbreviation sell_price :: "best_quotes \<Rightarrow> double" where
  "sell_price q \<equiv> eq_price (bq_sell q)"

definition unit_quotes :: "double \<Rightarrow> best_quotes" where
  "unit_quotes p =
     \<lparr>bq_buy = no_exec_quote\<lparr>eq_price := p, eq_volume := Fin 1\<rparr>,
      bq_sell = no_exec_quote\<lparr>eq_price := p, eq_volume := Fin 1\<rparr>\<rparr>"

definition sum_ref :: "node_ref \<Rightarrow> dag_node \<Rightarrow> best_quotes \<Rightarrow> best_quotes" where
  "sum_ref r n q =
     (let w = nr_weight r; buy = buy_price (dn_quotes n); sell = sell_price (dn_quotes n) in
      if dgt w (Fin 0) then set_prices (buy_price q + buy * w) (sell_price q + sell * w) q
      else if dlt w (Fin 0) then set_prices (buy_price q + sell * w) (sell_price q + buy * w) q
      else q)"

definition compute_sum :: "nodes \<Rightarrow> dag_node \<Rightarrow> best_quotes \<Rightarrow> (bool \<times> best_quotes) res" where
  "compute_sum ns n q =
     rbind (context_get_refs ns n (\<lambda>r m q. Inr (sum_ref r m q)) (unit_quotes (Fin 0))) (\<lambda>q1. Inr (True, q1))"

definition product_ref :: "(double \<Rightarrow> double \<Rightarrow> double) \<Rightarrow> node_ref \<Rightarrow> dag_node \<Rightarrow> best_quotes \<Rightarrow> best_quotes" where
  "product_ref pw r n q =
     (let w = nr_weight r; buy = buy_price (dn_quotes n); sell = sell_price (dn_quotes n) in
      if deq w (Fin 1) then set_prices (buy_price q * buy) (sell_price q * sell) q
      else if deq w (Fin (- 1)) then set_prices (buy_price q / sell) (sell_price q / buy) q
      else if dgt w (Fin 0) then set_prices (buy_price q * pw buy w) (sell_price q * pw sell w) q
      else if dlt w (Fin 0) then set_prices (buy_price q * pw sell w) (sell_price q * pw buy w) q
      else q)"

definition compute_product ::
  "(double \<Rightarrow> double \<Rightarrow> double) \<Rightarrow> nodes \<Rightarrow> dag_node \<Rightarrow> best_quotes \<Rightarrow> (bool \<times> best_quotes) res" where
  "compute_product pw ns n q =
     rbind (context_get_refs ns n (\<lambda>r m q. Inr (product_ref pw r m q)) (unit_quotes (Fin 1))) (\<lambda>q1. Inr (True, q1))"

definition compute_ema :: "dag_node \<Rightarrow> best_quotes \<Rightarrow> (bool \<times> best_quotes) res" where
  "compute_ema n q =
     (let omega = np_value (dn_parameters n); buy = buy_price (dn_quotes n); sell = sell_price (dn_quotes n) in
      Inr (True, set_prices (buy_price q * omega + buy * (Fin 1 - omega)) (sell_price q * omega + sell * (Fin 1 - omega)) q))"

definition compute_quote_spread :: "dag_node \<Rightarrow> best_quotes \<Rightarrow> (bool \<times> best_quotes) res" where
  "compute_quote_spread n q =
     (let m = mid_price (exec_quote_to_quote (bq_buy q)) (exec_quote_to_quote (bq_sell q));
          spread = \<lparr>sh_value = np_value (dn_parameters n), sh_units = np_units (dn_parameters n)\<rparr> in
      if isnan m \<or> isnan (sh_value spread) then Inr (True, no_best_quotes)
      else rbind (buy_and_sell_price_from_mid_price_and_spread m spread) (\<lambda>(buy, sell). Inr (True, set_prices buy sell q)))"

text \<open>
  The units of the local \<open>shift\<close> are never initialised, and \<open>shift_price\<close> branches on them: after
  the loop over the references the behaviour is undefined.
\<close>

definition shift_ref :: "node_ref \<Rightarrow> dag_node \<Rightarrow> double \<Rightarrow> double" where
  "shift_ref r n s =
     (if NF_EXPOSURE \<in> dn_flags n
      then s + nr_weight r / nr_denominator r * exposure_by_quotes (dn_quotes n) else s)"

definition compute_quote_shift :: "nodes \<Rightarrow> dag_node \<Rightarrow> best_quotes \<Rightarrow> (bool \<times> best_quotes) res" where
  "compute_quote_shift ns n q =
     rbind (context_get_refs ns n (\<lambda>r m s. Inr (shift_ref r m s)) (Fin 0)) (\<lambda>_. Inl Undefined_Behaviour)"

fun run_compute ::
  "(double \<Rightarrow> double \<Rightarrow> double) \<Rightarrow> nodes \<Rightarrow> dag_node \<Rightarrow> compute_op \<Rightarrow> best_quotes \<Rightarrow> (bool \<times> best_quotes) res" where
  "run_compute pw ns n OP_SUM q = compute_sum ns n q"
| "run_compute pw ns n OP_PRODUCT q = compute_product pw ns n q"
| "run_compute pw ns n OP_EMA q = compute_ema n q"
| "run_compute pw ns n OP_QUOTE_SPREAD q = compute_quote_spread n q"
| "run_compute pw ns n OP_QUOTE_SHIFT q = compute_quote_shift ns n q"


section \<open>Parameters of operations\<close>

definition shift_parse :: "string \<Rightarrow> shift res" where
  "shift_parse s = rbind (to_double s) (\<lambda>v. Inr \<lparr>sh_value = v, sh_units = SU_PRICE\<rparr>)"

definition configure_ema :: "parameter \<Rightarrow> node_parameters \<Rightarrow> node_parameters res" where
  "configure_ema p np =
     (if par_label p = ''ema:omega'' then rbind (parse_double (par_value p)) (\<lambda>v. Inr (np\<lparr>np_value := v\<rparr>)) else Inr np)"

definition configure_quote_spread :: "parameter \<Rightarrow> node_parameters \<Rightarrow> node_parameters res" where
  "configure_quote_spread p np =
     (if par_label p = ''quote_spread:min_spread'' then
        rbind (shift_parse (par_value p)) (\<lambda>s. Inr (np\<lparr>np_value := sh_value s, np_units := sh_units s\<rparr>))
      else if par_label p = ''quote_spread:max_spread'' then
        rbind (shift_parse (par_value p)) (\<lambda>s. Inr (np\<lparr>np_max_value := sh_value s, np_max_units := sh_units s\<rparr>))
      else Inr np)"

text \<open>\<open>sum\<close> and \<open>product\<close> inherit the operator of \<open>Compute\<close>, which returns \<open>true\<close>.\<close>

fun configure_op :: "compute_op \<Rightarrow> parameter list \<Rightarrow> node_parameters \<Rightarrow> (bool \<times> node_parameters) res" where
  "configure_op OP_SUM ps np = Inr (True, np)"
| "configure_op OP_PRODUCT ps np = Inr (True, np)"
| "configure_op OP_EMA ps np = rbind (rfold configure_ema ps np) (\<lambda>np1. Inr (False, np1))"
| "configure_op OP_QUOTE_SPREAD ps np = rbind (rfold configure_quote_spread ps np) (\<lambda>np1. Inr (False, np1))"
| "configure_op OP_QUOTE_SHIFT ps np = Inr (False, np)"


section \<open>The registry\<close>

type_synonym factory = "(string, compute_op) hash"

definition factory_emplace :: "layout \<Rightarrow> string \<Rightarrow> compute_op \<Rightarrow> factory \<Rightarrow> factory" where
  "factory_emplace L name c f = hput L name c f"

definition factory_erase :: "layout \<Rightarrow> string \<Rightarrow> factory \<Rightarrow> factory" where
  "factory_erase L name f = herase L name f"

definition factory_get :: "string \<Rightarrow> factory \<Rightarrow> compute_op option" where
  "factory_get name f = hfind f name"

fun compute_name :: "compute_op \<Rightarrow> string" where
  "compute_name OP_SUM = ''sum''"
| "compute_name OP_PRODUCT = ''product''"
| "compute_name OP_EMA = ''ema''"
| "compute_name OP_QUOTE_SPREAD = ''quote_spread''"
| "compute_name OP_QUOTE_SHIFT = ''quote_shift''"

definition factory_initialize :: "layout \<Rightarrow> compute_op list \<Rightarrow> factory \<Rightarrow> factory" where
  "factory_initialize L cs = fold (\<lambda>c. factory_emplace L (compute_name c) c) cs"

definition initialize_all :: "layout \<Rightarrow> factory \<Rightarrow> factory" where
  "initialize_all L = factory_initialize L [OP_SUM, OP_PRODUCT, OP_EMA, OP_QUOTE_SPREAD, OP_QUOTE_SHIFT]"


section \<open>Updating a node\<close>

definition set_pipeline :: "factory \<Rightarrow> string list \<Rightarrow> dag_node \<Rightarrow> dag_node res" where
  "set_pipeline F vec n =
     rfold (\<lambda>(i, name) n.
       case factory_get name F of
         None \<Rightarrow> Inl (Runtime_Error (''pricer: compute not found '' @ name))
       | Some c \<Rightarrow>
           if MAX_PIPELINE_SIZE \<le> i then Inl Undefined_Behaviour
           else Inr (n\<lparr>dn_pipeline := (dn_pipeline n)[i := Some c]\<rparr>))
     (enumerate 0 vec) (n\<lparr>dn_pipeline_size := length vec\<rparr>)"

text \<open>\<open>Node::update(Context)\<close>\<close>

definition node_store :: "best_quotes \<Rightarrow> dag_node \<Rightarrow> bool \<times> dag_node" where
  "node_store q n = (True, n\<lparr>dn_quotes := q\<rparr>)"

text \<open>\<open>Node::update(Quotes)\<close>\<close>

definition node_quotes :: "quotes \<Rightarrow> dag_node \<Rightarrow> bool \<times> dag_node" where
  "node_quotes u n = (let (b, q) = best_quotes_update u (dn_quotes n) in (b, n\<lparr>dn_quotes := q\<rparr>))"

text \<open>\<open>Node::update(params)\<close>: the context it stores has empty quotes.\<close>

definition node_configure :: "parameter list \<Rightarrow> dag_node \<Rightarrow> (bool \<times> dag_node) res" where
  "node_configure ps n =
     rbind (get_pipeline n (\<lambda>c (modified, np).
              rbind (configure_op c ps np) (\<lambda>(b, np1). Inr (modified \<or> b, np1))) (False, dn_parameters n))
       (\<lambda>(modified, np).
         let n1 = n\<lparr>dn_parameters := np\<rparr> in
         Inr (if modified then node_store no_best_quotes n1 else (False, n1)))"

definition node_compute :: "(double \<Rightarrow> double \<Rightarrow> double) \<Rightarrow> nodes \<Rightarrow> dag_node \<Rightarrow> (bool \<times> dag_node) res" where
  "node_compute pw ns n =
     rbind (get_pipeline n (\<lambda>c q.
              rbind (run_compute pw ns n c q) (\<lambda>(b, q1). Inr (if b then q1 else no_best_quotes))) no_best_quotes)
       (\<lambda>q. Inr (node_store q n))"

definition node_clear :: "dag_node \<Rightarrow> dag_node" where
  "node_clear n = n\<lparr>dn_quotes := no_best_quotes\<rparr>"

end
