(* ===== verification/Dag_Pricer.thy ===== *)
theory Dag_Pricer
  imports Dag_Graph Dag_Ops Handler
begin

text \<open>
  \<open>dag/pricer.{hpp,cpp}\<close>: the pricer that computes prices along a graph of nodes.  It runs on the core
  and on what lies behind its dispatcher, as the pricer of \<open>lqs\<close> does; \<open>F\<close> is the registry of
  operations.  The program can be built with it in place of the pricer of \<open>lqs\<close>.
\<close>

section \<open>State\<close>

record dag_pricer =
  dp_last_node_id :: ident
  dp_nodes :: nodes
  dp_node_by_portfolio :: "(ident, (ident, ident) hash) hash"
  dp_node_by_market :: "(ident, ident) hash"
  dp_node_by_name :: "(string, ident) hash"
  dp_paths :: "(ident, ident list) hash"

definition new_dag_pricer :: dag_pricer where
  "new_dag_pricer =
     \<lparr>dp_last_node_id = 0, dp_nodes = [], dp_node_by_portfolio = [], dp_node_by_market = [], dp_node_by_name = [],
      dp_paths = []\<rparr>"

definition dag_get_node :: "ident \<Rightarrow> dag_pricer \<Rightarrow> dag_node option" where
  "dag_get_node i p = hfind (dp_nodes p) i"

definition put_node :: "ident \<Rightarrow> dag_node \<Rightarrow> dag_pricer \<Rightarrow> dag_pricer" where
  "put_node i n p = p\<lparr>dp_nodes := hset i n (dp_nodes p)\<rparr>"

text \<open>The node of a market, with its key.\<close>

definition get_node_by_market :: "ident \<Rightarrow> dag_pricer \<Rightarrow> (ident \<times> dag_node) option" where
  "get_node_by_market m p =
     (case hfind (dp_node_by_market p) m of
        None \<Rightarrow> None
      | Some i \<Rightarrow> (case dag_get_node i p of None \<Rightarrow> None | Some n \<Rightarrow> Some (i, n)))"

definition get_path :: "ident \<Rightarrow> (ident \<Rightarrow> 's \<Rightarrow> 's res) \<Rightarrow> dag_pricer \<Rightarrow> 's \<Rightarrow> 's res" where
  "get_path i fn p s = (case hfind (dp_paths p) i of None \<Rightarrow> Inr s | Some path \<Rightarrow> rfold fn path s)"

definition emplace_node :: "layout \<Rightarrow> ident \<Rightarrow> string \<Rightarrow> dag_pricer \<Rightarrow> dag_node \<times> bool \<times> dag_pricer" where
  "emplace_node L node name p =
     (let i1 = (if node = 0 then hget_or (dp_node_by_name p) name node else node);
          p1 = (if i1 = 0 then p\<lparr>dp_last_node_id := dp_last_node_id p + 1\<rparr> else p);
          i = (if i1 = 0 then dp_last_node_id p1 else i1) in
      case hfind (dp_nodes p1) i of
        Some n \<Rightarrow> (n, False, p1)
      | None \<Rightarrow>
          (let n = new_node\<lparr>dn_node := i, dn_name := name\<rparr> in (n, True, p1\<lparr>dp_nodes := hput L i n (dp_nodes p1)\<rparr>)))"


section \<open>Parameters\<close>

definition set_mdata ::
  "layout \<Rightarrow> ident \<Rightarrow> market \<Rightarrow> dag_pricer \<times> ('g, 'z) core_scheme \<Rightarrow> (dag_pricer \<times> ('g, 'z) core_scheme) res" where
  "set_mdata L i key = (\<lambda>(p, c).
     case dag_get_node i p of
       None \<Rightarrow> Inl Assert_Failed
     | Some n \<Rightarrow>
         if NF_INPUT \<in> dn_flags n then Inl (Runtime_Error ''pricer: input for node already specified'')
         else
           rbind (emplace_market L key (c_markets c)) (\<lambda>(info, _, ms).
             let m = info_market info;
                 n1 = n\<lparr>dn_mdata := m, dn_flags := dn_flags n \<union> {NF_INPUT, NF_PRICE}\<rparr>;
                 p1 = (put_node i n1 p)\<lparr>dp_node_by_market := hput L m (dn_node n) (dp_node_by_market p)\<rparr>;
                 p2 = (if dn_portfolio n \<noteq> 0
                       then p1\<lparr>dp_node_by_portfolio := hput2 L (dn_portfolio n, m) (dn_node n) (dp_node_by_portfolio p1)\<rparr>
                       else p1) in
             Inr (p2, c\<lparr>c_markets := ms\<rparr>)))"

definition node_flag_cast :: "string \<Rightarrow> node_flag option" where
  "node_flag_cast s =
     map_of [(''UNDEFINED'', NF_UNDEFINED), (''INPUT'', NF_INPUT), (''PRICE'', NF_PRICE), (''EXPOSURE'', NF_EXPOSURE)] s"

definition set_ref :: "layout \<Rightarrow> ident \<Rightarrow> string \<Rightarrow> string \<Rightarrow> dag_pricer \<Rightarrow> dag_pricer res" where
  "set_ref L i ref_name flags p =
     (let (r, _, p1) = emplace_node L 0 ref_name p;
          r1 = (case node_flag_cast (to_upper flags) of None \<Rightarrow> r | Some f \<Rightarrow> r\<lparr>dn_flags := insert f (dn_flags r)\<rparr>);
          p2 = put_node (dn_node r) r1 p1 in
      case dag_get_node i p2 of
        None \<Rightarrow> Inl Assert_Failed
      | Some n \<Rightarrow> rbind (add_ref (dn_node r1) (dn_flags r1) n) (\<lambda>n1. Inr (put_node i n1 p2)))"

text \<open>The identifier the node keeps is that of the key, not that of the portfolio found.\<close>

definition set_portfolio ::
  "layout \<Rightarrow> ident \<Rightarrow> ident \<Rightarrow> string \<Rightarrow> dag_pricer \<times> ('g, 'z) core_scheme \<Rightarrow> (dag_pricer \<times> ('g, 'z) core_scheme) res" where
  "set_portfolio L i pid name = (\<lambda>(p, c).
     case dag_get_node i p of
       None \<Rightarrow> Inl Assert_Failed
     | Some n \<Rightarrow>
         if NF_INPUT \<in> dn_flags n then Inl (Runtime_Error ''input for node already specified'')
         else
           rbind (emplace_portfolio L pid name (c_portfolios c)) (\<lambda>(_, _, pm).
             let n1 = n\<lparr>dn_portfolio := pid, dn_flags := dn_flags n \<union> {NF_INPUT, NF_EXPOSURE}\<rparr>;
                 p1 = put_node i n1 p;
                 p2 = (if dn_mdata n \<noteq> 0
                       then p1\<lparr>dp_node_by_portfolio := hput2 L (pid, dn_mdata n) (dn_node n) (dp_node_by_portfolio p1)\<rparr>
                       else p1) in
             Inr (p2, c\<lparr>c_portfolios := pm\<rparr>)))"

text \<open>One turn of the loop over the parameters.\<close>

definition dag_parameter ::
  "layout \<Rightarrow> factory \<Rightarrow> parameter \<Rightarrow> dag_pricer \<times> ('g, 'z) core_scheme \<Rightarrow> (dag_pricer \<times> ('g, 'z) core_scheme) res" where
  "dag_parameter L F par = (\<lambda>(p, c).
     let (n, _, p1) = emplace_node L 0 (par_exchange par @ '':'' @ par_symbol par) p;
         (label, suffix) = split_suffix (par_label par) (CHR '':'') in
     if label = ''mdata'' then
       (let (exch, symbol) = split_prefix (par_value par) (CHR '':'') in
        set_mdata L (dn_node n)
          \<lparr>m_market = 0, m_symbol = symbol, m_exchange = exch, m_account = [], m_strategy_id = 0\<rparr> (p1, c))
     else if label = ''portfolio_name'' then set_portfolio L (dn_node n) 0 (par_value par) (p1, c)
     else if label = ''ref'' then rbind (set_ref L (dn_node n) (par_value par) suffix p1) (\<lambda>p2. Inr (p2, c))
     else if label = ''pipeline'' then
       rbind (set_pipeline F (split_sep (par_value par) (CHR '' '')) n) (\<lambda>n1. Inr (put_node (dn_node n) n1 p1, c))
     else rbind (node_configure [par] n) (\<lambda>(_, n1). Inr (put_node (dn_node n) n1 p1, c)))"

definition dag_on_parameters ::
  "layout \<Rightarrow> factory \<Rightarrow> parameter list \<Rightarrow> dag_pricer \<times> ('g, 'z) core_scheme \<Rightarrow> (dag_pricer \<times> ('g, 'z) core_scheme) res" where
  "dag_on_parameters L F = rfold (dag_parameter L F)"


section \<open>Paths\<close>

definition dag_edges :: "dag_pricer \<Rightarrow> ident edges" where
  "dag_edges p =
     fold (\<lambda>(_, n). fold (\<lambda>r. multimap_emplace (nr_node r, dn_node n)) (dn_refs n)) (dp_nodes p) []"

fun build_paths :: "layout \<Rightarrow> ident edges \<Rightarrow> ident list \<Rightarrow> (ident, ident list) hash \<Rightarrow> (ident, ident list) hash option" where
  "build_paths L es [] paths = Some paths"
| "build_paths L es (i # is) paths =
     (case build_path L es i (hget_or paths i []) of
        None \<Rightarrow> None
      | Some (_, path) \<Rightarrow> build_paths L es is (hput L i path paths))"

definition rebuild_paths :: "layout \<Rightarrow> dag_pricer \<Rightarrow> dag_pricer option" where
  "rebuild_paths L p =
     map_option (\<lambda>paths. p\<lparr>dp_paths := paths\<rparr>)
       (build_paths L (dag_edges p) (map snd (dp_node_by_market p)) (dp_paths p))"


section \<open>Quotes\<close>

definition send_target_quotes ::
  "(quotes \<Rightarrow> ('g, 'z) core_scheme \<times> 'o \<Rightarrow> (('g, 'z) core_scheme \<times> 'o) res) \<Rightarrow> dag_pricer \<Rightarrow> ident \<Rightarrow>
     ('g, 'z) core_scheme \<times> 'o \<Rightarrow> (('g, 'z) core_scheme \<times> 'o) res" where
  "send_target_quotes D p i = (\<lambda>(c, s).
     case dag_get_node i p of
       None \<Rightarrow> Inl Assert_Failed
     | Some n \<Rightarrow>
         ensure (dn_exec n \<noteq> 0)
           (case get_market (dn_exec n) (c_markets c) of
              None \<Rightarrow> Inr (c, s)
            | Some info \<Rightarrow>
                D \<lparr>qs_market = info_market info, qs_symbol = info_symbol info, qs_exchange = info_exchange info,
                   qs_account = [], qs_portfolio = 0, qs_strategy = 0,
                   qs_buy = [bq_buy (dn_quotes n)], qs_sell = [bq_sell (dn_quotes n)]\<rparr> (c, s)))"

text \<open>
  The loop over a node's whole array of operations, null pointers included; what it computes stays in
  the context and is dropped.
\<close>

definition compute_all ::
  "(double \<Rightarrow> double \<Rightarrow> double) \<Rightarrow> nodes \<Rightarrow> dag_node \<Rightarrow> (bool \<times> best_quotes) res" where
  "compute_all pw ns n =
     rfold (\<lambda>c (changed, q).
       case c of
         None \<Rightarrow> Inl Undefined_Behaviour
       | Some op \<Rightarrow> rbind (run_compute pw ns n op q) (\<lambda>(b, q1). Inr (changed \<or> b, q1)))
     (dn_pipeline n) (False, no_best_quotes)"

definition compute_node ::
  "(double \<Rightarrow> double \<Rightarrow> double) \<Rightarrow> (quotes \<Rightarrow> ('g, 'z) core_scheme \<times> 'o \<Rightarrow> (('g, 'z) core_scheme \<times> 'o) res) \<Rightarrow>
     dag_pricer \<Rightarrow> ident \<Rightarrow> ('g, 'z) core_scheme \<times> 'o \<Rightarrow> (('g, 'z) core_scheme \<times> 'o) res" where
  "compute_node pw D p i w =
     (case dag_get_node i p of
        None \<Rightarrow> Inl Assert_Failed
      | Some n \<Rightarrow>
          rbind (compute_all pw (dp_nodes p) n) (\<lambda>(changed, _).
            if dn_exec n \<noteq> 0 \<and> changed then send_target_quotes D p (dn_node n) w else Inr w))"

definition dag_on_quotes ::
  "(double \<Rightarrow> double \<Rightarrow> double) \<Rightarrow> (quotes \<Rightarrow> ('g, 'z) core_scheme \<times> 'o \<Rightarrow> (('g, 'z) core_scheme \<times> 'o) res) \<Rightarrow>
     quotes \<Rightarrow> dag_pricer \<times> ('g, 'z) core_scheme \<times> 'o \<Rightarrow> (dag_pricer \<times> ('g, 'z) core_scheme \<times> 'o) res" where
  "dag_on_quotes pw D u = (\<lambda>(p, w).
     case get_node_by_market (qs_market u) p of
       None \<Rightarrow> Inr (p, w)
     | Some (i, input) \<Rightarrow>
         (let p1 = put_node i (snd (node_quotes u input)) p in
          rbind (get_path (dn_node input) (compute_node pw D p1) p1 w) (\<lambda>w1. Inr (p1, w1))))"


section \<open>The handler\<close>

text \<open>\<open>MarketStatus\<close>, \<open>Timer\<close> and \<open>ExposureUpdate\<close> have handlers without effect.\<close>

fun dag_handle ::
  "layout \<Rightarrow> factory \<Rightarrow> (double \<Rightarrow> double \<Rightarrow> double) \<Rightarrow>
     (quotes \<Rightarrow> ('g, 'z) core_scheme \<times> 'o \<Rightarrow> (('g, 'z) core_scheme \<times> 'o) res) \<Rightarrow>
     (dag_pricer, ('g, 'z) core_scheme \<times> 'o) pricer" where
  "dag_handle L F pw D (H_Quotes u) r = dag_on_quotes pw D u r"
| "dag_handle L F pw D (H_Parameters_Update ps) r =
     (case r of (p, c, s) \<Rightarrow> rbind (dag_on_parameters L F ps (p, c)) (\<lambda>(p1, c1). Inr (p1, c1, s)))"
| "dag_handle L F pw D H_Market_Status r = Inr r"
| "dag_handle L F pw D (H_Timer now) r = Inr r"
| "dag_handle L F pw D (H_Exposure_Update u) r = Inr r"
| "dag_handle L F pw D (H_Reference_Data symbol exch) r = Inr r"
| "dag_handle L F pw D (H_Download_Begin a) r = Inr r"
| "dag_handle L F pw D (H_Download_End a) r = Inr r"

end
