(* ===== verification/Dag_Results.thy ===== *)
theory Dag_Results
  imports Dag_Pricer Strategy_Wf
begin

text \<open>
  What the pricer of \<open>dag\<close> does: every message keeps its nodes well-formed, so it meets the contract
  of a pricer and the program built with it keeps the order manager's invariant; it sends nothing; and
  a parameter never reaches a node that an earlier one has made.
\<close>

section \<open>The invariant\<close>

definition node_ok :: "nodes \<Rightarrow> ident \<Rightarrow> dag_node \<Rightarrow> bool" where
  "node_ok ns i n \<longleftrightarrow>
     dn_node n = i \<and> length (dn_refs n) \<le> MAX_REFS_SIZE \<and> length (dn_pipeline n) = MAX_PIPELINE_SIZE \<and>
     (\<forall>r\<in>set (dn_refs n). hfind ns (nr_node r) \<noteq> None \<and> nr_weight r = NaN)"

definition dag_wf :: "dag_pricer \<Rightarrow> bool" where
  "dag_wf p \<longleftrightarrow>
     hwf (dp_nodes p) \<and> hwf (dp_node_by_market p) \<and> (\<forall>i n. hfind (dp_nodes p) i = Some n \<longrightarrow> node_ok (dp_nodes p) i n) \<and>
     (\<forall>m i. hfind (dp_node_by_market p) m = Some i \<longrightarrow> hfind (dp_nodes p) i \<noteq> None) \<and>
     dp_node_by_name p = [] \<and> dp_paths p = []"

lemma put_node_simps [simp]:
  "dp_node_by_market (put_node i n p) = dp_node_by_market p" "dp_node_by_name (put_node i n p) = dp_node_by_name p"
  "dp_paths (put_node i n p) = dp_paths p" "dp_node_by_portfolio (put_node i n p) = dp_node_by_portfolio p"
  "dp_last_node_id (put_node i n p) = dp_last_node_id p"
  by (simp_all add: put_node_def)

lemma nodes_put_node:
  "hfind (dp_nodes p) i = Some m \<Longrightarrow> hfind (dp_nodes (put_node i n p)) = (hfind (dp_nodes p))(i \<mapsto> n)"
  by (simp add: put_node_def hfind_hset_Some)

lemma put_node_wf:
  assumes "dag_wf p" and "hfind (dp_nodes p) i = Some m" and "node_ok (dp_nodes p) i n"
  shows "dag_wf (put_node i n p)"
proof -
  have f: "hfind (dp_nodes (put_node i n p)) = (hfind (dp_nodes p))(i \<mapsto> n)" by (rule nodes_put_node [OF assms(2)])
  have "hwf (dp_nodes (put_node i n p))" using assms(1) by (simp add: put_node_def dag_wf_def)
  moreover have "node_ok (dp_nodes (put_node i n p)) j x" if "hfind (dp_nodes (put_node i n p)) j = Some x" for j x
    using that assms unfolding f by (auto simp: dag_wf_def node_ok_def f split: if_splits)
  ultimately show ?thesis using assms(1,2) by (auto simp: dag_wf_def f)
qed

lemma emplace_node_wf:
  assumes "emplace_node L i name p = (n, new, p1)" and "dag_wf p"
  shows "dag_wf p1 \<and> hfind (dp_nodes p1) (dn_node n) = Some n"
proof -
  have wf: "hwf (dp_nodes p)" using assms(2) by (simp add: dag_wf_def)
  have ok: "node_ok (dp_nodes p) j x" if "hfind (dp_nodes p) j = Some x" for j x
    using that assms(2) by (simp add: dag_wf_def)
  obtain q j where q: "dp_nodes q = dp_nodes p" "dp_node_by_market q = dp_node_by_market p" "dp_node_by_name q = []"
    "dp_paths q = []" and r: "(n, new, p1) = (case hfind (dp_nodes p) j of Some n \<Rightarrow> (n, False, q)
      | None \<Rightarrow> (new_node\<lparr>dn_node := j, dn_name := name\<rparr>, True,
           q\<lparr>dp_nodes := hput L j (new_node\<lparr>dn_node := j, dn_name := name\<rparr>) (dp_nodes p)\<rparr>))"
  proof
    let ?i1 = "if i = 0 then hget_or (dp_node_by_name p) name i else i"
    let ?q = "if ?i1 = 0 then p\<lparr>dp_last_node_id := dp_last_node_id p + 1\<rparr> else p"
    show "dp_nodes ?q = dp_nodes p" "dp_node_by_market ?q = dp_node_by_market p" "dp_node_by_name ?q = []" "dp_paths ?q = []"
      using assms(2) by (simp_all add: dag_wf_def)
    show "(n, new, p1) = (case hfind (dp_nodes p) (if ?i1 = 0 then dp_last_node_id ?q else ?i1) of Some n \<Rightarrow> (n, False, ?q)
      | None \<Rightarrow> (new_node\<lparr>dn_node := if ?i1 = 0 then dp_last_node_id ?q else ?i1, dn_name := name\<rparr>, True,
           ?q\<lparr>dp_nodes := hput L (if ?i1 = 0 then dp_last_node_id ?q else ?i1)
             (new_node\<lparr>dn_node := if ?i1 = 0 then dp_last_node_id ?q else ?i1, dn_name := name\<rparr>) (dp_nodes p)\<rparr>))"
      using assms(1) by (auto simp: emplace_node_def Let_def split: option.splits if_splits)
  qed
  show ?thesis
  proof (cases "hfind (dp_nodes p) j")
    case (Some x)
    with ok r have "n = x" "p1 = q" "dn_node n = j" by (auto simp: node_ok_def)
    with assms(2) q Some show ?thesis by (simp add: dag_wf_def)
  next
    case None
    let ?n = "new_node\<lparr>dn_node := j, dn_name := name\<rparr>"
    from None r have n: "n = ?n" "p1 = q\<lparr>dp_nodes := hput L j ?n (dp_nodes p)\<rparr>" by simp_all
    have f: "hfind (dp_nodes p1) = (hfind (dp_nodes p))(j \<mapsto> ?n)" by (simp add: n hd.find_put [OF wf])
    have "node_ok (dp_nodes p1) k x" if "hfind (dp_nodes p1) k = Some x" for k x
      using that ok [of k x] unfolding f by (auto simp: node_ok_def f new_node_def split: if_splits)
    moreover have "hwf (dp_nodes p1)" by (simp add: n hd.wf_put [OF wf])
    ultimately show ?thesis using assms(2) q n by (auto simp: dag_wf_def f hd.find_put [OF wf])
  qed
qed

lemma add_ref_ok:
  assumes "add_ref r flags n = Inr n'" and "node_ok ns i n" and "hfind ns r \<noteq> None"
  shows "node_ok ns i n'"
  using assms by (auto simp: add_ref_def node_ok_def split: if_splits)

lemma set_pipeline_ok: "set_pipeline F vec n = Inr n' \<Longrightarrow> node_ok ns i n \<Longrightarrow> node_ok ns i n'"
  unfolding set_pipeline_def
  by (erule rfold_invariant [where I = "node_ok ns i"]) (auto simp: node_ok_def split: option.splits if_splits)

lemma node_configure_ok: "node_configure ps n = Inr (b, n') \<Longrightarrow> node_ok ns i n \<Longrightarrow> node_ok ns i n'"
  by (auto simp: node_configure_def node_store_def res_simps node_ok_def Let_def split: if_splits)

lemma node_quotes_ok: "node_ok ns i n \<Longrightarrow> node_ok ns i (snd (node_quotes u n))"
  by (simp add: node_quotes_def best_quotes_update_def node_ok_def)

lemma wf_tables:
  "dag_wf (p\<lparr>dp_node_by_portfolio := t\<rparr>) = dag_wf p"
  "hfind (dp_nodes p) i \<noteq> None \<Longrightarrow> dag_wf p \<Longrightarrow> dag_wf (p\<lparr>dp_node_by_market := hput L m i (dp_node_by_market p)\<rparr>)"
  by (simp_all add: dag_wf_def hd.find_put hd.wf_put)

lemma dag_wf_node: "dag_wf p \<Longrightarrow> hfind (dp_nodes p) i = Some n \<Longrightarrow> node_ok (dp_nodes p) i n"
  by (simp add: dag_wf_def)

lemma set_mdata_wf:
  assumes "set_mdata L i key (p, c) = Inr (p', c')" and wf: "dag_wf p"
  shows "dag_wf p' \<and> c_gateways c' = c_gateways c"
proof -
  from assms(1) obtain n info new ms where n: "hfind (dp_nodes p) i = Some n"
    and "emplace_market L key (c_markets c) = Inr (info, new, ms)"
    and r: "c' = c\<lparr>c_markets := ms\<rparr>"
      "p' = (let m = info_market info;
                 p1 = (put_node i (n\<lparr>dn_mdata := m, dn_flags := dn_flags n \<union> {NF_INPUT, NF_PRICE}\<rparr>) p)
                   \<lparr>dp_node_by_market := hput L m (dn_node n) (dp_node_by_market p)\<rparr> in
             if dn_portfolio n \<noteq> 0
             then p1\<lparr>dp_node_by_portfolio := hput2 L (dn_portfolio n, m) (dn_node n) (dp_node_by_portfolio p1)\<rparr> else p1)"
    by (auto simp: set_mdata_def dag_get_node_def res_simps Let_def split: option.splits if_splits)
  let ?p = "put_node i (n\<lparr>dn_mdata := info_market info, dn_flags := dn_flags n \<union> {NF_INPUT, NF_PRICE}\<rparr>) p"
  have ok: "node_ok (dp_nodes p) i n" by (rule dag_wf_node [OF wf n])
  have "dag_wf ?p" by (rule put_node_wf [OF wf n]) (use ok in \<open>simp add: node_ok_def\<close>)
  moreover have "hfind (dp_nodes ?p) (dn_node n) \<noteq> None" using ok by (simp add: nodes_put_node [OF n] node_ok_def)
  ultimately have "dag_wf (?p\<lparr>dp_node_by_market := hput L (info_market info) (dn_node n) (dp_node_by_market ?p)\<rparr>)"
    using wf_tables(2) by blast
  then show ?thesis by (simp add: r Let_def wf_tables(1))
qed

lemma set_portfolio_wf:
  assumes "set_portfolio L i pid name (p, c) = Inr (p', c')" and wf: "dag_wf p"
  shows "dag_wf p' \<and> c_gateways c' = c_gateways c"
proof -
  from assms(1) obtain n x new pm t where n: "hfind (dp_nodes p) i = Some n"
    and "emplace_portfolio L pid name (c_portfolios c) = Inr (x, new, pm)"
    and r: "c' = c\<lparr>c_portfolios := pm\<rparr>"
      "p' = (let p1 = put_node i (n\<lparr>dn_portfolio := pid, dn_flags := dn_flags n \<union> {NF_INPUT, NF_EXPOSURE}\<rparr>) p in
             if dn_mdata n \<noteq> 0
             then p1\<lparr>dp_node_by_portfolio := hput2 L (pid, dn_mdata n) (dn_node n) (dp_node_by_portfolio p1)\<rparr> else p1)"
    by (auto simp: set_portfolio_def dag_get_node_def res_simps Let_def split: option.splits if_splits)
  have ok: "node_ok (dp_nodes p) i n" by (rule dag_wf_node [OF wf n])
  have "dag_wf (put_node i (n\<lparr>dn_portfolio := pid, dn_flags := dn_flags n \<union> {NF_INPUT, NF_EXPOSURE}\<rparr>) p)"
    by (rule put_node_wf [OF wf n]) (use ok in \<open>simp add: node_ok_def\<close>)
  then show ?thesis by (simp add: r Let_def wf_tables(1))
qed

lemma set_ref_wf:
  assumes "set_ref L i name flags p = Inr p'" and wf: "dag_wf p"
  shows "dag_wf p'"
proof -
  obtain r new p1 where e: "emplace_node L 0 name p = (r, new, p1)" by (cases "emplace_node L 0 name p")
  define r1 where "r1 = (case node_flag_cast (to_upper flags) of None \<Rightarrow> r | Some f \<Rightarrow> r\<lparr>dn_flags := insert f (dn_flags r)\<rparr>)"
  define p2 where "p2 = put_node (dn_node r) r1 p1"
  from emplace_node_wf [OF e wf] have p1: "dag_wf p1" and r: "hfind (dp_nodes p1) (dn_node r) = Some r" by auto
  have "node_ok (dp_nodes p1) (dn_node r) r1"
    using dag_wf_node [OF p1 r] by (simp add: r1_def node_ok_def split: option.split)
  from put_node_wf [OF p1 r this] have p2: "dag_wf p2" by (simp add: p2_def)
  from assms(1) obtain n n1 where n: "hfind (dp_nodes p2) i = Some n" "add_ref (dn_node r1) (dn_flags r1) n = Inr n1"
    and p': "p' = put_node i n1 p2"
    by (auto simp: set_ref_def e dag_get_node_def res_simps Let_def r1_def [symmetric] p2_def [symmetric] split: option.splits)
  have "dn_node r1 = dn_node r" by (simp add: r1_def split: option.split)
  then have "hfind (dp_nodes p2) (dn_node r1) \<noteq> None" by (simp add: p2_def nodes_put_node [OF r])
  from add_ref_ok [OF n(2) dag_wf_node [OF p2 n(1)] this] show ?thesis
    unfolding p' by (rule put_node_wf [OF p2 n(1)])
qed

lemma dag_parameter_eq:
  assumes "emplace_node L 0 (par_exchange par @ '':'' @ par_symbol par) p = (n, new, p1)"
    and "split_suffix (par_label par) (CHR '':'') = (label, suffix)"
    and "split_prefix (par_value par) (CHR '':'') = (exch, symbol)"
  shows "dag_parameter L F par (p, c) =
    (if label = ''mdata'' then
       set_mdata L (dn_node n) \<lparr>m_market = 0, m_symbol = symbol, m_exchange = exch, m_account = [], m_strategy_id = 0\<rparr> (p1, c)
     else if label = ''portfolio_name'' then set_portfolio L (dn_node n) 0 (par_value par) (p1, c)
     else if label = ''ref'' then rbind (set_ref L (dn_node n) (par_value par) suffix p1) (\<lambda>p2. Inr (p2, c))
     else if label = ''pipeline'' then
       rbind (set_pipeline F (split_sep (par_value par) (CHR '' '')) n) (\<lambda>n1. Inr (put_node (dn_node n) n1 p1, c))
     else rbind (node_configure [par] n) (\<lambda>(_, n1). Inr (put_node (dn_node n) n1 p1, c)))"
  by (simp only: dag_parameter_def prod.case Let_def assms)

lemma dag_parameter_wf:
  assumes "dag_parameter L F par (p, c) = Inr (p', c')" and wf: "dag_wf p"
  shows "dag_wf p' \<and> c_gateways c' = c_gateways c"
proof -
  let ?name = "par_exchange par @ '':'' @ par_symbol par"
  obtain n new p1 where e: "emplace_node L 0 ?name p = (n, new, p1)" by (cases "emplace_node L 0 ?name p")
  obtain label suffix where l: "split_suffix (par_label par) (CHR '':'') = (label, suffix)" by fastforce
  obtain exch symbol where v: "split_prefix (par_value par) (CHR '':'') = (exch, symbol)" by fastforce
  from emplace_node_wf [OF e wf] have p1: "dag_wf p1" and n: "hfind (dp_nodes p1) (dn_node n) = Some n" by auto
  note ok = dag_wf_node [OF p1 n]
  show ?thesis
    using assms(1) unfolding dag_parameter_eq [OF e l v]
    by (auto simp: res_simps split: if_splits dest: set_mdata_wf [OF _ p1] set_portfolio_wf [OF _ p1] set_ref_wf [OF _ p1]
        intro!: put_node_wf [OF p1 n] elim: set_pipeline_ok [OF _ ok] node_configure_ok [OF _ ok])
qed

lemma dag_on_parameters_wf:
  assumes "dag_on_parameters L F ps (p, c) = Inr (p', c')" and "dag_wf p"
  shows "dag_wf p' \<and> c_gateways c' = c_gateways c"
  using rfold_invariant [where I = "\<lambda>(q, d). dag_wf q \<and> c_gateways d = c_gateways c", OF assms(1) [unfolded dag_on_parameters_def]]
    assms(2) dag_parameter_wf by fastforce

lemma dag_on_quotes_wf:
  assumes "dag_on_quotes pw D u (p, w) = Inr (p', w')" and wf: "dag_wf p"
  shows "dag_wf p' \<and> w' = w"
proof (cases "get_node_by_market (qs_market u) p")
  case None
  with assms show ?thesis by (simp add: dag_on_quotes_def)
next
  case (Some x)
  then obtain i n where x: "x = (i, n)" "hfind (dp_nodes p) i = Some n"
    by (auto simp: get_node_by_market_def dag_get_node_def split: option.splits)
  have "dag_wf (put_node i (snd (node_quotes u n)) p)"
    by (rule put_node_wf [OF wf x(2) node_quotes_ok [OF dag_wf_node [OF wf x(2)]]])
  moreover have "dp_paths p = []" using wf by (simp add: dag_wf_def)
  ultimately show ?thesis using assms(1) Some x by (simp add: dag_on_quotes_def Let_def get_path_def hd.find_empty)
qed

lemma dag_handle_keeps:
  assumes "dag_handle L F pw D h (p, c, s) = Inr (p', c', s')" and "dag_wf p"
  shows "dag_wf p' \<and> c_gateways c' = c_gateways c \<and> s' = s"
  using assms dag_on_quotes_wf [of pw D _ p "(c, s)" p' "(c', s')"] dag_on_parameters_wf [of L F _ p c p' c']
  by (cases h) (auto simp: res_simps)

interpretation dag_contract: handler_contract X "dag_handle (x_layout X) F pw (on_target_quotes X)" dag_wf
  for X :: "'g ext" and F pw
proof
  fix h p and c c' :: "('g, dag_pricer) app" and s p' s'
  assume "dag_handle (x_layout X) F pw (on_target_quotes X) h (p, c, s) = Inr (p', c', s')" "dag_wf p" "oms_wf s"
    "safe X (c_gateways c) s"
  with dag_handle_keeps [OF this(1,2)] show "dag_wf p' \<and> oms_wf s' \<and> safe X (c_gateways c') s'" by simp
qed

section \<open>The program with this pricer\<close>

lemma new_dag_pricer_wf: "dag_wf new_dag_pricer"
  by (simp add: dag_wf_def new_dag_pricer_def hd.wf_empty hd.find_empty)

lemma dag_on_quotes_paths:
  "dp_paths p = [] \<Longrightarrow> dag_on_quotes pw D u (p, w) = dag_on_quotes pw D' u (p, w)"
  by (auto simp: dag_on_quotes_def Let_def get_path_def hd.find_empty split: option.splits)

text \<open>
  C37: the pricer never runs its dispatcher: paths are rebuilt by no message, so the quotes of an input
  node reach no other node.  What a message does is the same for every dispatcher and leaves what lies
  behind it as it was, and the nodes stay well-formed: every reference leads to a node.
\<close>

theorem dag_pricer_is_silent:
  assumes "dag_handle L F pw D h (p, c, s) = Inr (p', c', s')" and "dag_wf p"
  shows "s' = s \<and> dag_wf p' \<and> dag_handle L F pw D' h (p, c, s) = Inr (p', c', s')"
proof -
  have "dag_handle L F pw D' h (p, c, s) = dag_handle L F pw D h (p, c, s)"
    using assms(2) dag_on_quotes_paths [of p pw D' _ "(c, s)" D] by (cases h) (simp_all add: dag_wf_def)
  with assms dag_handle_keeps [OF assms] show ?thesis by simp
qed


section \<open>Parameters\<close>

text \<open>Room for \<open>k\<close> more nodes, and no name entered.\<close>

definition node_room :: "nat \<Rightarrow> dag_pricer \<Rightarrow> bool" where
  "node_room k p \<longleftrightarrow>
     hwf (dp_nodes p) \<and> dp_node_by_name p = [] \<and> (\<forall>i. hfind (dp_nodes p) i \<noteq> None \<longrightarrow> unat i \<le> unat (dp_last_node_id p)) \<and>
     unat (dp_last_node_id p) + k < 2 ^ 32"

definition extends :: "dag_pricer \<Rightarrow> dag_pricer \<Rightarrow> bool" where
  "extends p q \<longleftrightarrow> (\<forall>i n. hfind (dp_nodes p) i = Some n \<longrightarrow> hfind (dp_nodes q) i = Some n)"

lemma extends_trans: "extends p q \<Longrightarrow> extends q r \<Longrightarrow> extends p r"
  by (simp add: extends_def)

lemma node_room_less: "node_room k p \<Longrightarrow> j \<le> k \<Longrightarrow> node_room j p"
  by (simp add: node_room_def)

lemma put_node_fresh:
  assumes "extends p q" "hfind (dp_nodes p) i = None" "node_room k q" "hfind (dp_nodes q) i \<noteq> None"
  shows "extends p (put_node i n q) \<and> node_room k (put_node i n q) \<and>
    (\<forall>j. hfind (dp_nodes (put_node i n q)) j \<noteq> None \<longleftrightarrow> hfind (dp_nodes q) j \<noteq> None)"
proof -
  from assms(4) obtain m where "hfind (dp_nodes q) i = Some m" by blast
  note f = nodes_put_node [OF this]
  have "hwf (dp_nodes (put_node i n q))" using assms(3) by (simp add: put_node_def node_room_def)
  then show ?thesis using assms by (auto simp: extends_def node_room_def f)
qed

lemma emplace_node_fresh:
  assumes "emplace_node L 0 name p = (n, new, p1)" and "node_room (Suc k) p"
  shows "extends p p1 \<and> node_room k p1 \<and> hfind (dp_nodes p) (dn_node n) = None \<and> hfind (dp_nodes p1) (dn_node n) = Some n"
proof -
  let ?i = "dp_last_node_id p + 1"
  let ?n = "new_node\<lparr>dn_node := ?i, dn_name := name\<rparr>"
  have wf: "hwf (dp_nodes p)" and names: "dp_node_by_name p = []"
    and room: "unat (dp_last_node_id p) + Suc k < 2 ^ 32"
    and le: "\<And>j. hfind (dp_nodes p) j \<noteq> None \<Longrightarrow> unat j \<le> unat (dp_last_node_id p)"
    using assms(2) by (auto simp: node_room_def)
  have i: "unat ?i = Suc (unat (dp_last_node_id p))"
    using room by (simp add: unat_word_ariths)
  then have none: "hfind (dp_nodes p) ?i = None" using le [of ?i] by (cases "hfind (dp_nodes p) ?i") auto
  have "hget_or (dp_node_by_name p) name 0 = 0" by (simp add: names hget_or_def hd.find_empty)
  with assms(1) none have r: "n = ?n" "p1 = p\<lparr>dp_last_node_id := ?i, dp_nodes := hput L ?i ?n (dp_nodes p)\<rparr>"
    by (auto simp: emplace_node_def Let_def)
  have f: "hfind (dp_nodes p1) = (hfind (dp_nodes p))(?i \<mapsto> ?n)" by (simp add: r hd.find_put [OF wf])
  have "hwf (dp_nodes p1)" by (simp add: r hd.wf_put [OF wf])
  moreover have "unat j \<le> unat ?i" if "hfind (dp_nodes p1) j \<noteq> None" for j
    using that le [of j] i unfolding f by (auto split: if_splits)
  moreover have "n = ?n" "dn_node n = ?i" using r by simp_all
  ultimately show ?thesis
    using none room i names by (auto simp: extends_def node_room_def f) (simp_all add: r)
qed

text \<open>The same nodes, up to one; the tables by market and portfolio may differ.\<close>

definition puts_node :: "ident \<Rightarrow> dag_pricer \<Rightarrow> dag_pricer \<Rightarrow> bool" where
  "puts_node i p q \<longleftrightarrow>
     (\<exists>n. dp_nodes q = dp_nodes (put_node i n p)) \<and> dp_node_by_name q = dp_node_by_name p \<and> dp_last_node_id q = dp_last_node_id p"

lemma set_mdata_puts: "set_mdata L i key (p, c) = Inr (p', c') \<Longrightarrow> puts_node i p p'"
  by (auto simp: puts_node_def set_mdata_def res_simps Let_def split: option.splits if_splits)

lemma set_portfolio_puts: "set_portfolio L i pid name (p, c) = Inr (p', c') \<Longrightarrow> puts_node i p p'"
  by (auto simp: puts_node_def set_portfolio_def res_simps Let_def split: option.splits if_splits)

lemma put_node_puts: "puts_node i p (put_node i n p)"
  by (auto simp: puts_node_def)

lemma puts_node_fresh:
  assumes "puts_node i q r" and "extends p q" "hfind (dp_nodes p) i = None" "node_room k q" "hfind (dp_nodes q) i \<noteq> None"
  shows "extends p r \<and> node_room k r"
proof -
  from assms(1) obtain n where "dp_nodes r = dp_nodes (put_node i n q)" by (auto simp: puts_node_def)
  with assms(1) put_node_fresh [OF assms(2-5), of n] show ?thesis
    by (simp add: extends_def node_room_def puts_node_def)
qed

lemma dag_parameter_fresh:
  assumes run: "dag_parameter L F par (p, c) = Inr (p', c')" and room: "node_room (k + 2) p"
  shows "extends p p' \<and> node_room k p'"
proof -
  let ?name = "par_exchange par @ '':'' @ par_symbol par"
  obtain n new p1 where e: "emplace_node L 0 ?name p = (n, new, p1)" by (cases "emplace_node L 0 ?name p")
  obtain label suffix where l: "split_suffix (par_label par) (CHR '':'') = (label, suffix)" by fastforce
  obtain exch symbol where v: "split_prefix (par_value par) (CHR '':'') = (exch, symbol)" by fastforce
  let ?j = "dn_node n"
  have "node_room (Suc (Suc k)) p" using room by simp
  from emplace_node_fresh [OF e this] have x: "extends p p1" and room1: "node_room (Suc k) p1"
    and none: "hfind (dp_nodes p) ?j = None" and n: "hfind (dp_nodes p1) ?j = Some n" by auto
  have put: "extends p q \<and> node_room k q" if "puts_node ?j p1 q" for q
    using puts_node_fresh [OF that x none node_room_less [OF room1, of k]] n by simp
  show ?thesis
  proof (cases "label = ''ref''")
    case False
    with run have "puts_node ?j p1 p'"
      unfolding dag_parameter_eq [OF e l v]
      by (auto simp: res_simps intro: put_node_puts dest: set_mdata_puts set_portfolio_puts split: if_splits)
    with put show ?thesis by blast
  next
    case True
    obtain r newr p2 where e2: "emplace_node L 0 (par_value par) p1 = (r, newr, p2)"
      by (cases "emplace_node L 0 (par_value par) p1")
    from emplace_node_fresh [OF e2 room1] have x2: "extends p1 p2" and room2: "node_room k p2"
      and none2: "hfind (dp_nodes p1) (dn_node r) = None" and r: "hfind (dp_nodes p2) (dn_node r) = Some r" by auto
    have none3: "hfind (dp_nodes p) (dn_node r) = None"
      using none2 x by (cases "hfind (dp_nodes p) (dn_node r)") (auto simp: extends_def)
    from True run obtain r1 n2 where p': "p' = put_node ?j n2 (put_node (dn_node r) r1 p2)"
      unfolding dag_parameter_eq [OF e l v]
      by (auto simp: set_ref_def e2 res_simps Let_def split: option.splits)
    have "hfind (dp_nodes p2) ?j \<noteq> None" using x2 n by (auto simp: extends_def)
    with put_node_fresh [OF extends_trans [OF x x2] none3 room2, of r1] r
    have "extends p (put_node (dn_node r) r1 p2)" "node_room k (put_node (dn_node r) r1 p2)"
      "hfind (dp_nodes (put_node (dn_node r) r1 p2)) ?j \<noteq> None" by simp_all
    from put_node_fresh [OF this(1) none this(2,3)] show ?thesis unfolding p' by blast
  qed
qed

text \<open>
  C38: a parameter never changes a node that is there: the name of a node is never entered in the table
  of names, so every parameter makes a node of its own.  A node's market, references and pipeline,
  given by different parameters, end up in different nodes.
\<close>

theorem dag_parameters_reach_no_node:
  assumes "dag_on_parameters L F ps (p, c) = Inr (p', c')"
    and "hwf (dp_nodes p)" "dp_node_by_name p = []"
    and "\<And>i. hfind (dp_nodes p) i \<noteq> None \<Longrightarrow> unat i \<le> unat (dp_last_node_id p)"
    and "unat (dp_last_node_id p) + 2 * length ps < 2 ^ 32"
  shows "\<forall>i n. hfind (dp_nodes p) i = Some n \<longrightarrow> hfind (dp_nodes p') i = Some n"
proof -
  have "node_room (2 * length ps) p" using assms(2-5) by (simp add: node_room_def)
  with assms(1) have "extends p p'"
    unfolding dag_on_parameters_def
  proof (induction ps arbitrary: p c)
    case Nil
    then show ?case by (simp add: extends_def)
  next
    case (Cons par ps)
    from Cons.prems(1) obtain p1 c1 where 1: "dag_parameter L F par (p, c) = Inr (p1, c1)"
      and 2: "rfold (dag_parameter L F) ps (p1, c1) = Inr (p', c')"
      by (auto simp: res_simps)
    have "node_room (2 * length ps + 2) p" using Cons.prems(2) by (simp add: add.commute)
    from dag_parameter_fresh [OF 1 this] Cons.IH [OF 2] show ?case by (blast intro: extends_trans)
  qed
  then show ?thesis by (simp add: extends_def)
qed


section \<open>Sums\<close>

lemma times_NaN [simp]: "x * NaN = (NaN :: double)" and plus_NaN [simp]: "x + NaN = (NaN :: double)"
  by (cases x; simp)+

text \<open>
  A sum over one reference or more has no price, whatever the quotes of the nodes it adds: the
  weight of a reference is never set, and an unset weight compares as less than zero.
\<close>

theorem sum_gives_no_price:
  assumes "dag_wf p" "hfind (dp_nodes p) i = Some n" "dn_refs n \<noteq> []"
  shows "\<exists>q1. compute_sum (dp_nodes p) n q = Inr (True, q1) \<and> isnan (buy_price q1) \<and> isnan (sell_price q1)"
proof -
  have w: "\<not> dgt NaN (Fin 0)" "dlt NaN (Fin 0)" by (simp_all add: dgt_def dlt_def double_compare_def double_empty_def)
  have "\<exists>q1. rfold (\<lambda>r s. case hfind (dp_nodes p) (nr_node r) of
        None \<Rightarrow> Inl (Runtime_Error ''UNEXPECTED'') | Some m \<Rightarrow> Inr (sum_ref r m s)) rs q0 = Inr q1 \<and>
      (rs \<noteq> [] \<or> buy_price q0 = NaN \<and> sell_price q0 = NaN \<longrightarrow> buy_price q1 = NaN \<and> sell_price q1 = NaN)"
    if "set rs \<subseteq> set (dn_refs n)" for rs q0
    using that
  proof (induction rs arbitrary: q0)
    case Nil
    then show ?case by simp
  next
    case (Cons r rs)
    from dag_wf_node [OF assms(1,2)] Cons.prems obtain m where m: "hfind (dp_nodes p) (nr_node r) = Some m" "nr_weight r = NaN"
      by (auto simp: node_ok_def)
    then have "buy_price (sum_ref r m q0) = NaN" "sell_price (sum_ref r m q0) = NaN"
      by (simp_all add: sum_ref_def Let_def w set_prices_def)
    with Cons.IH [of "sum_ref r m q0"] Cons.prems m show ?case by simp
  qed
  from this [OF order.refl, of "unit_quotes (Fin 0)"] assms(3) show ?thesis
    by (auto simp: compute_sum_def context_get_refs_def)
qed


section \<open>Paths\<close>

lemma set_multimap_emplace [simp]: "set (multimap_emplace e es) = insert e (set es)"
proof -
  have "set es = set (takeWhile (\<lambda>f. fst f \<le> fst e) es) \<union> set (dropWhile (\<lambda>f. fst f \<le> fst e) es)"
    by (metis set_append takeWhile_dropWhile_id)
  then show ?thesis by (auto simp: multimap_emplace_def)
qed

lemma set_dag_edges: "set (dag_edges p) = (\<Union>(i, n)\<in>set (dp_nodes p). (\<lambda>r. (nr_node r, dn_node n)) ` set (dn_refs n))"
proof -
  have 1: "set (fold (\<lambda>r. multimap_emplace (nr_node r, dn_node n)) rs es) = set es \<union> (\<lambda>r. (nr_node r, dn_node n)) ` set rs"
    for rs es and n :: dag_node
    by (induction rs arbitrary: es) auto
  have "set (fold (\<lambda>(_, n). fold (\<lambda>r. multimap_emplace (nr_node r, dn_node n)) (dn_refs n)) ns es) =
      set es \<union> (\<Union>(i, n)\<in>set ns. (\<lambda>r. (nr_node r, dn_node n)) ` set (dn_refs n))" for es and ns :: nodes
    by (induction ns arbitrary: es) (auto simp: 1)
  then show ?thesis by (simp add: dag_edges_def)
qed

lemma build_paths_ok:
  assumes "hwf paths"
  shows "\<exists>paths'. build_paths L es is paths = Some paths' \<and>
    (\<forall>i. \<not> cycle_from (set es) i \<longrightarrow> i \<in> set is \<or> (\<exists>q. hfind paths i = Some q \<and> path_ok (set es) i q) \<longrightarrow>
       (\<exists>q. hfind paths' i = Some q \<and> path_ok (set es) i q))"
  using assms
proof (induction "is" arbitrary: paths)
  case Nil
  then show ?case by simp
next
  case (Cons i "is")
  obtain code path where b: "build_path L es i (hget_or paths i []) = Some (code, path)"
    and ok: "\<not> cycle_from (set es) i \<longrightarrow> path_ok (set es) i path"
    using build_path_cases_ok [of L es i "hget_or paths i []"] by blast
  have f: "hfind (hput L i path paths) = (hfind paths)(i \<mapsto> path)" by (rule hd.find_put [OF Cons.prems])
  from Cons.IH [OF hd.wf_put [OF Cons.prems], of L i path] b obtain paths' where
    p: "build_paths L es (i # is) paths = Some paths'"
    and q: "\<forall>j. \<not> cycle_from (set es) j \<longrightarrow> j \<in> set is \<or> (\<exists>q. hfind (hput L i path paths) j = Some q \<and> path_ok (set es) j q) \<longrightarrow>
       (\<exists>q. hfind paths' j = Some q \<and> path_ok (set es) j q)" by auto
  show ?case using p q ok unfolding f by (metis fun_upd_apply set_ConsD)
qed

text \<open>
  C22: rebuilding the paths ends for every graph of nodes.  The path of an input node from which no
  cycle can be reached lists every node that depends on it, each once, after the nodes it refers to.
\<close>

theorem rebuild_paths_ordered:
  assumes "hwf (dp_paths p)" "hwf (dp_node_by_market p)" "hwf (dp_nodes p)"
  shows "\<exists>p'. rebuild_paths L p = Some p' \<and>
    (\<forall>m i. hfind (dp_node_by_market p) m = Some i \<longrightarrow> \<not> cycle_from (set (dag_edges p)) i \<longrightarrow>
       (\<exists>path. hfind (dp_paths p') i = Some path \<and> distinct path \<and>
          set path = {j. (i, j) \<in> (set (dag_edges p))\<^sup>*} \<and>
          (\<forall>a b n r. a < length path \<longrightarrow> b < length path \<longrightarrow> hfind (dp_nodes p) (path ! b) = Some n \<longrightarrow>
             dn_node n = path ! b \<longrightarrow> r \<in> set (dn_refs n) \<longrightarrow> nr_node r = path ! a \<longrightarrow> a < b)))"
proof -
  let ?E = "set (dag_edges p)"
  obtain paths where b: "build_paths L (dag_edges p) (map snd (dp_node_by_market p)) (dp_paths p) = Some paths"
    and ok: "\<forall>i. \<not> cycle_from ?E i \<longrightarrow> i \<in> set (map snd (dp_node_by_market p)) \<or> (\<exists>q. hfind (dp_paths p) i = Some q \<and> path_ok ?E i q) \<longrightarrow>
       (\<exists>q. hfind paths i = Some q \<and> path_ok ?E i q)"
    using build_paths_ok [OF assms(1)] by metis
  have "\<exists>path. hfind paths i = Some path \<and> distinct path \<and> set path = {j. (i, j) \<in> ?E\<^sup>*} \<and>
      (\<forall>a b n r. a < length path \<longrightarrow> b < length path \<longrightarrow> hfind (dp_nodes p) (path ! b) = Some n \<longrightarrow>
         dn_node n = path ! b \<longrightarrow> r \<in> set (dn_refs n) \<longrightarrow> nr_node r = path ! a \<longrightarrow> a < b)"
    if m: "hfind (dp_node_by_market p) m = Some i" "\<not> cycle_from ?E i" for m i
  proof -
    have "i \<in> set (map snd (dp_node_by_market p))" using m(1) by (force simp: hfind_def dest: map_of_SomeD)
    with ok m(2) obtain path where path: "hfind paths i = Some path" "path_ok ?E i path" by blast
    have "(path ! a, path ! b) \<in> ?E"
      if "hfind (dp_nodes p) (path ! b) = Some n" "dn_node n = path ! b" "r \<in> set (dn_refs n)" "nr_node r = path ! a" for a b n r
    proof -
      have "(path ! b, n) \<in> set (dp_nodes p)" using that(1) by (simp add: hfind_def map_of_SomeD)
      with that(2-4) show ?thesis unfolding set_dag_edges by force
    qed
    with path show ?thesis unfolding path_ok_def by blast
  qed
  then show ?thesis by (auto simp: rebuild_paths_def b)
qed


section \<open>Examples\<close>

text \<open>Node 1 has the quotes of market 7, node 2 refers to node 1.\<close>

definition graph_node :: "ident \<Rightarrow> node_ref list \<Rightarrow> dag_node" where
  "graph_node i refs = new_node\<lparr>dn_node := i, dn_name := ''e:s'', dn_refs := refs\<rparr>"

definition demo_dag :: dag_pricer where
  "demo_dag =
     \<lparr>dp_last_node_id = 2,
      dp_nodes = [(1, graph_node 1 []), (2, graph_node 2 [\<lparr>nr_node = 1, nr_weight = NaN, nr_denominator = Fin 1, nr_flags = {}\<rparr>])],
      dp_node_by_portfolio = [], dp_node_by_market = [(7, 1)], dp_node_by_name = [], dp_paths = []\<rparr>"

lemma demo_dag_wf: "dag_wf demo_dag"
  by (simp add: dag_wf_def demo_dag_def hash_eval node_ok_def graph_node_def new_node_def MAX_REFS_SIZE_def MAX_PIPELINE_SIZE_def)

definition demo_dag_quotes :: quotes where
  "demo_dag_quotes = to_quotes no_best_quotes 7"

theorem dag_pricer_is_silent_witness:
  "\<exists>p'. dag_handle (\<lambda>n. [0..<n]) [] (+) (\<lambda>q w. Inl Assert_Failed) (H_Quotes demo_dag_quotes) (demo_dag, demo_core, ()) =
     Inr (p', demo_core, ()) \<and> dag_wf p'"
proof -
  obtain p' where r: "dag_handle (\<lambda>n. [0..<n]) [] (+) (\<lambda>q. Inr) (H_Quotes demo_dag_quotes) (demo_dag, demo_core, ()) =
      Inr (p', demo_core, ())"
    by (simp add: dag_on_quotes_def demo_dag_def get_node_by_market_def dag_get_node_def demo_dag_quotes_def to_quotes_def
        hash_eval get_path_def put_node_def Let_def)
  from dag_pricer_is_silent [OF r demo_dag_wf] show ?thesis by blast
qed

definition pipeline_parameter :: parameter where
  "pipeline_parameter =
     \<lparr>par_label = ''pipeline'', par_account = [], par_exchange = ''e'', par_symbol = ''s'', par_strategy_id = 0, par_value = ''sum''\<rparr>"

theorem dag_parameters_reach_no_node_witness:
  "\<exists>p' c'. dag_on_parameters (\<lambda>n. [0..<n]) (initialize_all (\<lambda>n. [0..<n]) []) [pipeline_parameter] (demo_dag, demo_core) = Inr (p', c') \<and>
     hfind (dp_nodes p') 1 = Some (graph_node 1 [])"
proof -
  obtain p' c' where r: "dag_on_parameters (\<lambda>n. [0..<n]) (initialize_all (\<lambda>n. [0..<n]) []) [pipeline_parameter] (demo_dag, demo_core) = Inr (p', c')"
    by (simp add: dag_on_parameters_def dag_parameter_def demo_dag_def pipeline_parameter_def emplace_node_def initialize_all_def
        factory_initialize_def factory_emplace_def factory_get_def set_pipeline_def split_sep_def split_suffix_def split_at_sep_def
        hash_eval Let_def MAX_PIPELINE_SIZE_def cong: eval_congs)
  have "hwf (dp_nodes demo_dag)" "dp_node_by_name demo_dag = []" "unat (dp_last_node_id demo_dag) + 2 * length [pipeline_parameter] < 2 ^ 32"
    "\<And>i. hfind (dp_nodes demo_dag) i \<noteq> None \<Longrightarrow> unat i \<le> unat (dp_last_node_id demo_dag)"
    by (auto simp: demo_dag_def hash_eval split: if_splits)
  from dag_parameters_reach_no_node [OF r this(1,2,4,3)] r show ?thesis by (auto simp: demo_dag_def hash_eval)
qed

theorem sum_gives_no_price_witness:
  "\<exists>q1. compute_sum (dp_nodes demo_dag) (graph_node 2 [\<lparr>nr_node = 1, nr_weight = NaN, nr_denominator = Fin 1, nr_flags = {}\<rparr>])
     no_best_quotes = Inr (True, q1) \<and> isnan (buy_price q1)"
proof -
  let ?n = "graph_node 2 [\<lparr>nr_node = 1, nr_weight = NaN, nr_denominator = Fin 1, nr_flags = {}\<rparr>]"
  have "hfind (dp_nodes demo_dag) 2 = Some ?n" "dn_refs ?n \<noteq> []" by (simp_all add: demo_dag_def hash_eval graph_node_def)
  from sum_gives_no_price [OF demo_dag_wf this] show ?thesis by blast
qed

theorem rebuild_paths_ordered_witness:
  "\<exists>p' path. rebuild_paths (\<lambda>n. [0..<n]) demo_dag = Some p' \<and> hfind (dp_paths p') 1 = Some path \<and> set path = {1, 2}"
proof -
  have E: "set (dag_edges demo_dag) = {(1, 2)}" by (auto simp: set_dag_edges demo_dag_def graph_node_def new_node_def)
  have r: "(1, v) \<in> {(1 :: ident, 2)}\<^sup>* \<longleftrightarrow> v \<in> {1, 2}" for v
  proof
    show "(1, v) \<in> {(1 :: ident, 2)}\<^sup>* \<Longrightarrow> v \<in> {1, 2}" by (induction rule: rtrancl_induct) auto
  qed auto
  have t: "(u, v) \<in> {(1 :: ident, 2)}\<^sup>+ \<Longrightarrow> u = 1 \<and> v = 2" for u v by (induction rule: trancl_induct) auto
  have c: "\<not> cycle_from (set (dag_edges demo_dag)) 1" unfolding cycle_from_def E using t by force
  have h: "hwf (dp_paths demo_dag)" "hwf (dp_node_by_market demo_dag)" "hwf (dp_nodes demo_dag)" "hfind (dp_node_by_market demo_dag) 7 = Some 1"
    by (simp_all add: demo_dag_def hash_eval)
  obtain p' where p: "rebuild_paths (\<lambda>n. [0..<n]) demo_dag = Some p'"
    "\<exists>path. hfind (dp_paths p') 1 = Some path \<and> set path = {j. (1, j) \<in> (set (dag_edges demo_dag))\<^sup>*}"
    using rebuild_paths_ordered [OF h(1-3)] h(4) c by metis
  then show ?thesis by (auto simp: E r)
qed

end
