(* ===== verification/Configure_Results.thy ===== *)
theory Configure_Results
  imports Configure Core_Results Dag_Results
begin

text \<open>
  What the configuration gives: the parameters a node of the file stands for, the table of markets,
  and a program whose invariant holds from its constructor on.
\<close>

section \<open>The program from its configuration on\<close>

text \<open>
  The states of the program: constructed from a configuration on an empty order manager and a pricer
  that satisfies \<open>I\<close>, then events of the client library.
\<close>

inductive program_reachable ::
  "'g ext \<Rightarrow> 'n tm \<Rightarrow> bool \<Rightarrow> ('p, ('g, 'p) strategy_state) pricer \<Rightarrow> ('p \<Rightarrow> bool) \<Rightarrow> ('g, 'p) strategy_state \<Rightarrow> bool"
  for X T flag P I where
  construct: "I (a_pricer c) \<Longrightarrow> strategy_construct X T flag P doc (c, initial_oms []) = Inr r \<Longrightarrow> program_reachable X T flag P I r"
| event: "program_reachable X T flag P I r \<Longrightarrow> client_event_ok X ev r \<Longrightarrow> strategy_event X flag P ev r = Inr r' \<Longrightarrow>
    program_reachable X T flag P I r'"

lemma oms_configure_result:
  assumes "oms_configure L T doc s = Inr s'"
  shows "\<exists>gws t. s' = s\<lparr>trade_gateway_by_account_by_exchange := gws, reject_timeout := t\<rparr>"
proof -
  from assms obtain s1 ms where 1: "get_nodes T doc ''account'' (\<lambda>node s.
              rbind (get_string T node ''account'') (\<lambda>account.
              rbind (get_string T node ''trade_gateway'') (\<lambda>trade_gateway.
              rbind (get_string T node ''exchange'') (\<lambda>exch.
                Inr (s\<lparr>trade_gateway_by_account_by_exchange :=
                         hput2 L (exch, account) trade_gateway (trade_gateway_by_account_by_exchange s)\<rparr>)))))
              (oms_clear s) = Inr s1" and s': "s' = s1\<lparr>reject_timeout := ms * 1000000\<rparr>"
    by (auto simp: oms_configure_def res_simps)
  have "\<exists>gws. s1 = s\<lparr>trade_gateway_by_account_by_exchange := gws\<rparr>"
    by (rule rfold_invariant [OF 1 [unfolded get_nodes_def]]) (auto simp: oms_clear_def res_simps)
  then show ?thesis by (auto simp: s')
qed

lemma core_configure_result:
  "core_configure L T doc c = Inr c' \<Longrightarrow> \<exists>ms pm. c' = c\<lparr>c_markets := ms, c_portfolios := pm\<rparr>"
  by (auto simp: core_configure_def res_simps)

lemma configured_oms_ok:
  "oms_wf (initial_oms gws\<lparr>trade_gateway_by_account_by_exchange := gws', reject_timeout := t\<rparr>) \<and>
   safe X gs (initial_oms gws\<lparr>trade_gateway_by_account_by_exchange := gws', reject_timeout := t\<rparr>)"
proof -
  have "oms_wf (initial_oms gws\<lparr>trade_gateway_by_account_by_exchange := gws', reject_timeout := t\<rparr>) = oms_wf (initial_oms gws)"
    by (rule oms_wf_cong) simp_all
  then show ?thesis by (simp add: oms_wf_initial) (simp add: initial_oms_def safe_def ids_below_def hd.find_empty)
qed

lemma parameters_event_gateways: "gateways_event X (parameters_event ps) gws = gws"
  by (simp add: gateways_event_def parameters_event_def)

context handler_contract begin

lemma start_ok:
  assumes "strategy_start X flag P r = Inr r'" and "state_ok X I r"
  shows "state_ok X I r'"
proof -
  obtain c s where r: "r = (c, s)" by (cases r)
  let ?c = "c\<lparr>a_config := (a_config c)\<lparr>cfg_is_downloading := True\<rparr>\<rparr>"
  from assms(1) obtain c1 s1 where
    1: "strategy_event X flag P (parameters_event (cfg_parameters (a_config c))) (?c, s) = Inr (c1, s1)"
    and r': "r' = (c1\<lparr>a_config := (a_config c1)\<lparr>cfg_parameters := [], cfg_is_downloading := False\<rparr>\<rparr>, s1)"
    by (auto simp: strategy_start_def config_dispatch_def res_simps r)
  have "client_event_ok X (parameters_event (cfg_parameters (a_config c))) (?c, s)"
    using assms(2) by (simp add: client_event_ok_def parameters_event_gateways Let_def r) (simp add: parameters_event_def)
  from event_ok [OF 1 _ this] assms(2) show ?thesis by (simp add: r r')
qed

lemma construct_ok:
  assumes "strategy_construct X T flag P doc (c, initial_oms gws) = Inr r" and "I (a_pricer c)"
  shows "state_ok X I r"
proof -
  from assms(1) obtain c1 s1 where c: "core_configure (x_layout X) T doc c = Inr c1"
    and s: "oms_configure (x_layout X) T doc (initial_oms gws) = Inr s1" and r: "strategy_start X flag P (c1, s1) = Inr r"
    by (auto simp: strategy_construct_def strategy_configure_def res_simps)
  have "a_pricer c1 = a_pricer c" using core_configure_result [OF c] by auto
  moreover have "oms_wf s1 \<and> safe X (c_gateways c1) s1"
    using oms_configure_result [OF s] configured_oms_ok [where gws = gws and X = X and gs = "c_gateways c1"] by blast
  ultimately show ?thesis by (intro start_ok [OF r]) (simp add: assms(2))
qed

lemma program_ok: "program_reachable X T flag P I r \<Longrightarrow> state_ok X I r"
proof (induction rule: program_reachable.induct)
  case (construct c doc r)
  from construct_ok [OF construct.hyps(2,1)] show ?case .
next
  case (event r ev r')
  from event_ok [OF event.hyps(3) event.IH event.hyps(2)] show ?case .
qed

end

text \<open>
  What is asked of the client library: no gateway gets ready, when none was, while an identifier in
  use is still above the counter of orders, and an update of an order the index knows is for the
  book the order is in, one of an unknown order has an identifier the counter has reached, or comes
  while no gateway is ready.  The code does not check either.
\<close>

definition event_fits :: "'g ext \<Rightarrow> 'g client_event \<Rightarrow> ('g, 'p) strategy_state \<Rightarrow> bool" where
  "event_fits X ev = (\<lambda>(c, s).
     let c1 = c\<lparr>c_gateways := gateways_event X ev (c_gateways c)\<rparr> in
     (nobody_ready X (c_gateways c) \<longrightarrow> nobody_ready X (c_gateways c1) \<or> ids_below s) \<and>
     (case ev_value ev of V_Order_Update u \<Rightarrow> update_placed X u (c1, s) | _ \<Rightarrow> True))"

text \<open>The events \<open>evs\<close> are handled one after the other, each of them fits, and the last leaves \<open>r'\<close>.\<close>

fun fitting_run ::
  "'g ext \<Rightarrow> bool \<Rightarrow> ('p, ('g, 'p) strategy_state) pricer \<Rightarrow> 'g client_event list \<Rightarrow> ('g, 'p) strategy_state \<Rightarrow>
     ('g, 'p) strategy_state \<Rightarrow> bool" where
  "fitting_run X flag P [] r r' \<longleftrightarrow> r' = r"
| "fitting_run X flag P (ev # evs) r r' \<longleftrightarrow> event_fits X ev r \<and>
     (case strategy_event X flag P ev r of Inl _ \<Rightarrow> False | Inr r1 \<Rightarrow> fitting_run X flag P evs r1 r')"

lemma event_fits_ok:
  assumes "event_fits X ev r" "state_ok X I r"
  shows "client_event_ok X ev r"
  using assms by (cases r) (auto simp: event_fits_def client_event_ok_def state_ok_def safe_def Let_def)

lemma fitting_run_reachable:
  assumes "fitting_run X flag P evs r r'" "program_reachable X T flag P I r"
    and ok: "\<And>r. program_reachable X T flag P I r \<Longrightarrow> state_ok X I r"
  shows "program_reachable X T flag P I r'"
  using assms(1,2)
proof (induction evs arbitrary: r)
  case (Cons ev evs)
  from Cons.prems(1) obtain r1 where "event_fits X ev r" "strategy_event X flag P ev r = Inr r1" "fitting_run X flag P evs r1 r'"
    by (auto split: sum.splits)
  with Cons.IH Cons.prems(2) program_reachable.event event_fits_ok [OF _ ok] show ?case by blast
qed simp

text \<open>
  C4: the program is constructed from a configuration on an empty order manager with well-formed
  strategies and handles events, every one of which fits: it makes no gateway ready, when none was,
  while an identifier in use is above the counter of orders, and updates of orders are for the book
  the order is in, or of an order whose identifier the counter has reached (or while no gateway is
  ready).  Then in the state it reaches the strategies are well-formed, the index of live orders
  agrees with the books, and no identifier in use is above the counter unless no gateway takes
  orders: what the events establish when a gateway gets ready, the program keeps through everything
  it does and creates itself.
\<close>

theorem configured_program_invariant:
  assumes "strategy_construct X T flag (lqs_handle (x_layout X) (on_target_quotes X)) doc (c0, initial_oms []) = Inr r"
    and "pricer_wf (a_pricer c0)"
    and "fitting_run X flag (lqs_handle (x_layout X) (on_target_quotes X)) evs r (c, s)"
  shows "pricer_wf (a_pricer c) \<and> oms_wf s \<and> (ids_below s \<or> nobody_ready X (c_gateways c))"
proof -
  let ?P = "lqs_handle (x_layout X) (on_target_quotes X)"
  have "program_reachable X T flag ?P pricer_wf r" by (rule program_reachable.construct [where I = pricer_wf, OF assms(2,1)])
  from fitting_run_reachable [OF assms(3) this lqs_contract.program_ok]
  have "program_reachable X T flag ?P pricer_wf (c, s)" .
  from lqs_contract.program_ok [OF this] show ?thesis by (simp add: safe_def)
qed

text \<open>
  The same holds for the program built with the pricer of \<open>dag\<close>: in every state its nodes are
  well-formed and the order manager's index and counter are in order.
\<close>

theorem dag_program_invariant:
  assumes "program_reachable X T flag (dag_handle (x_layout X) F pw (on_target_quotes X)) dag_wf (c, s)"
  shows "dag_wf (a_pricer c) \<and> oms_wf s \<and> safe X (c_gateways c) s"
  using dag_contract.program_ok [OF assms] by simp

section \<open>Parameters\<close>

fun rmap :: "('x \<Rightarrow> 'y res) \<Rightarrow> 'x list \<Rightarrow> 'y list res" where
  "rmap f [] = Inr []"
| "rmap f (x # xs) = rbind (f x) (\<lambda>y. rbind (rmap f xs) (\<lambda>ys. Inr (y # ys)))"

text \<open>A shorter list goes on with its last element.\<close>

definition broadcast :: "nat \<Rightarrow> 'v list \<Rightarrow> 'v list" where
  "broadcast n vs = (if vs = [] then [] else map (\<lambda>i. vs ! min i (length vs - 1)) [0..<n])"

text \<open>What two entries of a node stand for: the pairs of keys and values, each read once.\<close>

definition paired :: "'n tm \<Rightarrow> ('n \<Rightarrow> 'v res) \<Rightarrow> 'n \<Rightarrow> string \<Rightarrow> string \<Rightarrow> (string \<times> 'v) list res" where
  "paired T read node key value =
     (let vn = tm_index T node value; kn = tm_index T node key in
      if \<not> tm_exists T vn then Inr []
      else if \<not> tm_exists T kn then rbind (read vn) (\<lambda>v. Inr [([], v)])
      else
        rbind (rmap (read_string T) (nodes_of T kn)) (\<lambda>ks.
        rbind (rmap read (if tm_is_array T kn then nodes_of T vn else [vn])) (\<lambda>vs.
          Inr (zip ks (broadcast (length ks) vs)))))"

lemma rbind_assoc: "rbind (rbind m f) g = rbind m (\<lambda>x. rbind (f x) g)"
  by (cases m) simp_all

lemma rmap_nth: "rmap f xs = Inr ys \<Longrightarrow> length ys = length xs \<and> (\<forall>i<length xs. f (xs ! i) = Inr (ys ! i))"
  by (induction xs arbitrary: ys) (auto simp: res_simps nth_Cons split: nat.splits)

definition drop_count :: "(nat \<times> 's) res \<Rightarrow> 's res" where
  "drop_count r = rbind r (\<lambda>(_, s). Inr s)"

text \<open>A loop that counts, over nodes that can be read, is the loop over what is read.\<close>

lemma counting_loop:
  assumes "length ys = length xs" and "\<And>j s. j < length xs \<Longrightarrow> body (xs ! j) (i + j, s) = rbind (fn (ys ! j) s) (\<lambda>s1. Inr (i + j + 1, s1))"
  shows "rfold body xs (i, s) = rbind (rfold fn ys s) (\<lambda>s1. Inr (i + length xs, s1))"
  using assms
proof (induction xs arbitrary: ys i s)
  case Nil
  then show ?case by simp
next
  case (Cons x xs)
  from Cons.prems(1) obtain y zs where ys: "ys = y # zs" "length zs = length xs" by (cases ys) auto
  have b: "body x (i, s) = rbind (fn y s) (\<lambda>s1. Inr (Suc i, s1))" using Cons.prems(2) [of 0 s] by (simp add: ys)
  have "rfold body xs (Suc i, s1) = rbind (rfold fn zs s1) (\<lambda>s2. Inr (Suc i + length xs, s2))" for s1
    by (rule Cons.IH [OF ys(2)]) (use Cons.prems(2) in \<open>force simp: ys\<close>)
  then show ?case by (cases "fn y s") (simp_all add: b ys(1) rbind_def)
qed

text \<open>
  C40: keys and values that can be read give the callback the pairs of the reference definition, in
  their order: an array of values that is shorter than the array of keys goes on with its last value,
  and a scalar value goes to every key.
\<close>

theorem get_pairs_broadcast:
  assumes "paired T read node key value = Inr kvs"
  shows "drop_count (get_pairs T read node key value fn s) = rfold (\<lambda>(k, v). fn k v) kvs s"
proof -
  let ?vn = "tm_index T node value" and ?kn = "tm_index T node key"
  consider (none) "\<not> tm_exists T ?vn" | (nokey) "tm_exists T ?vn" "\<not> tm_exists T ?kn"
    | (scalar) "tm_exists T ?vn" "tm_exists T ?kn" "\<not> tm_is_array T ?kn"
    | (list) "tm_exists T ?vn" "tm_exists T ?kn" "tm_is_array T ?kn" by blast
  then show ?thesis
  proof cases
    case none
    with assms show ?thesis by (simp add: paired_def get_pairs_def drop_count_def)
  next
    case nokey
    with assms obtain v where "read ?vn = Inr v" "kvs = [([], v)]" by (auto simp: paired_def res_simps)
    with nokey show ?thesis by (cases "fn [] v s") (simp_all add: get_pairs_def drop_count_def)
  next
    case scalar
    with assms obtain k v where "read_string T ?kn = Inr k" "read ?vn = Inr v" "kvs = [(k, v)]"
      by (auto simp: paired_def res_simps nodes_of_def broadcast_def)
    with scalar show ?thesis by (cases "fn k v s") (simp_all add: get_pairs_def drop_count_def)
  next
    case list
    let ?keys = "tm_elements T ?kn"
    from list assms obtain ks vs where ks: "rmap (read_string T) ?keys = Inr ks"
      and vs: "rmap read (nodes_of T ?vn) = Inr vs" and kvs: "kvs = zip ks (broadcast (length ks) vs)"
      by (auto simp: paired_def res_simps nodes_of_def Let_def)
    note k = rmap_nth [OF ks] and v = rmap_nth [OF vs]
    show ?thesis
    proof (cases "vs = []")
      case True
      with v list have "tm_is_array T ?vn" "tm_elements T ?vn = []" by (auto simp: nodes_of_def split: if_splits)
      moreover have "kvs = []" by (simp add: kvs True broadcast_def)
      moreover have "rfold (\<lambda>k (i, s). rbind (read_string T k) (\<lambda>key. rbind (Inr s) (\<lambda>s1. Inr (i + 1, s1)))) ?keys (0, s) =
          rbind (rfold (\<lambda>k. Inr) ks s) (\<lambda>s1. Inr (0 + length ?keys, s1))"
        by (rule counting_loop) (use k in auto)
      moreover have "rfold (\<lambda>k. Inr) ks s = Inr s" by (induction ks) auto
      ultimately show ?thesis using list by (simp add: get_pairs_def Let_def drop_count_def)
    next
      case False
      let ?v = "\<lambda>j. vs ! min j (length vs - 1)"
      have z: "length kvs = length ?keys" "\<And>j. j < length ?keys \<Longrightarrow> kvs ! j = (ks ! j, ?v j)"
        using k False by (simp_all add: kvs broadcast_def)
      let ?body = "\<lambda>k (i, s). rbind (read_string T k) (\<lambda>key.
          rbind (if tm_is_array T ?vn then
                   if i < length (tm_elements T ?vn) then rbind (read (tm_elements T ?vn ! i)) (\<lambda>v. fn key v s)
                   else if 0 < length (tm_elements T ?vn) then
                     rbind (read (tm_elements T ?vn ! (length (tm_elements T ?vn) - 1))) (\<lambda>v. fn key v s)
                   else Inr s
                 else rbind (read ?vn) (\<lambda>v. fn key v s))
            (\<lambda>s1. Inr (i + 1, s1)))"
      have "?body (?keys ! j) (0 + j, s) = rbind ((\<lambda>(k, v). fn k v) (kvs ! j) s) (\<lambda>s1. Inr (0 + j + 1, s1))"
        if j: "j < length ?keys" for j s
        using k v False list z(2) [OF j] j by (auto simp: nodes_of_def min_def not_less split: if_splits)
      from counting_loop [OF z(1) this, of s] have "rfold ?body ?keys (0, s) =
          rbind (rfold (\<lambda>(k, v). fn k v) kvs s) (\<lambda>s1. Inr (0 + length ?keys, s1))" .
      moreover have "get_pairs T read node key value fn s = rfold ?body ?keys (0, s)"
        using list by (simp add: get_pairs_def Let_def rbind_assoc)
      ultimately show ?thesis by (cases "rfold (\<lambda>(k, v). fn k v) kvs s") (simp_all add: drop_count_def)
    qed
  qed
qed

definition row :: "parameter \<Rightarrow> string \<times> string \<Rightarrow> parameter" where
  "row p = (\<lambda>(k, v). p\<lparr>par_symbol := k, par_value := v\<rparr>)"

lemma add_all_symbols_rows:
  assumes "paired T (read_string T) node ''symbol'' ''value'' = Inr kvs"
  shows "add_all_symbols T node p ps = Inr (ps @ map (row p) kvs)"
proof -
  have "rfold (\<lambda>(k, v) ps. Inr (ps @ [p\<lparr>par_symbol := k, par_value := v\<rparr>])) kvs ps = Inr (ps @ map (row p) kvs)" for kvs ps
    by (induction kvs arbitrary: ps) (auto simp: row_def)
  with get_pairs_broadcast [OF assms, of "\<lambda>k v ps. Inr (ps @ [p\<lparr>par_symbol := k, par_value := v\<rparr>])" ps] show ?thesis
    by (simp add: add_all_symbols_def drop_count_def)
qed

lemma get_values_read:
  assumes "rmap read (nodes_of T (tm_index T node name)) = Inr vs"
  shows "get_values T read node name (\<lambda>_. fn) s = rbind (rfold fn vs s) (\<lambda>s1. Inr (length vs, s1))"
proof -
  let ?n = "tm_index T node name"
  consider "\<not> tm_exists T ?n" | (scalar) "tm_exists T ?n" "\<not> tm_is_array T ?n" | (list) "tm_exists T ?n" "tm_is_array T ?n" by blast
  then show ?thesis
  proof cases
    case 1
    with assms show ?thesis by (simp add: nodes_of_def get_values_def)
  next
    case scalar
    with assms obtain v where "read ?n = Inr v" "vs = [v]" by (auto simp: nodes_of_def res_simps)
    with scalar show ?thesis by (cases "fn v s") (simp_all add: get_values_def)
  next
    case list
    with assms have vs: "rmap read (tm_elements T ?n) = Inr vs" by (simp add: nodes_of_def)
    note v = rmap_nth [OF vs]
    have "rfold (\<lambda>n (i, s). rbind (read n) (\<lambda>v. rbind (fn v s) (\<lambda>s1. Inr (i + 1, s1)))) (tm_elements T ?n) (0, s) =
        rbind (rfold fn vs s) (\<lambda>s1. Inr (0 + length (tm_elements T ?n), s1))"
      by (rule counting_loop) (use v in auto)
    with list v show ?thesis by (simp add: get_values_def Let_def)
  qed
qed

text \<open>
  C20: a node \<open>parameter\<close> of the file whose entries can be read stands for the product of its accounts
  and its pairs of symbol and value, in that order, each with the node's label, exchange and strategy;
  without accounts the account is empty.
\<close>

theorem load_parameter_product:
  assumes "get_string T node ''label'' = Inr label" "get_string_or T node ''exchange'' [] = Inr exch"
    and "get_string_or T node ''strategy'' ''0'' = Inr strategy" "parse_uint32 strategy = Inr i"
    and accounts: "rmap (read_string T) (nodes_of T (tm_index T node ''account'')) = Inr accounts"
    and kvs: "paired T (read_string T) node ''symbol'' ''value'' = Inr kvs"
  shows "load_parameter T node ps = Inr (ps @
    [\<lparr>par_label = label, par_account = a, par_exchange = exch, par_symbol = k, par_strategy_id = of_nat i, par_value = v\<rparr>.
       a \<leftarrow> if accounts = [] then [[]] else accounts, (k, v) \<leftarrow> kvs])"
proof -
  let ?p = "\<lambda>a. \<lparr>par_label = label, par_account = a, par_exchange = exch, par_symbol = [], par_strategy_id = of_nat i, par_value = []\<rparr>"
  have f: "rfold (\<lambda>a ps. Inr (ps @ map (row (?p a)) kvs)) as ps = Inr (ps @ concat (map (\<lambda>a. map (row (?p a)) kvs) as))" for as ps
    by (induction as arbitrary: ps) simp_all
  have r: "row (?p a) = (\<lambda>(k, v).
      \<lparr>par_label = label, par_account = a, par_exchange = exch, par_symbol = k, par_strategy_id = of_nat i, par_value = v\<rparr>)" for a
    by (simp add: row_def fun_eq_iff)
  have "load_parameter T node ps = Inr (ps @ concat (map (\<lambda>a. map (row (?p a)) kvs) (if accounts = [] then [[]] else accounts)))"
    by (simp add: load_parameter_def assms(1-4) get_values_read [OF accounts] Let_def add_all_symbols_rows [OF kvs] f)
  then show ?thesis unfolding r by simp
qed

section \<open>Markets\<close>

lemma rfold_prefix_invariant:
  assumes "rfold f xs s = Inr s'" and "I [] s"
    and "\<And>ys x s s'. x \<in> set xs \<Longrightarrow> length ys < length xs \<Longrightarrow> I ys s \<Longrightarrow> f x s = Inr s' \<Longrightarrow> I (ys @ [x]) s'"
  shows "I xs s'"
proof -
  have "I (ys @ zs) s'" if "rfold f zs t = Inr s'" "I ys t" "ys @ zs = xs" for ys zs t
    using that
  proof (induction zs arbitrary: ys t)
    case Nil
    then show ?case by simp
  next
    case (Cons z zs)
    from Cons.prems(1) obtain u where u: "f z t = Inr u" "rfold f zs u = Inr s'" by (auto simp: res_simps)
    have "z \<in> set xs" "length ys < length xs" using Cons.prems(3) by auto
    from assms(3) [OF this Cons.prems(2) u(1)] Cons.IH [OF u(2), of "ys @ [z]"] Cons.prems(3) show ?case by simp
  qed
  from this [OF assms(1), of "[]"] assms(2) show ?thesis by simp
qed

text \<open>The symbols a market node names, as keys of the table; a regular expression is none.\<close>

definition plain_symbols :: "string \<Rightarrow> string list \<Rightarrow> (string \<times> string) set" where
  "plain_symbols exch symbols = {(exch, s) |s. s \<in> set symbols \<and> CHR ''*'' \<notin> set s}"

lemma put_info_wf:
  assumes "markets_wf ms" "get_market (info_market m) ms = Some m"
    and "info_market m' = info_market m" "info_exchange m' = info_exchange m" "info_symbol m' = info_symbol m"
  shows "markets_wf (put_info m' ms)"
proof -
  have f: "hfind (market_by_id (put_info m' ms)) = (hfind (market_by_id ms))(info_market m \<mapsto> m')"
    using assms(2,3) by (simp add: put_info_def get_market_def hfind_hset_Some)
  have g: "hfind (market_by_id ms) (info_market m) = Some m" using assms(2) by (simp add: get_market_def)
  show ?thesis
  proof (rule markets_wf_cong [OF _ _ _ _ _ assms(1)])
    show "\<exists>m0. hfind (market_by_id ms) i = Some m0 \<and> info_market x = info_market m0 \<and>
        info_exchange x = info_exchange m0 \<and> info_symbol x = info_symbol m0" if "hfind (market_by_id (put_info m' ms)) i = Some x" for i x
      using that g assms(3-5) unfolding f by (auto split: if_splits)
    show "\<exists>x. hfind (market_by_id (put_info m' ms)) i = Some x \<and> info_exchange x = info_exchange m0 \<and> info_symbol x = info_symbol m0"
      if "hfind (market_by_id ms) i = Some m0" for i m0
      using that g assms(3-5) unfolding f by auto
    show "hwf (market_by_id (put_info m' ms))" using assms(1) by (simp add: put_info_def markets_wf_iff)
  qed (simp_all add: put_info_def)
qed

lemma unat_plus_1_le: "unat (x + 1 :: ident) \<le> unat x + 1"
  using mod_less_eq_dividend [of "unat x + 1" "2 ^ 32"] by (simp add: unat_word_ariths(1))

lemma configure_symbol_ok:
  assumes run: "configure_symbol L T node exch gw symbol ms = Inr ms'" and wf: "markets_wf ms" and room: "last_market_id ms \<noteq> - 1"
  shows "markets_wf ms' \<and> dom (markets_abs ms') = dom (markets_abs ms) \<union> plain_symbols exch [symbol] \<and>
    unat (last_market_id ms') \<le> unat (last_market_id ms) + 1"
proof (cases "CHR ''*'' \<in> set symbol")
  case True
  with run wf show ?thesis by (simp add: configure_symbol_def Let_def plain_symbols_def)
next
  case False
  let ?key = "\<lparr>m_market = 0, m_symbol = symbol, m_exchange = exch, m_account = [], m_strategy_id = 0\<rparr>"
  have e: "emplace_market L (?key\<lparr>m_market := get_market_ident symbol exch ms\<rparr>) ms = emplace_market L ?key ms"
    by (simp add: emplace_market_def)
  obtain m new ms1 where em: "emplace_market L ?key ms = Inr (m, new, ms1)"
    and abs: "markets_abs ms1 = intern (exch, symbol) (last_market_id ms + 1) (markets_abs ms)"
    and m: "get_market (info_market m) ms1 = Some m"
    by (rule emplace_market_refines [OF wf, of ?key L]) (use that in auto)
  from run False em e obtain pub best lot depth where ms': "ms' = put_info
      (m\<lparr>info_pub_price_source := pub, info_best_quotes_source := best, info_lot_size := lot,
         info_mdata_gateway_name := gw, info_depth_num_levels := depth\<rparr>) ms1"
    by (auto simp: configure_symbol_def Let_def res_simps)
  have wf1: "markets_wf ms1" by (rule emplace_market_wf [OF wf _ room em]) simp
  have "markets_wf ms'" unfolding ms' by (rule put_info_wf [OF wf1 m]) simp_all
  moreover have "markets_abs ms' = markets_abs ms1" by (simp add: ms' put_info_def markets_abs_def)
  moreover have "last_market_id ms1 = last_market_id ms \<or> last_market_id ms1 = last_market_id ms + 1"
    using em by (auto simp: emplace_market_def Let_def res_simps split: if_splits option.splits)
  then have "unat (last_market_id ms1) \<le> unat (last_market_id ms) + 1" using unat_plus_1_le by auto
  ultimately show ?thesis using False abs by (auto simp: intern_def plain_symbols_def ms' put_info_def)
qed

lemma get_values_run:
  assumes "get_values T read node name (\<lambda>_. fn) s = Inr (n, s')"
  shows "\<exists>vs. rmap read (nodes_of T (tm_index T node name)) = Inr vs \<and> rfold fn vs s = Inr s'"
proof -
  have loop: "\<exists>vs. rmap read xs = Inr vs \<and> rfold fn vs s = Inr s'"
    if "rfold (\<lambda>n (i, s). rbind (read n) (\<lambda>v. rbind (fn v s) (\<lambda>s1. Inr (i + 1, s1)))) xs (i, s) = Inr (n, s')" for xs i s
    using that by (induction xs arbitrary: i s) (fastforce simp: res_simps)+
  from assms loop show ?thesis
    by (force simp: get_values_def nodes_of_def Let_def res_simps split: if_splits)
qed

lemma configure_symbols_ok:
  assumes "rfold (configure_symbol L T node exch gw) symbols ms = Inr ms'" and "markets_wf ms"
    and "unat (last_market_id ms) + length symbols < 2 ^ 32"
  shows "markets_wf ms' \<and> dom (markets_abs ms') = dom (markets_abs ms) \<union> plain_symbols exch symbols \<and>
    unat (last_market_id ms') \<le> unat (last_market_id ms) + length symbols"
proof (rule rfold_prefix_invariant [where I = "\<lambda>ss ms1. markets_wf ms1 \<and>
    dom (markets_abs ms1) = dom (markets_abs ms) \<union> plain_symbols exch ss \<and>
    unat (last_market_id ms1) \<le> unat (last_market_id ms) + length ss", OF assms(1)])
  show "markets_wf ms \<and> dom (markets_abs ms) = dom (markets_abs ms) \<union> plain_symbols exch [] \<and>
      unat (last_market_id ms) \<le> unat (last_market_id ms) + length []"
    using assms(2) by (simp add: plain_symbols_def)
next
  fix ss symbol ms1 ms2
  assume lt: "length ss < length symbols"
    and ok: "markets_wf ms1 \<and> dom (markets_abs ms1) = dom (markets_abs ms) \<union> plain_symbols exch ss \<and>
      unat (last_market_id ms1) \<le> unat (last_market_id ms) + length ss"
    and run: "configure_symbol L T node exch gw symbol ms1 = Inr ms2"
  have "last_market_id ms1 \<noteq> - 1"
  proof
    assume "last_market_id ms1 = - 1"
    then have "unat (last_market_id ms1) = 2 ^ 32 - 1"
      by (simp add: unsigned_minus_1_eq_mask mask_eq_exp_minus_1)
    with ok lt assms(3) show False by simp
  qed
  from configure_symbol_ok [OF run conjunct1 [OF ok] this] ok
  show "markets_wf ms2 \<and> dom (markets_abs ms2) = dom (markets_abs ms) \<union> plain_symbols exch (ss @ [symbol]) \<and>
      unat (last_market_id ms2) \<le> unat (last_market_id ms) + length (ss @ [symbol])"
    by (auto simp: plain_symbols_def)
qed

text \<open>The keys a market node of the file gives.\<close>

definition market_nodes :: "'n tm \<Rightarrow> 'n \<Rightarrow> 'n list" where
  "market_nodes T doc = nodes_of T (tm_at_path T doc ''market'')"

definition symbol_nodes :: "'n tm \<Rightarrow> 'n \<Rightarrow> 'n list" where
  "symbol_nodes T node = nodes_of T (tm_index T node ''symbol'')"

definition named_markets :: "'n tm \<Rightarrow> 'n \<Rightarrow> (string \<times> string) set" where
  "named_markets T node =
     (case (get_string T node ''exchange'', rmap (read_string T) (symbol_nodes T node)) of
        (Inr exch, Inr symbols) \<Rightarrow> plain_symbols exch symbols | _ \<Rightarrow> {})"

lemma markets_clear_wf: "markets_wf (markets_clear ms) \<and> markets_abs (markets_clear ms) = Map.empty"
  by (simp add: markets_wf_iff markets_clear_def markets_abs_def hd2.pair.wf_empty hd2.pair.find_empty hd.wf_empty hd.find_empty
      fun_eq_iff)

text \<open>
  C19: after the configuration is read the table of markets holds exactly the markets the file names,
  by exchange and symbol, leaving out regular expressions and whatever was in the table before, and the
  table and its index agree.
\<close>

theorem markets_configure_table:
  assumes run: "markets_configure L T doc ms = Inr ms'"
    and room: "unat (last_market_id ms) + sum_list (map (\<lambda>node. length (symbol_nodes T node)) (market_nodes T doc)) < 2 ^ 32"
  shows "markets_wf ms' \<and> dom (markets_abs ms') = (\<Union>node\<in>set (market_nodes T doc). named_markets T node)"
proof -
  let ?f = "\<lambda>node ms.
       rbind (get_string T node ''exchange'') (\<lambda>exch.
       rbind (get_string_or T node ''mdata_gateway'' []) (\<lambda>gateway_name.
       rbind (get_values T (read_string T) node ''symbol''
                (\<lambda>_ symbol. configure_symbol L T node exch gateway_name symbol) ms) (\<lambda>(_, ms1). Inr ms1)))"
  let ?size = "\<lambda>nodes. sum_list (map (\<lambda>node. length (symbol_nodes T node)) nodes)"
  let ?ok = "\<lambda>done ms1. markets_wf ms1 \<and> dom (markets_abs ms1) = (\<Union>node\<in>set done. named_markets T node) \<and>
      unat (last_market_id ms1) \<le> unat (last_market_id ms) + ?size done"
  have main: "?ok (before @ after) ms'"
    if "rfold ?f after ms1 = Inr ms'" "?ok before ms1" "unat (last_market_id ms) + ?size (before @ after) < 2 ^ 32" for before after ms1
    using that
  proof (induction after arbitrary: before ms1)
    case Nil
    then show ?case by simp
  next
    case (Cons node nodes)
    from Cons.prems(1) obtain ms2 exch gw n where 2: "rfold ?f nodes ms2 = Inr ms'" and exch: "get_string T node ''exchange'' = Inr exch"
      and v: "get_values T (read_string T) node ''symbol'' (\<lambda>_ symbol. configure_symbol L T node exch gw symbol) ms1 = Inr (n, ms2)"
      by (auto simp: res_simps)
    from get_values_run [OF v] obtain symbols where s: "rmap (read_string T) (symbol_nodes T node) = Inr symbols"
      and r: "rfold (configure_symbol L T node exch gw) symbols ms1 = Inr ms2" by (auto simp: symbol_nodes_def)
    have len: "length symbols = length (symbol_nodes T node)" using rmap_nth [OF s] by simp
    have "unat (last_market_id ms1) + length symbols < 2 ^ 32" using Cons.prems(2,3) len by simp
    from configure_symbols_ok [OF r _ this] Cons.prems(2) len have "?ok (before @ [node]) ms2"
      by (auto simp: named_markets_def exch s)
    from Cons.IH [OF 2 this] Cons.prems(3) show ?case by simp
  qed
  have "?ok [] (markets_clear ms)" using markets_clear_wf [of ms] by (simp add: markets_clear_def)
  from main [OF _ this, of "market_nodes T doc"] run room show ?thesis
    by (simp add: markets_configure_def get_nodes_def market_nodes_def)
qed


section \<open>Examples\<close>

text \<open>Documents as trees, with the operations of a node on them.\<close>

datatype toml = Absent | Text string | Whole int | Flag bool | Real double | Items "toml list" | Fields "(string \<times> toml) list"

fun toml_field :: "toml \<Rightarrow> string \<Rightarrow> toml" where
  "toml_field (Fields fs) k = (case map_of fs k of None \<Rightarrow> Absent | Some t \<Rightarrow> t)"
| "toml_field _ k = Absent"

definition tree_tm :: "toml tm" where
  "tree_tm =
     \<lparr>tm_exists = (\<lambda>t. case t of Absent \<Rightarrow> False | _ \<Rightarrow> True), tm_at_path = toml_field, tm_index = toml_field,
      tm_is_value = (\<lambda>t. case t of Absent \<Rightarrow> False | Items _ \<Rightarrow> False | Fields _ \<Rightarrow> False | _ \<Rightarrow> True),
      tm_is_array = (\<lambda>t. case t of Items _ \<Rightarrow> True | _ \<Rightarrow> False),
      tm_is_table = (\<lambda>t. case t of Fields _ \<Rightarrow> True | _ \<Rightarrow> False),
      tm_elements = (\<lambda>t. case t of Items ts \<Rightarrow> ts | _ \<Rightarrow> []),
      tm_fields = (\<lambda>t. case t of Fields fs \<Rightarrow> fs | _ \<Rightarrow> []),
      tm_string = (\<lambda>t. case t of Text s \<Rightarrow> Some s | _ \<Rightarrow> None), tm_integer = (\<lambda>t. case t of Whole i \<Rightarrow> Some i | _ \<Rightarrow> None),
      tm_bool = (\<lambda>t. case t of Flag b \<Rightarrow> Some b | _ \<Rightarrow> None), tm_double = (\<lambda>t. case t of Real x \<Rightarrow> Some x | _ \<Rightarrow> None),
      tm_source = (\<lambda>_. ''file:1:1'')\<rparr>"

definition demo_parameter :: toml where
  "demo_parameter = Fields
     [(''label'', Text ''lqs:delta''), (''account'', Items [Text ''x'', Text ''y'']),
      (''symbol'', Items [Text ''s'', Text ''t'']), (''value'', Items [Text ''1''])]"

definition demo_document :: toml where
  "demo_document = Fields
     [(''market'', Items [Fields [(''exchange'', Text ''e''), (''symbol'', Items [Text ''a'', Text ''b*'', Text ''c''])]]),
      (''account'', Fields [(''account'', Text ''x''), (''exchange'', Text ''e''), (''trade_gateway'', Text ''g'')])]"

lemmas toml_eval =
  tree_tm_def get_value_helper_def read_string_def get_string_def get_string_or_def get_string_or_default_def nodes_of_def
  bad_node_def get_nodes_def get_values_def get_pairs_def get_value_or_def paired_def broadcast_def

lemma demo_pairs: "paired tree_tm (read_string tree_tm) demo_parameter ''symbol'' ''value'' = Inr [(''s'', ''1''), (''t'', ''1'')]"
  by (simp add: toml_eval demo_parameter_def)

theorem get_pairs_broadcast_witness:
  "drop_count (get_pairs tree_tm (read_string tree_tm) demo_parameter ''symbol'' ''value'' (\<lambda>k v ps. Inr (ps @ [(k, v)])) []) =
     Inr [(''s'', ''1''), (''t'', ''1'')]"
  by (simp add: get_pairs_broadcast [OF demo_pairs])

theorem load_parameter_product_witness:
  "\<exists>ps. load_parameter tree_tm demo_parameter [] = Inr ps \<and>
     map (\<lambda>p. (par_account p, par_symbol p, par_value p)) ps =
       [(''x'', ''s'', ''1''), (''x'', ''t'', ''1''), (''y'', ''s'', ''1''), (''y'', ''t'', ''1'')]"
proof -
  have "get_string tree_tm demo_parameter ''label'' = Inr ''lqs:delta''" "get_string_or tree_tm demo_parameter ''exchange'' [] = Inr []"
    "get_string_or tree_tm demo_parameter ''strategy'' ''0'' = Inr ''0''"
    "rmap (read_string tree_tm) (nodes_of tree_tm (tm_index tree_tm demo_parameter ''account'')) = Inr [''x'', ''y'']"
    by (simp_all add: toml_eval demo_parameter_def)
  moreover have "parse_uint32 ''0'' = Inr 0" by (simp add: parse_uint32_def is_digit_def digits_value_def digit_value_def)
  ultimately show ?thesis
    using load_parameter_product [OF _ _ _ _ _ demo_pairs, of "''lqs:delta''" "[]" "''0''" 0 "[''x'', ''y'']" "[]"] by simp
qed

theorem markets_configure_table_witness:
  "\<exists>ms'. markets_configure (\<lambda>n. [0..<n]) tree_tm demo_document demo_markets = Inr ms' \<and> markets_wf ms' \<and>
     dom (markets_abs ms') = {(''e'', ''a''), (''e'', ''c'')}"
proof -
  obtain ms' where r: "markets_configure (\<lambda>n. [0..<n]) tree_tm demo_document demo_markets = Inr ms'"
    by (simp add: markets_configure_def toml_eval demo_document_def configure_symbol_def emplace_market_def get_market_ident_def
        markets_clear_def demo_markets_def put_info_def hash_eval map_put_def Let_def cong: eval_congs)
  have nodes: "market_nodes tree_tm demo_document =
      [Fields [(''exchange'', Text ''e''), (''symbol'', Items [Text ''a'', Text ''b*'', Text ''c''])]]"
    by (simp add: market_nodes_def toml_eval demo_document_def)
  then have "unat (last_market_id demo_markets) +
      sum_list (map (\<lambda>node. length (symbol_nodes tree_tm node)) (market_nodes tree_tm demo_document)) < 2 ^ 32"
    by (simp add: symbol_nodes_def toml_eval demo_markets_def)
  from markets_configure_table [OF r this] have "markets_wf ms'"
    "dom (markets_abs ms') = named_markets tree_tm (Fields [(''exchange'', Text ''e''), (''symbol'', Items [Text ''a'', Text ''b*'', Text ''c''])])"
    by (simp_all add: nodes)
  moreover have "named_markets tree_tm (Fields [(''exchange'', Text ''e''), (''symbol'', Items [Text ''a'', Text ''b*'', Text ''c''])]) =
      {(''e'', ''a''), (''e'', ''c'')}"
    by (auto simp: named_markets_def symbol_nodes_def toml_eval plain_symbols_def)
  ultimately show ?thesis using r by auto
qed


text \<open>The constructor on the document above, with no parameters to replay, for any pricer.\<close>

definition start_core :: "'p \<Rightarrow> (unit, 'p) app" where
  "start_core p =
     \<lparr>c_gateways = demo_gateways, c_markets = demo_markets, c_portfolios = demo_portfolios, c_best_quotes = [],
      a_config = \<lparr>cfg_parameters = [], cfg_is_downloading = False, cfg_start_time = 0\<rparr>, a_pricer = p\<rparr>"

lemmas construct_eval =
  strategy_construct_def strategy_configure_def core_configure_def markets_configure_def toml_eval demo_document_def
  configure_symbol_def emplace_market_def get_market_ident_def markets_clear_def demo_markets_def put_info_def hash_eval
  map_put_def portfolios_configure_def configure_account_def parse_uint32_def emplace_portfolio_def demo_portfolios_def
  oms_configure_def oms_clear_def initial_oms_def strategy_start_def config_dispatch_def strategy_eval parameters_event_def
  start_core_def plain_ext_def portfolios_on_parameters_def oms_on_parameters_def is_digit_def digits_value_def digit_value_def
  Let_def

lemma lqs_construct_run:
  "\<exists>c s. strategy_construct plain_ext tree_tm False (lqs_handle (x_layout plain_ext) (on_target_quotes plain_ext)) demo_document
     (start_core [], initial_oms []) = Inr (c, s) \<and> hfind2 (trade_gateway_by_account_by_exchange s) (''e'', ''x'') = Some ''g''"
  by (simp add: construct_eval lqs_on_parameters_def cong: eval_congs)

lemma dag_construct_run:
  "\<exists>c s. strategy_construct plain_ext tree_tm False (dag_handle (x_layout plain_ext) [] (+) (on_target_quotes plain_ext)) demo_document
     (start_core new_dag_pricer, initial_oms []) = Inr (c, s)"
  by (simp add: construct_eval dag_on_parameters_def cong: eval_congs)

text \<open>One market, one account, and the events that lead to a first order and its confirmation.\<close>

definition run_document :: toml where
  "run_document = Fields
     [(''market'', Items [Fields [(''exchange'', Text ''e''), (''symbol'', Items [Text ''s'']),
        (''best_quotes_source'', Text ''MARKET_BY_PRICE''), (''mdata_gateway'', Text ''g'')]]),
      (''account'', Fields [(''account'', Text ''a''), (''exchange'', Text ''e''), (''trade_gateway'', Text ''g'')])]"

definition blank_core :: "'p \<Rightarrow> (unit, 'p) app" where
  "blank_core p =
     \<lparr>c_gateways = \<lparr>gateway_by_id = [], gateway_id_by_name = []\<rparr>,
      c_markets = \<lparr>last_market_id = 0, market_by_symbol_by_exchange = [], market_by_id = []\<rparr>,
      c_portfolios = \<lparr>pm_position_source = PS_ORDERS, last_portfolio_id = 0, portfolios_by_id = [],
        portfolio_by_name = [], portfolio_by_account = []\<rparr>,
      c_best_quotes = [],
      a_config = \<lparr>cfg_parameters = [], cfg_is_downloading = False, cfg_start_time = 0\<rparr>, a_pricer = p\<rparr>"

definition built_core :: "'p \<Rightarrow> (unit, 'p) app" where
  "built_core p = (blank_core p)
     \<lparr>c_markets :=
        \<lparr>last_market_id = 1, market_by_symbol_by_exchange = [(''e'', [(''s'', 1)])],
         market_by_id = [(1, default_info
           \<lparr>info_market := 1, info_symbol := ''s'', info_exchange := ''e'', info_mdata_gateway_name := ''g'',
             info_best_quotes_source := BQS_MARKET_BY_PRICE, info_lot_size := Fin 1\<rparr>)]\<rparr>,
      c_portfolios :=
        \<lparr>pm_position_source = PS_ORDERS, last_portfolio_id = 1,
         portfolios_by_id = [(1, default_portfolio\<lparr>p_portfolio := 1, p_portfolio_name := []\<rparr>)],
         portfolio_by_name = [([], 1)], portfolio_by_account = [(''e'', [(''a'', 1)])]\<rparr>\<rparr>"

definition built_oms :: oms where
  "built_oms = (initial_oms [(''e'', [(''a'', ''g'')])])\<lparr>reject_timeout := 100000000\<rparr>"

lemma built:
  "strategy_construct plain_ext tree_tm False (lqs_handle (x_layout plain_ext) (on_target_quotes plain_ext)) run_document
     (blank_core (demo_pricer True), initial_oms []) = Inr (built_core (demo_pricer True), built_oms)"
  by (simp add: run_document_def construct_eval lqs_on_parameters_def demo_eval best_quotes_source_cast_def read_enum_def
      blank_core_def config_on_parameters_def built_core_def built_oms_def cong: eval_congs)

definition from_gateway :: "client_value \<Rightarrow> unit client_event" where
  "from_gateway v = \<lparr>ev_info = \<lparr>mi_source = 0, mi_source_name = ''g''\<rparr>, ev_gateway = Some (\<lambda>g. (g, True)), ev_value = v\<rparr>"

lemmas run_events =
  emplace_market_event_def emplace_market_def from_gateway_def book_event_def on_gateway_settings_def
  on_reference_data_def lqs_on_reference_data_def strategy_reference_data_def get_market_by_key_def strategy_eval run_eval leg_eval quotes_eval get_source_def get_trade_gateway_def get_market_def double_compare_nan process_eval hash_eval demo_eval


definition working :: order_update where
  "working =
     \<lparr>ou_account = ''a'', ou_order_id = 1, ou_exchange = ''e'', ou_symbol = ''s'', ou_side = SELL, ou_order_status = WORKING,
      ou_update_type = UT_UNDEFINED, ou_price = Fin 100, ou_remaining_quantity = Fin 1, ou_traded_quantity = Fin 2,
      ou_last_traded_price = Fin 100, ou_max_accepted_version = 1, ou_max_response_version = 1,
      ou_external_order_id = [], ou_strategy_id = 1\<rparr>"

lemmas fill_eval =
  working_def update_placed_def get_book_def on_order_update_def apply_order_update_def order_confirm_def confirmed_order_def
  order_fills_def emplace_order_def trade_of_def process_stored_def strategy_on_trade_def portfolios_on_trade_def
  get_portfolio_by_account_def on_exposure_update_def key_ident_def book_key_def store_book_def put_order_def
  created_order_def create_request_of_def

lemmas fits_eval = event_fits_def nobody_ready_def ids_below_def gw_is_ready_account_def

text \<open>Settings, the tick size, the quotes that lead to a first order, and a fill of it.\<close>

definition fill_run :: "unit client_event list" where
  "fill_run =
     [from_gateway V_Gateway_Settings, from_gateway (V_Reference_Data ''s'' ''e'' (Fin 1)), book_event,
      from_gateway (V_Order_Update working)]"

lemma run_to_fill:
  "\<exists>c s. fitting_run plain_ext False (lqs_handle (x_layout plain_ext) (on_target_quotes plain_ext)) fill_run
     (built_core (demo_pricer True), built_oms) (c, s) \<and>
     map rid (sent_requests s) = [1, 2] \<and> map fst (market_by_order s) = [1, 2] \<and>
     map_option b_position_by_orders (hfind3 (books s) (1, ''a'', 1)) = Some (Fin (- 2))"
  by (simp add: fill_run_def fill_eval fits_eval run_events built_core_def blank_core_def built_oms_def cong: eval_congs)

theorem configured_program_invariant_witness:
  "\<exists>r c s. strategy_construct plain_ext tree_tm False (lqs_handle (x_layout plain_ext) (on_target_quotes plain_ext)) run_document
       (blank_core (demo_pricer True), initial_oms []) = Inr r \<and>
     fitting_run plain_ext False (lqs_handle (x_layout plain_ext) (on_target_quotes plain_ext)) fill_run r (c, s) \<and>
     map rid (sent_requests s) = [1, 2] \<and> pricer_wf (a_pricer c) \<and> oms_wf s \<and>
     (ids_below s \<or> nobody_ready plain_ext (c_gateways c))"
proof -
  obtain c s where r: "fitting_run plain_ext False (lqs_handle (x_layout plain_ext) (on_target_quotes plain_ext)) fill_run
     (built_core (demo_pricer True), built_oms) (c, s)" "map rid (sent_requests s) = [1, 2]"
    using run_to_fill by metis
  have "pricer_wf (a_pricer (blank_core (demo_pricer True)))" by (simp add: blank_core_def demo_pricer_wf)
  from configured_program_invariant [OF built this r(1)] built r show ?thesis by metis
qed

theorem dag_program_invariant_witness:
  "\<exists>c s. strategy_construct plain_ext tree_tm False (dag_handle (x_layout plain_ext) [] (+) (on_target_quotes plain_ext)) demo_document
     (start_core new_dag_pricer, initial_oms []) = Inr (c, s) \<and> oms_wf s \<and> dag_wf (a_pricer c)"
proof -
  obtain c s where r: "strategy_construct plain_ext tree_tm False (dag_handle (x_layout plain_ext) [] (+) (on_target_quotes plain_ext))
     demo_document (start_core new_dag_pricer, initial_oms []) = Inr (c, s)"
    using dag_construct_run by metis
  have "dag_wf (a_pricer (start_core new_dag_pricer))" by (simp add: start_core_def new_dag_pricer_wf)
  from dag_program_invariant [OF program_reachable.construct [where I = dag_wf, OF this r]] r show ?thesis by blast
qed

end
