(* ===== verification/Application.thy ===== *)
theory Application
  imports Configure_Results
begin

text \<open>
  The start of the program: the flags (\<open>core/flags\<close>), the choice of the pricer (\<open>core/factory.cpp\<close>)
  and \<open>Application::main\<close> (\<open>core/application.cpp\<close>), up to the point where the client library starts to
  send events.  The file the parser reads is the parameter \<open>read_file\<close>, which may throw.
\<close>

section \<open>Flags\<close>

record app_flags =
  fl_config_file :: string
  fl_strategy :: string
  fl_publisher_id :: int
  fl_erase_all_orders_on_gateway_not_ready :: bool
  fl_use_toml_parameters :: bool

definition default_flags :: app_flags where
  "default_flags =
     \<lparr>fl_config_file = ''config.toml'', fl_strategy = ''strategy'', fl_publisher_id = 0,
      fl_erase_all_orders_on_gateway_not_ready = False, fl_use_toml_parameters = True\<rparr>"


section \<open>Construction\<close>

text \<open>\<open>factory\<close>, as it is compiled with \<open>USE_LQS\<close> alone; the pricer starts without strategies.\<close>

definition pricer_factory :: "string \<Rightarrow> lqs_pricer res" where
  "pricer_factory strategy_name =
     (if strategy_name = ''lqs'' then Inr []
      else Inl (Runtime_Error (''pricer '' @ CHR 0x27 # strategy_name @ CHR 0x27 # '' was not found'')))"

definition new_app :: "config \<Rightarrow> 'p \<Rightarrow> ('g, 'p) app" where
  "new_app cfg p =
     \<lparr>c_gateways = \<lparr>gateway_by_id = [], gateway_id_by_name = []\<rparr>,
      c_markets = \<lparr>last_market_id = 0, market_by_symbol_by_exchange = [], market_by_id = []\<rparr>,
      c_portfolios = \<lparr>pm_position_source = PS_PORTFOLIO, last_portfolio_id = 0, portfolios_by_id = [],
                      portfolio_by_name = [], portfolio_by_account = []\<rparr>,
      c_best_quotes = [], a_config = cfg, a_pricer = p\<rparr>"

text \<open>The constructor of \<open>Strategy\<close>: the pricer first, then the configuration.\<close>

definition strategy_new ::
  "'g ext \<Rightarrow> 'n tm \<Rightarrow> bool \<Rightarrow> 'n \<Rightarrow> config \<Rightarrow> string \<Rightarrow> ('g, lqs_pricer) strategy_state res" where
  "strategy_new X T flag doc cfg strategy_name =
     rbind (pricer_factory strategy_name) (\<lambda>p.
       strategy_construct X T flag (lqs_handle (x_layout X) (on_target_quotes X)) doc (new_app cfg p, initial_oms []))"

definition new_config :: config where
  "new_config = \<lparr>cfg_parameters = [], cfg_is_downloading = False, cfg_start_time = 0\<rparr>"

text \<open>
  \<open>Application::main\<close>: the file is loaded, and the client library asks for the settings and makes the
  strategy, which it is given the name of.
\<close>

definition application_main ::
  "'g ext \<Rightarrow> 'n tm \<Rightarrow> (string \<Rightarrow> 'n res) \<Rightarrow> app_flags \<Rightarrow>
     (client_setting list \<times> ('g, lqs_pricer) strategy_state) res" where
  "application_main X T read_file flags =
     rbind (read_file (fl_config_file flags)) (\<lambda>doc.
     rbind (config_load T (fl_use_toml_parameters flags) doc new_config) (\<lambda>cfg.
     rbind (config_announce T doc) (\<lambda>settings.
     rbind (strategy_new X T (fl_erase_all_orders_on_gateway_not_ready flags) doc cfg (fl_strategy flags)) (\<lambda>r.
       Inr (settings, r)))))"


section \<open>Properties\<close>

lemma new_app_pricer [simp]: "a_pricer (new_app cfg p) = p"
  by (simp add: new_app_def)

lemma pricer_factory_Inr [res_simps]: "pricer_factory n = Inr p \<longleftrightarrow> n = ''lqs'' \<and> p = []"
  by (auto simp: pricer_factory_def)

text \<open>What every call of the callback keeps, reading values keeps.\<close>

lemma get_values_invariant:
  assumes "get_values T R node key fn s = Inr (n, s')" and "I s"
    and step: "\<And>i v s s'. I s \<Longrightarrow> fn i v s = Inr s' \<Longrightarrow> I s'"
  shows "I s'"
proof (cases "tm_exists T (tm_index T node key) \<and> tm_is_array T (tm_index T node key)")
  case True
  then have "rfold (\<lambda>n (i, s). rbind (R n) (\<lambda>v. rbind (fn i v s) (\<lambda>s1. Inr (i + 1, s1))))
      (tm_elements T (tm_index T node key)) (0, s) = Inr (n, s')"
    using assms(1) by (simp add: get_values_def Let_def)
  then have "(\<lambda>(i, s). I s) (n, s')"
    by (rule rfold_invariant) (auto simp: res_simps assms(2) intro: step)
  then show ?thesis by simp
next
  case False
  with assms(1,2) show ?thesis by (auto simp: get_values_def res_simps Let_def split: if_splits intro: step)
qed

lemma config_announce_hd:
  assumes "config_announce T doc = Inr settings"
  shows "settings \<noteq> [] \<and> hd settings = Client_Settings"
proof -
  let ?I = "\<lambda>out. out \<noteq> [] \<and> hd out = Client_Settings"
  have gv: "?I out'" if "get_values T R node key (\<lambda>i v out. Inr (out @ [F v])) out = Inr (n, out')" "?I out" for R node key F n out out'
    by (rule get_values_invariant [where I = ?I, OF that]) auto
  from assms obtain out where 1: "get_nodes T doc ''market'' (\<lambda>node out.
              rbind (get_string T node ''exchange'') (\<lambda>exch.
              rbind (get_values T (read_string T) node ''symbol''
                       (\<lambda>_ symbol out. Inr (out @ [Client_Symbol symbol exch])) out) (\<lambda>(_, out1). Inr out1)))
              [Client_Settings] = Inr out"
    and 2: "get_nodes T doc ''account'' (\<lambda>node out.
          rbind (get_string T node ''account'') (\<lambda>account.
          rbind (get_string T node ''exchange'') (\<lambda>exch.
            Inr (out @ [Client_Account account])))) out = Inr settings"
    by (auto simp: config_announce_def res_simps)
  have "?I out"
    by (rule rfold_invariant [OF 1 [unfolded get_nodes_def]]) (auto simp: res_simps dest: gv)
  then have "?I settings"
    by (rule rfold_invariant [OF 2 [unfolded get_nodes_def]]) (auto simp: res_simps)
  then show ?thesis .
qed

text \<open>
  C6: a program that has started runs the pricer \<open>lqs\<close> and is in a state the theorems on the whole
  program speak of: the index of live orders agrees with the books, the counter of orders is safe, and
  the strategies are well-formed.  It announced the settings first.
\<close>

theorem application_starts:
  assumes "application_main X T read_file flags = Inr (settings, c, s)"
  shows "fl_strategy flags = ''lqs'' \<and> settings \<noteq> [] \<and> hd settings = Client_Settings \<and>
    program_reachable X T (fl_erase_all_orders_on_gateway_not_ready flags) (lqs_handle (x_layout X) (on_target_quotes X)) pricer_wf (c, s) \<and>
    pricer_wf (a_pricer c) \<and> oms_wf s \<and> safe X (c_gateways c) s"
proof -
  let ?P = "lqs_handle (x_layout X) (on_target_quotes X)"
  let ?flag = "fl_erase_all_orders_on_gateway_not_ready flags"
  from assms obtain doc cfg where settings: "config_announce T doc = Inr settings" and name: "fl_strategy flags = ''lqs''"
    and r: "strategy_construct X T ?flag ?P doc (new_app cfg [], initial_oms []) = Inr (c, s)"
    by (auto simp: application_main_def strategy_new_def res_simps)
  have "program_reachable X T ?flag ?P pricer_wf (c, s)"
    by (rule program_reachable.construct [OF _ r]) (simp add: pricer_wf_empty)
  with lqs_contract.program_ok [OF this] config_announce_hd [OF settings] name show ?thesis by simp
qed

text \<open>With any other name, the default name included, the program does not start.\<close>

lemma application_needs_lqs:
  assumes "fl_strategy flags \<noteq> ''lqs''"
  shows "\<exists>e. application_main X T read_file flags = Inl e"
  using assms by (cases "application_main X T read_file flags") (auto simp: application_main_def strategy_new_def res_simps)

lemma default_flags_do_not_start: "\<exists>e. application_main X T read_file default_flags = Inl e"
  by (rule application_needs_lqs) (simp add: default_flags_def)

lemma main_run:
  "\<exists>settings c s. application_main plain_ext tree_tm (\<lambda>_. Inr demo_document) (default_flags\<lparr>fl_strategy := ''lqs''\<rparr>) =
     Inr (settings, c, s) \<and> length settings = 5"
  by (simp add: application_main_def strategy_new_def pricer_factory_def config_load_def config_announce_def new_config_def
      new_app_def default_flags_def construct_eval lqs_on_parameters_def cong: eval_congs)

theorem application_starts_witness:
  "\<exists>settings c s. application_main plain_ext tree_tm (\<lambda>_. Inr demo_document) (default_flags\<lparr>fl_strategy := ''lqs''\<rparr>) =
       Inr (settings, c, s) \<and> length settings = 5 \<and> pricer_wf (a_pricer c) \<and> oms_wf s"
proof -
  obtain settings c s where r: "application_main plain_ext tree_tm (\<lambda>_. Inr demo_document) (default_flags\<lparr>fl_strategy := ''lqs''\<rparr>) =
       Inr (settings, c, s)" and "length settings = 5"
    using main_run by metis
  with application_starts [OF r] show ?thesis by blast
qed

end
