(* ===== verification/Config_Client.thy ===== *)
theory Config_Client
  imports Roq_Types Strings
begin

text \<open>
  The client of the configuration service, \<open>core/config/client.{hpp,cpp}\<close>: a list of parameters is
  written as a JSON array and put to the service, under a request identifier made from a counter.

  The REST client of the library is a parameter: the model records the calls made on it, and
  \<open>can_try\<close> says, given the calls so far, whether its connection is ready.  \<open>last_request_id\<close> is not
  initialised in the code, so the constructor takes the value it happens to hold.  The reply is only
  logged.  Left out are the fields of requests and of the connection that are always the same, such
  as the content type.
\<close>

section \<open>State and operations\<close>

datatype http_method = PUT | HM_other nat

record rest_request =
  rq_method :: http_method
  rq_path :: string
  rq_query :: string
  rq_body :: string

datatype rest_call =
    Rest_Start
  | Rest_Stop
  | Rest_Refresh
  | Rest_Request string rest_request  \<comment> \<open>request identifier and request\<close>

record config_client =
  cc_uri :: string
  cc_last_request_id :: "32 word"
  cc_calls :: "rest_call list"

definition new_config_client :: "32 word \<Rightarrow> string \<Rightarrow> config_client" where
  "new_config_client w uri = \<lparr>cc_uri = uri, cc_last_request_id = w, cc_calls = []\<rparr>"

text \<open>The format string of a parameter; its first line ends with a space.\<close>

definition json_name :: "string \<Rightarrow> string" where
  "json_name name = CHR 0x0A # ''        '' @ CHR 0x22 # name @ [CHR 0x22, CHR '':'']"

definition json_text :: "string \<Rightarrow> string \<Rightarrow> string" where
  "json_text name v = json_name name @ CHR 0x22 # v @ [CHR 0x22, CHR '','']"

definition format_parameter :: "parameter \<Rightarrow> string" where
  "format_parameter p =
     ''{ '' @ json_text ''label'' (par_label p) @ json_text ''value'' (par_value p)
       @ json_text ''account'' (par_account p) @ json_text ''symbol'' (par_symbol p)
       @ json_text ''exchange'' (par_exchange p)
       @ json_name ''strategy_id'' @ decimal (unat (par_strategy_id p)) @ CHR 0x0A # ''      }''"

text \<open>The loop over the parameters, with its counter \<open>i\<close>.\<close>

fun format_parameters :: "nat \<Rightarrow> parameter list \<Rightarrow> string" where
  "format_parameters i [] = []"
| "format_parameters i (p # ps) =
     (if i \<noteq> 0 then '','' else []) @ format_parameter p @ format_parameters (i + 1) ps"

definition parameters_body :: "parameter list \<Rightarrow> string" where
  "parameters_body ps = ''['' @ format_parameters 0 ps @ '']''"

definition put_request_id :: "32 word \<Rightarrow> string" where
  "put_request_id w = ''put-parameters-'' @ decimal (unat w)"

definition client_put :: "(rest_call list \<Rightarrow> bool) \<Rightarrow> parameter list \<Rightarrow> config_client \<Rightarrow> config_client" where
  "client_put can_try ps cc =
     (let w = cc_last_request_id cc + 1;
          request = \<lparr>rq_method = PUT, rq_path = ''/api/parameters'', rq_query = [], rq_body = parameters_body ps\<rparr>;
          cc1 = cc\<lparr>cc_last_request_id := w\<rparr> in
      if can_try (cc_calls cc1)
      then cc1\<lparr>cc_calls := cc_calls cc1 @ [Rest_Request (put_request_id w) request, Rest_Refresh]\<rparr>
      else cc1)"

definition client_call :: "rest_call \<Rightarrow> config_client \<Rightarrow> config_client" where
  "client_call a cc = cc\<lparr>cc_calls := cc_calls cc @ [a]\<rparr>"

definition client_on_timer :: "config_client \<Rightarrow> config_client" where
  "client_on_timer = client_call Rest_Refresh"

definition client_start :: "config_client \<Rightarrow> config_client" where
  "client_start = client_call Rest_Start"

definition client_stop :: "config_client \<Rightarrow> config_client" where
  "client_stop = client_call Rest_Stop"


section \<open>The body determines the parameters\<close>

text \<open>
  The strings are not escaped.  Without quotation marks in them, every list of parameters has a body
  of its own.
\<close>

definition quote_free :: "parameter \<Rightarrow> bool" where
  "quote_free p \<longleftrightarrow> list_all (\<lambda>s. CHR 0x22 \<notin> set s)
     [par_label p, par_value p, par_account p, par_symbol p, par_exchange p]"

lemma until_unique:
  fixes c :: char
  assumes "c \<notin> set xs" and "c \<notin> set ys"
  shows "xs @ c # r = ys @ c # s \<longleftrightarrow> xs = ys \<and> r = s"
proof
  assume "xs @ c # r = ys @ c # s"
  then have "Some (xs, r) = Some (ys, s)" by (simp only: split_at_sep_app [OF assms(1), of r, symmetric] split_at_sep_app [OF assms(2)])
  then show "xs = ys \<and> r = s" by simp
qed simp

lemma json_text_unique:
  assumes "CHR 0x22 \<notin> set v" and "CHR 0x22 \<notin> set w"
  shows "json_text name v @ r = json_text name w @ s \<longleftrightarrow> v = w \<and> r = s"
  using until_unique [OF assms, of "CHR '','' # r" "CHR '','' # s"] by (simp add: json_text_def)

lemma decimal_no_newline: "CHR 0x0A \<notin> set (decimal n)"
  using decimal_digits [of n] by (auto simp: list_all_iff is_digit_def)

lemma format_parameter_unique:
  assumes "quote_free p" and "quote_free q"
  shows "format_parameter p @ r = format_parameter q @ s \<longleftrightarrow> p = q \<and> r = s"
proof -
  have d: "decimal m @ CHR 0x0A # x = decimal n @ CHR 0x0A # y \<longleftrightarrow> m = n \<and> x = y" for m n x y
    using until_unique [OF decimal_no_newline decimal_no_newline, of m x n y] by (auto dest: decimal_inj)
  from assms show ?thesis
    by (auto simp: quote_free_def format_parameter_def json_text_unique d word_unat_eq_iff)
qed

lemma format_parameters_unique:
  assumes "list_all quote_free ps" and "list_all quote_free qs"
    and "format_parameters i ps @ '']'' = format_parameters i qs @ '']''"
  shows "ps = qs"
  using assms
proof (induction ps arbitrary: qs i)
  case Nil
  then show ?case by (cases qs) (auto simp: format_parameter_def split: if_splits)
next
  case (Cons p ps)
  then obtain q qs' where qs: "qs = q # qs'"
    by (cases qs) (auto simp: format_parameter_def split: if_splits)
  with Cons.prems have "p = q \<and> format_parameters (i + 1) ps @ '']'' = format_parameters (i + 1) qs' @ '']''"
    using format_parameter_unique [of p q] by auto
  with Cons.IH [of qs' "i + 1"] Cons.prems qs show ?case by simp
qed

text \<open>
  C33: the body put to the configuration service determines the parameters it was written from, as long
  as no field has a quotation mark in it.
\<close>

theorem parameters_body_unique:
  assumes "list_all quote_free ps" and "list_all quote_free qs"
  shows "parameters_body ps = parameters_body qs \<longleftrightarrow> ps = qs"
  using format_parameters_unique [OF assms, of 0] by (auto simp: parameters_body_def)

text \<open>A quotation mark breaks out of its field: two different parameters with the same body.\<close>

definition blank_parameter :: parameter where
  "blank_parameter =
     \<lparr>par_label = [], par_account = [], par_exchange = [], par_symbol = [], par_strategy_id = 0, par_value = []\<rparr>"

definition injected :: string where
  "injected = [CHR 0x22, CHR '',''] @ json_name ''value'' @ [CHR 0x22]"

lemma parameters_body_ambiguous:
  "parameters_body [blank_parameter\<lparr>par_label := injected\<rparr>] = parameters_body [blank_parameter\<lparr>par_value := injected\<rparr>]"
  by (simp add: parameters_body_def format_parameter_def json_text_def blank_parameter_def injected_def)


section \<open>Request identifiers\<close>

definition request_ids :: "config_client \<Rightarrow> string list" where
  "request_ids cc = concat (map (\<lambda>a. case a of Rest_Request i _ \<Rightarrow> [i] | _ \<Rightarrow> []) (cc_calls cc))"

datatype client_step = Put "parameter list" | Refresh

fun client_run :: "(rest_call list \<Rightarrow> bool) \<Rightarrow> client_step list \<Rightarrow> config_client \<Rightarrow> config_client" where
  "client_run can_try [] cc = cc"
| "client_run can_try (Put ps # steps) cc = client_run can_try steps (client_put can_try ps cc)"
| "client_run can_try (Refresh # steps) cc = client_run can_try steps (client_on_timer cc)"

text \<open>Identifiers are those of numbers after the start \<open>w\<close> and up to the counter.\<close>

definition numbered :: "32 word \<Rightarrow> nat \<Rightarrow> config_client \<Rightarrow> bool" where
  "numbered w n cc \<longleftrightarrow> cc_last_request_id cc = w + of_nat n \<and>
     (\<exists>ks. sorted_wrt (<) ks \<and> list_all (\<lambda>k. k \<le> n) ks \<and> request_ids cc = map (\<lambda>k. put_request_id (w + of_nat k)) ks)"

lemma numbered_put:
  assumes "numbered w n cc"
  shows "numbered w (Suc n) (client_put can_try ps cc)"
proof -
  from assms obtain ks where w: "cc_last_request_id cc = w + of_nat n"
    and ks: "sorted_wrt (<) ks" "list_all (\<lambda>k. k \<le> n) ks" "request_ids cc = map (\<lambda>k. put_request_id (w + of_nat k)) ks"
    by (auto simp: numbered_def)
  let ?ks = "if can_try (cc_calls cc) then ks @ [Suc n] else ks"
  have "sorted_wrt (<) ?ks \<and> list_all (\<lambda>k. k \<le> Suc n) ?ks"
    using ks(1,2) by (auto simp: sorted_wrt_append list_all_iff less_Suc_eq_le intro: le_SucI)
  moreover have "request_ids (client_put can_try ps cc) = map (\<lambda>k. put_request_id (w + of_nat k)) ?ks"
    using ks(3) by (auto simp: client_put_def request_ids_def w Let_def algebra_simps)
  ultimately show ?thesis using w by (auto simp: numbered_def client_put_def Let_def algebra_simps)
qed

lemma numbered_timer: "numbered w n cc \<Longrightarrow> numbered w n (client_on_timer cc)"
  by (simp add: numbered_def client_on_timer_def client_call_def request_ids_def)

lemma numbered_run:
  "numbered w n cc \<Longrightarrow> \<exists>m. numbered w m (client_run can_try steps cc) \<and> m \<le> n + length steps"
proof (induction can_try steps cc arbitrary: n rule: client_run.induct)
  case (1 can_try cc)
  then show ?case by auto
next
  case (2 can_try ps steps cc)
  from "2.IH" [OF numbered_put [OF "2.prems"]] show ?case by auto
next
  case (3 can_try steps cc)
  from "3.IH" [OF numbered_timer [OF "3.prems"]] show ?case by (auto intro: le_SucI)
qed

lemma put_request_id_inj: "put_request_id v = put_request_id w \<longleftrightarrow> v = w"
  by (auto simp: put_request_id_def word_unat_eq_iff dest: decimal_inj)

text \<open>
  Whatever the counter starts with and whether or not the connection is ready, no two requests of
  fewer than \<open>2 ^ 32\<close> steps have the same identifier.
\<close>

theorem request_ids_distinct:
  assumes "length steps < 2 ^ 32"
  shows "distinct (request_ids (client_run can_try steps (new_config_client w uri)))"
proof -
  have "numbered w 0 (new_config_client w uri)"
    by (auto simp: numbered_def new_config_client_def request_ids_def intro: exI [of _ "[]"])
  from numbered_run [OF this, of can_try steps] obtain m ks where
    m: "m \<le> length steps" and ks: "sorted_wrt (<) ks" "list_all (\<lambda>k. k \<le> m) ks"
      "request_ids (client_run can_try steps (new_config_client w uri)) = map (\<lambda>k. put_request_id (w + of_nat k)) ks"
    by (auto simp: numbered_def)
  have "inj_on (\<lambda>k. put_request_id (w + of_nat k)) (set ks)"
  proof (rule inj_onI)
    fix j k assume jk: "j \<in> set ks" "k \<in> set ks" "put_request_id (w + of_nat j) = put_request_id (w + of_nat k)"
    then have "(of_nat j :: 32 word) = of_nat k" by (simp add: put_request_id_inj)
    moreover have "j < 2 ^ 32" "k < 2 ^ 32" using jk(1,2) ks(2) m assms by (auto simp: list_all_iff)
    ultimately show "j = k" by (simp add: word_unat_eq_iff unat_of_nat)
  qed
  then show ?thesis using ks(1,3) by (simp add: distinct_map strict_sorted_iff)
qed

theorem parameters_body_unique_witness:
  "parameters_body [blank_parameter\<lparr>par_label := ''lqs:enabled'', par_value := ''1''\<rparr>] \<noteq>
     parameters_body [blank_parameter\<lparr>par_label := ''lqs:enabled'', par_value := ''0''\<rparr>]"
proof -
  have "list_all quote_free [blank_parameter\<lparr>par_label := ''lqs:enabled'', par_value := v\<rparr>]" if "v \<in> {''0'', ''1''}" for v
    using that by (auto simp: quote_free_def blank_parameter_def)
  from parameters_body_unique [OF this this, of "''1''" "''0''"] show ?thesis by (simp add: blank_parameter_def)
qed

end
