(* ===== verification/Spreader.thy ===== *)
theory Spreader
  imports Handler
begin

text \<open>
  \<open>spreader/\<close>: legs, spreads of two legs, the baiter that quotes a leg against the market of the other,
  the hedger that quotes a leg against the fills of the other, and the pricer that runs them.
\<close>

section \<open>Legs (\<open>leg.{hpp,cpp}\<close>)\<close>

datatype leg_flag = LOCAL

record spread_leg =
  sl_flags :: "leg_flag set"
  sl_market :: market
  sl_side :: side
  sl_volume_multiplier :: double
  sl_exec_quotes :: best_quotes
  sl_market_quotes :: best_quotes
  sl_position :: best_quotes
  sl_position_0 :: best_quotes
  sl_fills :: best_quotes
  sl_exposure :: double
  sl_delta_buy :: double
  sl_delta_sell :: double

definition no_market :: market where
  "no_market = \<lparr>m_market = 0, m_symbol = [], m_exchange = [], m_account = [], m_strategy_id = 0\<rparr>"

definition new_leg :: spread_leg where
  "new_leg =
     \<lparr>sl_flags = {}, sl_market = no_market, sl_side = SIDE_UNDEFINED, sl_volume_multiplier = Fin 1,
      sl_exec_quotes = no_best_quotes, sl_market_quotes = no_best_quotes, sl_position = no_best_quotes,
      sl_position_0 = no_best_quotes, sl_fills = no_best_quotes, sl_exposure = NaN, sl_delta_buy = Fin 0,
      sl_delta_sell = Fin 0\<rparr>"

definition is_local_leg :: "spread_leg \<Rightarrow> bool" where
  "is_local_leg l \<longleftrightarrow> LOCAL \<in> sl_flags l"

definition compute_delta :: "spread_leg \<Rightarrow> spread_leg" where
  "compute_delta l =
     l\<lparr>sl_delta_buy := double_max (sl_exposure l) (Fin 0) * sl_volume_multiplier l,
       sl_delta_sell := double_max (- sl_exposure l) (Fin 0) * sl_volume_multiplier l\<rparr>"

definition compute_fills :: "spread_leg \<Rightarrow> spread_leg" where
  "compute_fills l =
     (let GB = eq_price (bq_buy (sl_position l)); NB = eq_volume (bq_buy (sl_position l));
          GB0 = eq_price (bq_buy (sl_position_0 l)); NB0 = eq_volume (bq_buy (sl_position_0 l));
          GS = eq_price (bq_sell (sl_position l)); NS = eq_volume (bq_sell (sl_position l));
          GS0 = eq_price (bq_sell (sl_position_0 l)); NS0 = eq_volume (bq_sell (sl_position_0 l));
          UB = NB - NB0; US = NS - NS0;
          FB = (GB * NB - GB0 * NB0) / UB; FS = (GS * NS - GS0 * NS0) / US in
      l\<lparr>sl_fills :=
          \<lparr>bq_buy = no_exec_quote\<lparr>eq_price := FB, eq_volume := UB - double_min UB US\<rparr>,
           bq_sell = no_exec_quote\<lparr>eq_price := FS, eq_volume := US - double_min UB US\<rparr>\<rparr>\<rparr>)"

definition spread_leg_compute :: "spread_leg \<Rightarrow> spread_leg" where
  "spread_leg_compute l = compute_fills (compute_delta l)"

definition spread_leg_exposure :: "exposure \<Rightarrow> spread_leg \<Rightarrow> spread_leg" where
  "spread_leg_exposure u l =
     (let v = e_value u; p = sl_position l in
      spread_leg_compute
        (l\<lparr>sl_position := p
             \<lparr>bq_buy := (bq_buy p)\<lparr>eq_volume := ev_position_buy v, eq_price := ev_avg_price_buy v\<rparr>,
              bq_sell := (bq_sell p)\<lparr>eq_volume := ev_position_sell v, eq_price := ev_avg_price_sell v\<rparr>\<rparr>\<rparr>))"


section \<open>Spreads (\<open>spread.{hpp,cpp}\<close>)\<close>

text \<open>The two elements of the array \<open>legs\<close> are two fields.\<close>

record spread =
  sp_leg_0 :: spread_leg
  sp_leg_1 :: spread_leg
  sp_portfolio :: ident
  sp_market :: market
  sp_exec_quotes :: best_quotes
  sp_market_quotes :: best_quotes
  sp_delta_min :: double
  sp_delta_max :: double
  sp_delta :: double
  sp_last_hedged_time :: time

definition new_spread :: spread where
  "new_spread =
     \<lparr>sp_leg_0 = new_leg, sp_leg_1 = new_leg, sp_portfolio = 0, sp_market = no_market, sp_exec_quotes = no_best_quotes,
      sp_market_quotes = no_best_quotes, sp_delta_min = NaN, sp_delta_max = NaN, sp_delta = NaN, sp_last_hedged_time = 0\<rparr>"

definition spread_get_leg :: "ident \<Rightarrow> spread \<Rightarrow> spread_leg res" where
  "spread_get_leg i s = ensure (i < 2) (Inr (if i = 0 then sp_leg_0 s else sp_leg_1 s))"

definition put_spread_leg :: "ident \<Rightarrow> spread_leg \<Rightarrow> spread \<Rightarrow> spread" where
  "put_spread_leg i l s = (if i = 0 then s\<lparr>sp_leg_0 := l\<rparr> else s\<lparr>sp_leg_1 := l\<rparr>)"

definition get_other_leg_ident :: "ident \<Rightarrow> ident res" where
  "get_other_leg_ident i = ensure (i < 2) (Inr (1 - i))"

definition get_other_leg :: "ident \<Rightarrow> spread \<Rightarrow> spread_leg res" where
  "get_other_leg i s = rbind (get_other_leg_ident i) (\<lambda>j. Inr (if j = 0 then sp_leg_0 s else sp_leg_1 s))"

text \<open>\<open>get_legs\<close>: the callback may write to every leg of the spread.\<close>

definition for_spread_legs :: "(ident \<Rightarrow> spread \<times> 'w \<Rightarrow> (spread \<times> 'w) res) \<Rightarrow> spread \<times> 'w \<Rightarrow> (spread \<times> 'w) res" where
  "for_spread_legs fn = rfold fn [0, 1]"

definition spread_compute_delta :: "spread \<Rightarrow> spread" where
  "spread_compute_delta s =
     s\<lparr>sp_delta := fold (\<lambda>l d.
         (d + eq_volume (bq_buy (sl_position l)) * sl_volume_multiplier l)
            - eq_volume (bq_sell (sl_position l)) * sl_volume_multiplier l)
       [sp_leg_0 s, sp_leg_1 s] (Fin 0)\<rparr>"

definition spread_compute :: "spread \<Rightarrow> spread" where
  "spread_compute s = spread_compute_delta s"

text \<open>
  \<open>Spread::operator()(ParametersUpdate)\<close> fills a local market that is dropped; what remains is that
  the value of every parameter must split into a label and a number.
\<close>

definition spread_on_parameters :: "parameter list \<Rightarrow> spread \<Rightarrow> spread res" where
  "spread_on_parameters =
     rfold (\<lambda>p s. rbind (split_suffix_uint32 (par_value p) (CHR '':'')) (\<lambda>(label, index). Inr s))"


section \<open>The baiter (\<open>bait.cpp\<close>)\<close>

text \<open>Both market prices are read from the buy side of the other leg.\<close>

definition bait_leg ::
  "(spread_leg \<Rightarrow> 'w \<Rightarrow> 'w res) \<Rightarrow> ident \<Rightarrow> spread \<times> 'w \<Rightarrow> (spread \<times> 'w) res" where
  "bait_leg fn i = (\<lambda>(s, w).
     rbind (spread_get_leg i s) (\<lambda>bait.
     if \<not> is_local_leg bait then Inr (s, w)
     else
       rbind (get_other_leg i s) (\<lambda>hedge.
       let delta = sp_delta s;
           LB = eq_price (bq_buy (sp_exec_quotes s)); LS = eq_price (bq_sell (sp_exec_quotes s));
           MB = eq_price (bq_buy (sl_market_quotes hedge)); MS = eq_price (bq_buy (sl_market_quotes hedge));
           N = sl_exposure bait;
           dB = double_min (double_max (- N) (Fin 0)) (sp_delta_max s - delta);
           dS = double_min (double_max N (Fin 0)) (delta - sp_delta_min s);
           q = sl_exec_quotes bait in
       rbind (case sl_side bait of
                BUY \<Rightarrow> Inr (MB * LB, MB * LS)
              | SELL \<Rightarrow> Inr (MS / LS, MS / LB)
              | SIDE_UNDEFINED \<Rightarrow> Inl Assert_Failed) (\<lambda>(buy, sell).
       let bait1 = bait\<lparr>sl_exec_quotes := q
                     \<lparr>bq_buy := (bq_buy q)\<lparr>eq_price := buy, eq_volume := dB / sl_volume_multiplier bait\<rparr>,
                      bq_sell := (bq_sell q)\<lparr>eq_price := sell, eq_volume := dS / sl_volume_multiplier bait\<rparr>\<rparr>\<rparr> in
       rbind (fn bait1 w) (\<lambda>w1. Inr (put_spread_leg i bait1 s, w1))))))"

definition run_baiter :: "(spread_leg \<Rightarrow> 'w \<Rightarrow> 'w res) \<Rightarrow> spread \<times> 'w \<Rightarrow> (spread \<times> 'w) res" where
  "run_baiter fn = for_spread_legs (bait_leg fn)"


section \<open>The hedger (\<open>hedge_limit.cpp\<close>)\<close>

text \<open>On an undefined side of the baited leg the prices of the hedging leg stay.\<close>

definition hedge_leg ::
  "(spread_leg \<Rightarrow> 'w \<Rightarrow> 'w res) \<Rightarrow> ident \<Rightarrow> spread \<times> 'w \<Rightarrow> (spread \<times> 'w) res" where
  "hedge_leg fn i = (\<lambda>(s, w).
     rbind (spread_get_leg i s) (\<lambda>bait.
     rbind (get_other_leg i s) (\<lambda>hedge.
     if \<not> is_local_leg hedge then Inr (s, w)
     else
       (let LB = eq_price (bq_buy (sp_exec_quotes s)); LS = eq_price (bq_sell (sp_exec_quotes s));
            FB = eq_price (bq_buy (sl_fills bait)); FS = eq_price (bq_sell (sl_fills bait));
            q = sl_exec_quotes hedge;
            (buy, sell) = (case sl_side bait of
                BUY \<Rightarrow> (FS * LS, FB * LB)
              | SELL \<Rightarrow> (FS / LB, FB / LS)
              | SIDE_UNDEFINED \<Rightarrow> (eq_price (bq_buy q), eq_price (bq_sell q)));
            delta_buy = double_max (sp_delta s) (Fin 0);
            delta_sell = double_max (- sp_delta s) (Fin 0);
            hedge1 = hedge\<lparr>sl_exec_quotes := q
                \<lparr>bq_buy := (bq_buy q)\<lparr>eq_price := buy, eq_volume := delta_sell / sl_volume_multiplier hedge\<rparr>,
                 bq_sell := (bq_sell q)\<lparr>eq_price := sell, eq_volume := delta_buy / sl_volume_multiplier hedge\<rparr>\<rparr>\<rparr> in
        rbind (fn hedge1 w) (\<lambda>w1. Inr (put_spread_leg (1 - i) hedge1 s, w1))))))"

definition run_hedger :: "(spread_leg \<Rightarrow> 'w \<Rightarrow> 'w res) \<Rightarrow> spread \<times> 'w \<Rightarrow> (spread \<times> 'w) res" where
  "run_hedger fn = for_spread_legs (hedge_leg fn)"


section \<open>The pricer (\<open>pricer.{hpp,cpp}\<close>)\<close>

record spreader =
  sr_spreads :: "spread list"
  sr_leg_by_market :: "(ident, ident \<times> ident) hash"
  sr_spread_by_portfolio :: "(ident, ident) hash"

definition new_spreader :: spreader where
  "new_spreader = \<lparr>sr_spreads = [], sr_leg_by_market = [], sr_spread_by_portfolio = []\<rparr>"

text \<open>The enumerations of the portfolio manager that only this pricer uses.\<close>

definition get_portfolios :: "portfolios \<Rightarrow> portfolio list" where
  "get_portfolios pm = map snd (portfolios_by_id pm)"

definition portfolio_positions :: "ident \<Rightarrow> portfolios \<Rightarrow> exposure_update list res" where
  "portfolio_positions i pm =
     (case hfind (portfolios_by_id pm) i of
        None \<Rightarrow> Inl Undefined_Behaviour
      | Some p \<Rightarrow>
          Inr (map (\<lambda>e. \<lparr>eu_exposure = [e], eu_portfolio = p_portfolio p, eu_portfolio_name = p_portfolio_name p\<rparr>)
                 (get_positions p)))"

text \<open>Every exposure writes both legs.\<close>

definition exposure_leg :: "exposure \<Rightarrow> ident \<Rightarrow> spread_leg" where
  "exposure_leg e i =
     new_leg\<lparr>sl_market := no_market\<lparr>m_market := e_market e, m_symbol := e_symbol e, m_exchange := e_exchange e\<rparr>,
       sl_side := (if i = 0 then BUY else SELL),
       sl_position :=
         \<lparr>bq_buy = no_exec_quote\<lparr>eq_price := ev_avg_price_buy (e_value e), eq_volume := ev_position_buy (e_value e)\<rparr>,
          bq_sell = no_exec_quote\<lparr>eq_price := ev_avg_price_sell (e_value e), eq_volume := ev_position_sell (e_value e)\<rparr>\<rparr>\<rparr>"

definition build_spread :: "portfolio \<Rightarrow> portfolios \<Rightarrow> spread res" where
  "build_spread p pm =
     rbind (portfolio_positions (p_portfolio p) pm) (\<lambda>us.
       Inr (fold (\<lambda>u. fold (\<lambda>e s. s\<lparr>sp_leg_0 := exposure_leg e 0, sp_leg_1 := exposure_leg e 1\<rparr>) (eu_exposure u))
              us new_spread))"

definition build_spreads :: "portfolios \<Rightarrow> spreader \<Rightarrow> spreader res" where
  "build_spreads pm =
     rfold (\<lambda>p r. rbind (build_spread p pm) (\<lambda>s. Inr (r\<lparr>sr_spreads := sr_spreads r @ [s]\<rparr>))) (get_portfolios pm)"

definition spreader_dispatch :: "(quotes \<Rightarrow> 'w \<Rightarrow> 'w res) \<Rightarrow> spread_leg \<Rightarrow> 'w \<Rightarrow> 'w res" where
  "spreader_dispatch D l w = D (to_quotes (sl_exec_quotes l) (m_market (sl_market l))) w"

definition spreader_get_leg ::
  "ident \<Rightarrow> (ident \<Rightarrow> spread \<times> 'w \<Rightarrow> (spread \<times> 'w) res) \<Rightarrow> spreader \<times> 'w \<Rightarrow> (spreader \<times> 'w) res" where
  "spreader_get_leg m fn = (\<lambda>(r, w).
     case hfind (sr_leg_by_market r) m of
       None \<Rightarrow> Inr (r, w)
     | Some (i, j) \<Rightarrow>
         ensure (unat i < length (sr_spreads r)) (ensure (j < 2)
           (rbind (fn j (sr_spreads r ! unat i, w)) (\<lambda>(s, w1).
              Inr (r\<lparr>sr_spreads := (sr_spreads r)[unat i := s]\<rparr>, w1)))))"

definition spreader_on_quotes ::
  "(quotes \<Rightarrow> ('g, 'z) core_scheme \<times> 'o \<Rightarrow> (('g, 'z) core_scheme \<times> 'o) res) \<Rightarrow> quotes \<Rightarrow>
     spreader \<times> ('g, 'z) core_scheme \<times> 'o \<Rightarrow> (spreader \<times> ('g, 'z) core_scheme \<times> 'o) res" where
  "spreader_on_quotes D u =
     spreader_get_leg (qs_market u) (\<lambda>j (s, c, o').
       rbind (spread_get_leg j s) (\<lambda>leg.
         let s1 = (case bq_get_quotes (qs_market u) (c_best_quotes c) of
                     None \<Rightarrow> s | Some q \<Rightarrow> put_spread_leg j (leg\<lparr>sl_market_quotes := q\<rparr>) s) in
         rbind (run_baiter (spreader_dispatch D) (s1, c, o')) (run_hedger (spreader_dispatch D))))"

text \<open>Parameters reach the baiter and the hedger, which ignore them.\<close>

fun spreader_handle ::
  "(quotes \<Rightarrow> ('g, 'z) core_scheme \<times> 'o \<Rightarrow> (('g, 'z) core_scheme \<times> 'o) res) \<Rightarrow>
     (spreader, ('g, 'z) core_scheme \<times> 'o) pricer" where
  "spreader_handle D (H_Quotes u) r = spreader_on_quotes D u r"
| "spreader_handle D (H_Parameters_Update ps) r = Inr r"
| "spreader_handle D H_Market_Status r = Inr r"
| "spreader_handle D (H_Timer now) r = Inr r"
| "spreader_handle D (H_Exposure_Update u) r = Inr r"
| "spreader_handle D (H_Reference_Data symbol exch) r = Inr r"
| "spreader_handle D (H_Download_Begin a) r = Inr r"
| "spreader_handle D (H_Download_End a) r = Inr r"

end
