(* ===== verification/Spreader_Results.thy ===== *)
theory Spreader_Results
  imports Spreader Strategy_Wf
begin

text \<open>
  What the pricer of \<open>spreader/\<close> does: the table from markets to legs is filled by nothing, so no
  message reaches a leg; the spreads it builds have one market on both legs; the fills of a leg are net.
\<close>

section \<open>Messages\<close>

lemma spreader_handle_idle: "sr_leg_by_market r = [] \<Longrightarrow> spreader_handle D h (r, w) = Inr (r, w)"
  by (cases h) (simp_all add: spreader_on_quotes_def spreader_get_leg_def hd.find_empty)

interpretation spreader_contract: handler_contract X "spreader_handle (on_target_quotes X)" "\<lambda>r. sr_leg_by_market r = []"
  for X :: "'g ext"
  by unfold_locales (auto simp: spreader_handle_idle)

definition one_market :: "spread \<Rightarrow> bool" where
  "one_market s \<longleftrightarrow> m_market (sl_market (sp_leg_0 s)) = m_market (sl_market (sp_leg_1 s))"

lemma build_spread_one_market: "build_spread p pm = Inr s \<Longrightarrow> one_market s"
proof -
  let ?put = "\<lambda>e s. s\<lparr>sp_leg_0 := exposure_leg e 0, sp_leg_1 := exposure_leg e 1\<rparr>"
  have i: "one_market s \<Longrightarrow> one_market (fold ?put es s)" for es s
    by (induction es arbitrary: s) (simp_all add: one_market_def exposure_leg_def)
  have "one_market s \<Longrightarrow> one_market (fold (\<lambda>u. fold ?put (eu_exposure u)) us s)" for us s
    by (induction us arbitrary: s) (simp_all add: i)
  moreover have "one_market new_spread" by (simp add: one_market_def new_spread_def)
  ultimately show "build_spread p pm = Inr s \<Longrightarrow> one_market s"
    by (auto simp: build_spread_def res_simps)
qed

text \<open>
  C39: a pricer that has built its spreads ignores every message: no handler is reached, whatever the
  dispatcher, because nothing enters a leg in the table by market.  Each spread it has built hedges a
  market with itself: the loop over the positions of a portfolio writes both legs.
\<close>

theorem spreader_is_inert:
  assumes "build_spreads pm new_spreader = Inr r"
  shows "spreader_handle D h (r, w) = Inr (r, w) \<and>
    (\<forall>s\<in>set (sr_spreads r). m_market (sl_market (sp_leg_0 s)) = m_market (sl_market (sp_leg_1 s)))"
proof -
  have "sr_leg_by_market r = [] \<and> (\<forall>s\<in>set (sr_spreads r). one_market s)"
    by (rule rfold_invariant [OF assms [unfolded build_spreads_def]])
      (auto simp: new_spreader_def res_simps build_spread_one_market)
  then show ?thesis by (simp add: one_market_def spreader_handle_idle)
qed


section \<open>Fills\<close>

text \<open>The quantities traded since the leg was hedged.\<close>

definition traded_buy :: "spread_leg \<Rightarrow> double" where
  "traded_buy l = eq_volume (bq_buy (sl_position l)) - eq_volume (bq_buy (sl_position_0 l))"

definition traded_sell :: "spread_leg \<Rightarrow> double" where
  "traded_sell l = eq_volume (bq_sell (sl_position l)) - eq_volume (bq_sell (sl_position_0 l))"

text \<open>
   the fills of a leg are net: what was both bought and sold since it was hedged is taken out of both
  sides, so one side is empty and the other is what was traded more on it; a leg is never hedged on
  both sides at once.
\<close>

theorem fills_are_net:
  assumes "isfin (traded_buy l)" "isfin (traded_sell l)"
  shows "let f = sl_fills (compute_fills l) in
    if dlt (traded_sell l) (traded_buy l)
    then eq_volume (bq_sell f) = Fin 0 \<and> eq_volume (bq_buy f) = traded_buy l - traded_sell l
    else eq_volume (bq_buy f) = Fin 0 \<and> eq_volume (bq_sell f) = traded_sell l - traded_buy l"
  using assms minus_self unfolding traded_buy_def traded_sell_def
  by (simp add: compute_fills_def Let_def double_min_def)


section \<open>Examples\<close>

definition traded_leg :: spread_leg where
  "traded_leg = new_leg
     \<lparr>sl_position := \<lparr>bq_buy = no_exec_quote\<lparr>eq_price := Fin 10, eq_volume := Fin 5\<rparr>, bq_sell = no_exec_quote\<lparr>eq_price := Fin 11, eq_volume := Fin 3\<rparr>\<rparr>,
      sl_position_0 := \<lparr>bq_buy = no_exec_quote\<lparr>eq_price := Fin 10, eq_volume := Fin 1\<rparr>, bq_sell = no_exec_quote\<lparr>eq_price := Fin 11, eq_volume := Fin 2\<rparr>\<rparr>\<rparr>"

theorem fills_are_net_witness: "eq_volume (bq_sell (sl_fills (compute_fills traded_leg))) = Fin 0"
proof -
  have f: "traded_buy traded_leg = Fin 4" "traded_sell traded_leg = Fin 1"
    by (simp_all add: traded_buy_def traded_sell_def traded_leg_def minus_double_def)
  have "dlt (Fin 1) (Fin 4)" by (simp add: dlt_def double_compare_of_int [of 1 4, simplified])
  with fills_are_net [of traded_leg] f show ?thesis by (simp add: Let_def)
qed

definition demo_positions :: portfolios where
  "demo_positions = demo_portfolios
     \<lparr>portfolios_by_id := [(1, default_portfolio\<lparr>p_portfolio := 1, p_positions := [(''a'', [(1, no_exposure_value), (2, no_exposure_value)])]\<rparr>)]\<rparr>"

theorem spreader_is_inert_witness:
  "\<exists>r. build_spreads demo_positions new_spreader = Inr r \<and> length (sr_spreads r) = 1 \<and>
     spreader_handle (\<lambda>q. Inr) (H_Quotes (to_quotes no_best_quotes 1)) (r, demo_core, ()) = Inr (r, demo_core, ())"
proof -
  obtain r where r: "build_spreads demo_positions new_spreader = Inr r" "length (sr_spreads r) = 1"
    by (simp add: build_spreads_def get_portfolios_def demo_positions_def demo_portfolios_def build_spread_def
        portfolio_positions_def hash_eval new_spreader_def default_portfolio_def)
  from spreader_is_inert [OF r(1)] r show ?thesis by blast
qed

end
