(* ===== verification/Spec2Isabelle.thy ===== *)
theory Spec2Isabelle
  imports Strategy_Wf Oms_Recount Core_Results Application Config_Client Spreader_Results
begin

text \<open>
  A model of \<open>roq-apps\<close>, trading applications on the \<open>roq\<close> client library (sources under
  \<open>src/src/roq\<close>), and the theorems that make it correct.

  The program.  One process runs one \<^emph>\<open>strategy\<close> (\<open>core/strategy\<close>).  Every event of the client
  library goes, in this order, through the parameter store (\<open>core/config\<close>), the core
  (\<open>core/manager\<close>: gateways, markets, portfolios, best quotes), the order manager (\<open>core/oms\<close>) and a
  pricer; trades of the order manager and exposure updates of the core are called back on the way.  The
  pricer turns quotes, positions and parameters into target quotes; the order manager keeps one book
  per strategy, account and market, and creates, modifies and cancels orders until the orders of the
  book stand at the target.  There are three pricers behind the interface \<open>core/handler.hpp\<close>: \<open>lqs\<close>,
  \<open>dag\<close> and \<open>spreader\<close>.

  Theories, from the bottom.
  \<^item> \<open>Prelude\<close>: results (\<open>error + 'a\<close>), folds over fallible steps and their invariant rules.
  \<^item> \<open>Doubles\<close> (\<open>core/double.hpp\<close>): binary64 with rounding, NaN and infinities, \<open>core::Double\<close> and its
    comparison with tolerance; \<open>Strings\<close> (\<open>core/string_utils\<close>) and \<open>Parse_Double\<close> (parsing of decimals).
  \<^item> \<open>Hashes\<close> (\<open>core/hash.hpp\<close>): hash maps with an order of iteration of their own, ordered maps and nested maps,
    each an interpretation of the locale \<open>dict\<close> or \<open>nested_dict\<close>, on which all tables rest.
  \<^item> \<open>Roq_Types\<close>: messages and enumerations of the API, and the record \<open>ext\<close> of what the program calls.
  \<^item> \<open>Quotes\<close> (\<open>core/quote\<close>, \<open>best_quotes\<close>, \<open>price\<close>, \<open>shift\<close>), \<open>Gateways\<close>, \<open>Markets\<close>, \<open>Portfolios\<close>,
    \<open>Core_Manager\<close> (\<open>core/gateway\<close>, \<open>core/market\<close>, \<open>core/portfolio\<close>, \<open>core/manager\<close>); properties in
    \<open>Core_Results\<close>.
  \<^item> \<open>Oms_Book\<close>, \<open>Oms_Process\<close>, \<open>Oms_Manager\<close> (\<open>core/oms\<close>): books, the reconciliation \<open>process\<close>, and one
    definition per handler.  \<open>Examples\<close> has the concrete states of the witnesses.  \<open>Oms_Safety\<close>: \<open>process\<close>
    returns.  \<open>Oms_Requests\<close>: which requests it sends.  \<open>Oms_Target\<close>: what a quiet book means.
    \<open>Oms_Whole\<close>, \<open>Oms_Converge\<close>, \<open>Oms_Liveness\<close>, \<open>Oms_Reports\<close>: books in whole numbers, and the order
    manager against a gateway that answers, and that also reports what was not asked for;
    \<open>Oms_Quotes\<close>: from target quotes to orders; \<open>Oms_Recount\<close>: what counting orders twice does.
    \<open>Oms_Index\<close>: the index of live orders agrees with the books in every reachable state.
    \<open>Oms_Replies\<close>: fills, rejects and what never follows them, cancellations, timer.
  \<^item> \<open>Handler\<close>: the messages of a pricer.  \<open>Lqs\<close> (\<open>lqs\<close>) and its properties: \<open>Lqs_Legs\<close> and
    \<open>Lqs_Results\<close> (what a leg quotes), \<open>Lqs_Wf\<close> and \<open>Lqs_Sink\<close> (well-formedness, over any dispatcher that
    meets the locale \<open>quote_sink\<close>), \<open>Lqs_Oms\<close> (the order manager meets it), \<open>Lqs_Silent\<close>, \<open>Lqs_Runs\<close>.
  \<^item> \<open>Config_Parameters\<close> (\<open>core/config/manager\<close>: the store), \<open>Toml\<close> (\<open>core/config/toml_file\<close>) and
    \<open>Configure\<close> (the \<open>configure\<close> and \<open>load\<close> functions of all components).
  \<^item> \<open>Strategy\<close> (\<open>core/strategy\<close>, \<open>core/basic_handler.hpp\<close>), and \<open>Strategy_Wf\<close>: the invariant of the whole
    program for every pricer that meets the locale \<open>handler_contract\<close>; \<open>Configure_Results\<close> starts it at
    the constructor that reads the file, and \<open>Application\<close> (\<open>core/application\<close>, \<open>core/factory.cpp\<close>,
    \<open>core/flags\<close>) at \<open>main\<close> and the flags.
  \<^item> \<open>Config_Client\<close> (\<open>core/config/client\<close>): the requests to the configuration service.
  \<^item> \<open>Dag_Graph\<close> (\<open>dag/graph.hpp\<close>), \<open>Dag_Ops\<close> (nodes, operations, registry), \<open>Dag_Pricer\<close>, \<open>Dag_Results\<close>;
    \<open>Spreader\<close>, \<open>Spreader_Results\<close>: the other two pricers, which meet the same contract.

  How C++ is read.
  \<^item> A failed \<open>assert\<close> is \<open>Inl Assert_Failed\<close>, a thrown \<open>roq::RuntimeError\<close> is \<open>Inl (Runtime_Error ..)\<close>, and
    a conversion, access or call without a defined result is \<open>Inl Undefined_Behaviour\<close>.  Sending a
    request may throw.  Two arguments that may both throw are evaluated from left to right.
  \<^item> Identifiers and counters are words of their width and wrap; times are integers of nanoseconds;
    doubles are rounded at every operation; \<open>std::pow\<close> is a parameter.
  \<^item> Iteration over a hash map is in an order the parameter \<open>layout\<close> chooses at each insertion and erasure from
    the number of entries; theorems are for every \<open>layout\<close>.  An order that depends on the keys or on the
    history of the container beyond that is not an instance.  A reference into a table is looked up again where it is used, and a
    callback sees the tables as they are then.
  \<^item> What is not under \<open>src\<close> is a parameter: the connection, comparison with tolerance
    (\<open>roq::utils::compare\<close>) and the cached state of a gateway in the record \<open>ext\<close>; the layers of the market
    by price, which the library keeps, come with the event; the nodes of the TOML parser are the record \<open>tm\<close>.
    What is relied on is stated where it is used (\<open>compare_ok\<close>: "greater" is reported only for greater;
    \<open>compare_whole\<close>: different whole numbers are told apart; \<open>compare_lots\<close>: a lot more is greater).
  \<^item> Left out: logging, latencies, \<open>order_type\<close> and \<open>time_in_force\<close> of requests (always LIMIT and GTC), the
    truncation of fixed-length strings, and results of type \<open>bool\<close> that every caller ignores.

  Termination.  The loop of \<open>process\<close> through its label \<open>again\<close> ends because each round puts one more
  order in flight (measure \<open>idle_orders\<close>).  Replies end because each leaves fewer orders in excess,
  fewer sides unfilled, or fewer orders in flight (\<open>progress\<close>).  The search of \<open>Graph::build_path\<close> is a partial function,
  shown to return on every graph: distances only grow and are bounded by the number of edges.
  The number of bits of an integer (\<open>Doubles\<close>) halves its argument; everything else is structural.  There
  is no fuel.

  What the theorems show.
  \<^item> Order manager (books on the tick grid, a gateway that supports modifications, a dispatcher that does
    not throw): \<open>process\<close> returns, sends at most one request per order, creates only on a side with
    nothing in flight and nothing below the smallest quantity, and sends nothing when it must not; with nothing in flight, a gateway that serves the book and no ban it sends a request
    exactly when the orders are not at the target; against a gateway that confirms what it is asked it
    reaches the target in finitely many replies, and fills, cancellations and rejections that the gateway
    plausibly reports on the way (whole numbers on the grid) delay this only as long as they go on; at rest the quantity ordered at every level is the quantity
    quoted; the index agrees with the books in every reachable
    state; fills are booked exactly and once; an order is never modified again after a rejected modification;
    every counting pass adds the quantities of the orders to what the levels hold.
  \<^item> \<open>lqs\<close>: legs quote within volume, exposure and delta limits, on one side; disabled strategies are
  silent.
  \<^item> Tables: markets, gateways and parameters refine abstract maps, and the file yields exactly the
  markets and parameters it names.  Without quotation marks in them, parameters are determined by the
  request written from them, and identifiers of requests are distinct.
  \<^item> \<open>dag\<close>: the search finds cycles exactly and orders the rest topologically.
  \<^item> Program: the invariants hold from \<open>main\<close> on, through all events that fit (\<open>event_fits\<close>,
  \<open>client_event_ok\<close>): the client library makes no gateway ready while an identifier in use is above the
  counter of orders, and reports on known orders name the order's own book, on unknown ones an identifier
  the counter has reached (or come while no gateway is ready).  The code relies on both and checks neither.
  It starts with the pricer \<open>lqs\<close> or not at all.

  Where the code does not do what it means to, the theorem states what it does:
  \<open>process_disturbs_met_levels\<close>, \<open>process_asserts_modify_support\<close>, \<open>create_reject_too_late_undefined\<close>,
  \<open>canceled_fill_is_lost\<close>, \<open>fills_reach_no_portfolio\<close>, \<open>top_of_book_agrees_iff\<close>,
  \<open>link_underlying_keeps_links\<close>, \<open>dag_pricer_is_silent\<close>, \<open>dag_parameters_reach_no_node\<close>,
  \<open>spreader_is_inert\<close>.

  Not modelled: \<open>core/fmt\<close>, \<open>core/clock\<close>, \<open>core/type_list\<close> (output, the system clock, metaprogramming
  without state), the parsing of the command line, and the parts of \<open>core/factory.cpp\<close> that are compiled
  only with \<open>USE_DAG\<close> or \<open>USE_SPREADER\<close>, which are not set.
\<close>

end
